(* ===== verification/Tasch_Prelude.thy ===== *)
theory Tasch_Prelude
  imports Main "HOL-Library.Word" "HOL-Library.Multiset"
begin

text \<open>
  Shared ground of the development: the Go primitives every component uses (64-bit
  integer arithmetic, instants and durations of package \<open>time\<close>, an unordered \<open>range\<close>
  over a map), the collections of simplification rules the component theories fill, and
  the generic lemmas on lists, multisets and maps they share.

  Instants are integers: the nanoseconds since the zero value of \<open>time.Time\<close> (1 January
  of the year 1, UTC), so that the zero value is \<open>0\<close>. Go's \<open>int\<close> is 64 bits wide on every
  platform the program is built for; it is an \<open>int\<close> here, and \<open>i64\<close> is applied
  wherever an arithmetic result is stored.
\<close>

named_theorems tasch_consts \<open>string constants of the program\<close>
named_theorems heap_view \<open>how the heap methods act on the viewed list\<close>
named_theorems frame \<open>fields an operation leaves alone\<close>

subsection \<open>Integers\<close>

text \<open>The value a 64-bit two's complement variable holds after storing \<open>x\<close>.\<close>

definition i64 :: "int \<Rightarrow> int" where
  "i64 x = (x + 2 ^ 63) mod 2 ^ 64 - 2 ^ 63"

definition in_i64 :: "int \<Rightarrow> bool" where
  "in_i64 x \<longleftrightarrow> - (2 ^ 63) \<le> x \<and> x < 2 ^ 63"

lemma i64_id [simp]: "in_i64 x \<Longrightarrow> i64 x = x"
  by (simp add: i64_def in_i64_def)

lemma in_i64_i64 [simp]: "in_i64 (i64 x)"
  by (simp add: i64_def in_i64_def)

text \<open>What wrap-around arithmetic adds it takes away.\<close>

lemma i64_undo:
  assumes "in_i64 c"
  shows "i64 (i64 (c + x) - x) = c"
proof -
  have "i64 (i64 (c + x) - x) = ((c + x + 2 ^ 63) mod 2 ^ 64 - x) mod 2 ^ 64 - 2 ^ 63" by (simp add: i64_def algebra_simps)
  also have "\<dots> = i64 c" unfolding mod_diff_left_eq by (simp add: i64_def)
  finally show ?thesis using assms by simp
qed

lemma i64_range: "- (2 ^ 63) \<le> i64 x \<and> i64 x < 2 ^ 63"
  using in_i64_i64 [of x] unfolding in_i64_def .

lemma in_i64_between: "in_i64 a \<Longrightarrow> in_i64 b \<Longrightarrow> a \<le> x \<Longrightarrow> x \<le> b \<Longrightarrow> in_i64 x"
  by (simp add: in_i64_def)

lemma in_i64_small [simp]: "in_i64 0" "in_i64 1" "in_i64 (numeral Num.One)"
  by (simp_all add: in_i64_def)

subsection \<open>Instants and durations\<close>

type_synonym Time = int
type_synonym Duration = int

abbreviation (input) zero_time :: Time where "zero_time \<equiv> 0"

definition Second :: Duration where "Second = 1000000000"
definition Minute :: Duration where "Minute = 60 * Second"
definition Millisecond :: Duration where "Millisecond = 1000000"

lemma Second_pos [simp]: "0 < Second" by (simp add: Second_def)

text \<open>\<open>Time.Sub\<close> saturates at the ends of the 64-bit duration range.\<close>

definition time_Sub :: "Time \<Rightarrow> Time \<Rightarrow> Duration" where
  "time_Sub t u = max (- (2 ^ 63)) (min (2 ^ 63 - 1) (t - u))"

definition time_Add :: "Time \<Rightarrow> Duration \<Rightarrow> Time" where
  "time_Add t d = t + d"

definition time_Unix :: "Time \<Rightarrow> int" where
  "time_Unix t = t div 1000000000 - 62135596800"

definition time_UnixMilli :: "Time \<Rightarrow> int" where
  "time_UnixMilli t = t div 1000000 - 62135596800000"

lemma time_Sub_exact: "in_i64 (t - u) \<Longrightarrow> time_Sub t u = t - u"
  by (simp add: time_Sub_def in_i64_def)

lemma time_Sub_pos: "0 < time_Sub t u \<longleftrightarrow> u < t"
  by (auto simp: time_Sub_def)

lemma time_Sub_greater: "d < 2 ^ 63 - 1 \<Longrightarrow> - (2 ^ 63) \<le> d \<Longrightarrow> d < time_Sub t u \<longleftrightarrow> u + d < t"
  by (auto simp: time_Sub_def)

subsection \<open>Ranging over a map\<close>

text \<open>
  Go visits the keys of a map in an unspecified order. An operation that ranges over a
  map takes that order as an argument: a list of the keys, each once.
\<close>

definition range_order :: "'k list \<Rightarrow> ('k \<rightharpoonup> 'v) \<Rightarrow> bool" where
  "range_order ks m \<longleftrightarrow> distinct ks \<and> set ks = dom m"

lemma range_orderD [dest]: "range_order ks m \<Longrightarrow> k \<in> set ks \<Longrightarrow> \<exists>v. m k = Some v"
  by (auto simp: range_order_def)

lemma range_order_card: "range_order ks m \<Longrightarrow> length (filter (\<lambda>k. \<exists>v. m k = Some v \<and> P v) ks) = card {k. \<exists>v. m k = Some v \<and> P v}"
  by (subst distinct_length_filter) (auto simp: range_order_def intro!: arg_cong [where f = card])

text \<open>A read of a key that is absent gives the zero value of the element type.\<close>

definition get_or :: "'v \<Rightarrow> ('k \<rightharpoonup> 'v) \<Rightarrow> 'k \<Rightarrow> 'v" where
  "get_or d m k = (case m k of None \<Rightarrow> d | Some v \<Rightarrow> v)"

lemma get_or_upd [simp]: "get_or d (m(k \<mapsto> v)) k' = (if k' = k then v else get_or d m k')"
  by (simp add: get_or_def)

lemma get_or_del [simp]: "get_or d (m(k := None)) k' = (if k' = k then d else get_or d m k')"
  by (simp add: get_or_def)

lemma get_or_empty [simp]: "get_or d Map.empty k = d"
  by (simp add: get_or_def)

lemma get_or_Some [simp]: "m k = Some v \<Longrightarrow> get_or d m k = v"
  by (simp add: get_or_def)

lemma get_or_None [simp]: "m k = None \<Longrightarrow> get_or d m k = d"
  by (simp add: get_or_def)

text \<open>The contract of a keyed table, shared by the caches and the buckets of the program.\<close>

locale kv_table =
  fixes get :: "'s \<Rightarrow> 'k \<Rightarrow> 'v option"
    and put :: "'s \<Rightarrow> 'k \<Rightarrow> 'v \<Rightarrow> 's"
  assumes get_put: "get (put s k v) k' = (if k' = k then Some v else get s k')"
begin

text \<open>After a sequence of writes a key holds its last value, or what it held before.\<close>

lemma get_puts:
  "get (foldl (\<lambda>s (k, v). put s k v) s kvs) k =
     (case map_of (rev kvs) k of Some v \<Rightarrow> Some v | None \<Rightarrow> get s k)"
proof (induction kvs rule: rev_induct)
  case (snoc kv kvs)
  then show ?case by (cases kv) (simp add: get_put)
qed simp

end

text \<open>
  The contract of a message format: a value that is \<open>ok\<close> is read back from its text, up to
  what the format does not distinguish (\<open>normal\<close>).
\<close>

locale codec =
  fixes encode :: "'a \<Rightarrow> 'b"
    and decode :: "'b \<Rightarrow> 'a option"
    and ok :: "'a \<Rightarrow> bool"
    and normal :: "'a \<Rightarrow> 'a"
  assumes decode_encode: "ok x \<Longrightarrow> decode (encode x) = Some (normal x)"
begin

lemma encode_distinguishes: "ok x \<Longrightarrow> ok y \<Longrightarrow> encode x = encode y \<Longrightarrow> normal x = normal y"
  by (metis decode_encode option.inject)

text \<open>A receiver that skips what does not decode acts on every message that was sent, in order.\<close>

lemma fold_encoded:
  assumes "\<And>m s. receive m s = (case decode m of None \<Rightarrow> s | Some x \<Rightarrow> act x s)" "list_all ok xs"
  shows "fold receive (map encode xs) s = fold (act \<circ> normal) xs s"
  using assms(2) by (induction xs arbitrary: s) (simp_all add: assms(1) decode_encode)

end

subsection \<open>Lists\<close>

definition list_swap :: "'a list \<Rightarrow> nat \<Rightarrow> nat \<Rightarrow> 'a list" where
  "list_swap xs i j = xs[i := xs ! j, j := xs ! i]"

lemma length_list_swap [simp]: "length (list_swap xs i j) = length xs"
  by (simp add: list_swap_def)

lemma nth_list_swap:
  "i < length xs \<Longrightarrow> j < length xs \<Longrightarrow> k < length xs \<Longrightarrow>
     list_swap xs i j ! k = (if k = i then xs ! j else if k = j then xs ! i else xs ! k)"
  by (auto simp: list_swap_def nth_list_update)

lemma mset_list_swap [simp]:
  "i < length xs \<Longrightarrow> j < length xs \<Longrightarrow> mset (list_swap xs i j) = mset xs"
  by (simp add: list_swap_def mset_swap)

lemma map_list_swap: "i < length xs \<Longrightarrow> j < length xs \<Longrightarrow>
    map f (list_swap xs i j) = list_swap (map f xs) i j"
  by (simp add: list_swap_def map_update)

lemma set_list_swap [simp]:
  "i < length xs \<Longrightarrow> j < length xs \<Longrightarrow> set (list_swap xs i j) = set xs"
  by (metis mset_list_swap set_mset_mset)

lemma distinct_list_swap [simp]:
  "i < length xs \<Longrightarrow> j < length xs \<Longrightarrow> distinct (list_swap xs i j) = distinct xs"
  by (metis mset_list_swap mset_eq_imp_distinct_iff)

lemma mset_butlast: "xs \<noteq> [] \<Longrightarrow> mset xs = add_mset (last xs) (mset (butlast xs))"
  by (metis add_mset_add_single append_butlast_last_id mset.simps(1) mset.simps(2) mset_append)

lemma last_nth: "xs \<noteq> [] \<Longrightarrow> last xs = xs ! (length xs - 1)"
  by (rule last_conv_nth)

text \<open>The first element of a list that satisfies a test, with its position.\<close>

fun find_index :: "('a \<Rightarrow> bool) \<Rightarrow> 'a list \<Rightarrow> nat option" where
  "find_index P [] = None"
| "find_index P (x # xs) = (if P x then Some 0 else map_option Suc (find_index P xs))"

lemma find_index_Some:
  "find_index P xs = Some i \<Longrightarrow> i < length xs \<and> P (xs ! i) \<and> (\<forall>k<i. \<not> P (xs ! k))"
proof (induction xs arbitrary: i)
  case (Cons x xs)
  then show ?case by (auto split: if_splits simp: less_Suc_eq_0_disj)
qed simp

lemma find_index_None: "find_index P xs = None \<longleftrightarrow> (\<forall>x\<in>set xs. \<not> P x)"
  by (induction xs) auto

end
