(* ===== verification/Container_Heap.thy ===== *)
theory Container_Heap
  imports Tasch_Prelude
begin

text \<open>
  The binary heap of Go's package \<open>container/heap\<close>, which \<open>pkg/scheduler/queue.go\<close>
  instantiates. A value of \<open>heap.Interface\<close> is a record of its five methods over a
  state; \<open>up\<close>, \<open>down\<close>, \<open>Init\<close>, \<open>Push\<close>, \<open>Pop\<close> and \<open>Remove\<close> are translated for
  an arbitrary such record. The locale \<open>heap_methods\<close> states what an implementation of
  the interface has to promise (its state can be viewed as a list, its methods act on
  that list, \<open>Less\<close> is a strict weak order) and the correctness of every heap operation
  is proved once from these laws.
\<close>

record ('h, 'x) heap_Interface =
  Len :: "'h \<Rightarrow> nat"
  Less :: "'h \<Rightarrow> nat \<Rightarrow> nat \<Rightarrow> bool"
  Swap :: "'h \<Rightarrow> nat \<Rightarrow> nat \<Rightarrow> 'h"
  Push :: "'h \<Rightarrow> 'x \<Rightarrow> 'h"
  Pop :: "'h \<Rightarrow> 'h \<times> 'x"

subsection \<open>The operations of the package\<close>

text \<open>\<open>up(h, j)\<close>: \<open>(j - 1) / 2\<close> is \<open>0\<close> at \<open>j = 0\<close>, in Go as in the naturals.\<close>

function heap_up :: "('h, 'x) heap_Interface \<Rightarrow> 'h \<Rightarrow> nat \<Rightarrow> 'h" where
  "heap_up I h j =
     (let i = (j - 1) div 2
      in if i = j \<or> \<not> Less I h j i then h else heap_up I (Swap I h i j) i)"
  by pat_completeness auto
termination
  by (relation "measure (\<lambda>(I, h, j). j)") auto

text \<open>The loop of \<open>down(h, i0, n)\<close> gives the final state and the final position.\<close>

function heap_down_loop :: "('h, 'x) heap_Interface \<Rightarrow> 'h \<Rightarrow> nat \<Rightarrow> nat \<Rightarrow> 'h \<times> nat" where
  "heap_down_loop I h i n =
     (let j1 = 2 * i + 1
      in if n \<le> j1 then (h, i)
         else let j = (if j1 + 1 < n \<and> Less I h (j1 + 1) j1 then j1 + 1 else j1)
              in if \<not> Less I h j i then (h, i)
                 else heap_down_loop I (Swap I h i j) j n)"
  by pat_completeness auto
termination
  by (relation "measure (\<lambda>(I, h, i, n). n - i)") (auto simp: Let_def)

declare heap_up.simps [simp del] heap_down_loop.simps [simp del]

definition heap_down :: "('h, 'x) heap_Interface \<Rightarrow> 'h \<Rightarrow> nat \<Rightarrow> nat \<Rightarrow> 'h \<times> bool" where
  "heap_down I h i0 n = (let (h', i) = heap_down_loop I h i0 n in (h', i0 < i))"

fun heap_init_loop :: "('h, 'x) heap_Interface \<Rightarrow> 'h \<Rightarrow> nat \<Rightarrow> nat \<Rightarrow> 'h" where
  "heap_init_loop I h 0 n = h"
| "heap_init_loop I h (Suc i) n = heap_init_loop I (fst (heap_down I h i n)) i n"

definition heap_Init :: "('h, 'x) heap_Interface \<Rightarrow> 'h \<Rightarrow> 'h" where
  "heap_Init I h = (let n = Len I h in heap_init_loop I h (n div 2) n)"

definition heap_Push :: "('h, 'x) heap_Interface \<Rightarrow> 'h \<Rightarrow> 'x \<Rightarrow> 'h" where
  "heap_Push I h x = (let h' = Push I h x in heap_up I h' (Len I h' - 1))"

definition heap_Pop :: "('h, 'x) heap_Interface \<Rightarrow> 'h \<Rightarrow> 'h \<times> 'x" where
  "heap_Pop I h =
     (let n = Len I h - 1;
          h1 = Swap I h 0 n;
          (h2, _) = heap_down I h1 0 n
      in Pop I h2)"

definition heap_Remove :: "('h, 'x) heap_Interface \<Rightarrow> 'h \<Rightarrow> nat \<Rightarrow> 'h \<times> 'x" where
  "heap_Remove I h i =
     (let n = Len I h - 1
      in if n \<noteq> i
         then let h1 = Swap I h i n;
                  (h2, moved) = heap_down I h1 i n
              in Pop I (if moved then h2 else heap_up I h2 i)
         else Pop I h)"

subsection \<open>The heap property on lists\<close>

definition parent :: "nat \<Rightarrow> nat" where
  "parent i = (i - 1) div 2"

text \<open>The node at \<open>i\<close> is not before its parent.\<close>

definition node_ok :: "('a \<Rightarrow> 'a \<Rightarrow> bool) \<Rightarrow> 'a list \<Rightarrow> nat \<Rightarrow> bool" where
  "node_ok lt xs i \<longleftrightarrow> (0 < i \<longrightarrow> \<not> lt (xs ! i) (xs ! parent i))"

definition is_heap :: "('a \<Rightarrow> 'a \<Rightarrow> bool) \<Rightarrow> 'a list \<Rightarrow> nat \<Rightarrow> bool" where
  "is_heap lt xs n \<longleftrightarrow> (\<forall>i<n. node_ok lt xs i)"

text \<open>
  A heap with one defect at \<open>k\<close>: every node not adjacent to \<open>k\<close> is in order, and the
  children of \<open>k\<close> are in order with the parent of \<open>k\<close>.
\<close>

definition heap_but :: "('a \<Rightarrow> 'a \<Rightarrow> bool) \<Rightarrow> 'a list \<Rightarrow> nat \<Rightarrow> nat \<Rightarrow> bool" where
  "heap_but lt xs k n \<longleftrightarrow>
     (\<forall>i<n. i \<noteq> k \<and> parent i \<noteq> k \<longrightarrow> node_ok lt xs i) \<and>
     (\<forall>i<n. 0 < i \<and> parent i = k \<and> 0 < k \<longrightarrow> \<not> lt (xs ! i) (xs ! parent k))"

lemma parent_less [simp]: "0 < i \<Longrightarrow> parent i < i"
  by (auto simp: parent_def)

lemma parent_0 [simp]: "parent 0 = 0"
  by (simp add: parent_def)

lemma parent_eq_self [simp]: "parent i = i \<longleftrightarrow> i = 0"
  by (auto simp: parent_def)

lemma parent_eq_iff: "0 < i \<Longrightarrow> parent i = k \<longleftrightarrow> i = 2 * k + 1 \<or> i = 2 * k + 2"
  by (auto simp: parent_def)

lemma parent_child [simp]: "parent (2 * k + 1) = k" "parent (Suc (2 * k)) = k"
    "parent (2 * k + 2) = k" "parent (Suc (Suc (2 * k))) = k"
  by (auto simp: parent_def)

lemma is_heap_cong:
  "length xs = length ys \<Longrightarrow> (\<And>i. i < n \<Longrightarrow> xs ! i = ys ! i) \<Longrightarrow> is_heap lt xs n = is_heap lt ys n"
  by (auto simp: is_heap_def node_ok_def) (metis order_less_trans parent_less)+


definition heap_ok :: "('a \<Rightarrow> 'a \<Rightarrow> bool) \<Rightarrow> 'a list \<Rightarrow> bool" where
  "heap_ok lt xs \<longleftrightarrow> is_heap lt xs (length xs)"

definition kids_ok :: "('a \<Rightarrow> 'a \<Rightarrow> bool) \<Rightarrow> 'a list \<Rightarrow> nat \<Rightarrow> nat \<Rightarrow> bool" where
  "kids_ok lt xs k n \<longleftrightarrow> (\<forall>i<n. 0 < i \<and> parent i = k \<longrightarrow> node_ok lt xs i)"

lemma heap_but_closed: "heap_but lt xs k n \<Longrightarrow> node_ok lt xs k \<Longrightarrow> kids_ok lt xs k n \<Longrightarrow> is_heap lt xs n"
  by (auto simp: heap_but_def kids_ok_def is_heap_def) (metis gr0I node_ok_def)

lemma is_heap_but: "is_heap lt xs n \<Longrightarrow>
    (\<And>a b c. \<not> lt b a \<Longrightarrow> \<not> lt c b \<Longrightarrow> \<not> lt c a) \<Longrightarrow> heap_but lt xs k n"
  unfolding heap_but_def is_heap_def node_ok_def
  by (metis order_less_trans parent_less)

text \<open>Only the defective place of \<open>heap_but\<close> may differ.\<close>

lemma heap_but_update:
  assumes "heap_but lt xs k n" "length ys = length xs" "\<And>i. i < n \<Longrightarrow> i \<noteq> k \<Longrightarrow> ys ! i = xs ! i"
  shows "heap_but lt ys k n"
  using assms unfolding heap_but_def node_ok_def
  by (smt (verit) order_less_trans parent_less less_irrefl)

text \<open>A rearrangement of the first \<open>n\<close> elements that leaves the others in place.\<close>

definition shuffled :: "nat \<Rightarrow> 'a list \<Rightarrow> 'a list \<Rightarrow> bool" where
  "shuffled n xs ys \<longleftrightarrow>
     length ys = length xs \<and> mset ys = mset xs \<and> (\<forall>i. n \<le> i \<and> i < length xs \<longrightarrow> ys ! i = xs ! i)"

lemma shuffled_refl [simp]: "shuffled n xs xs"
  by (simp add: shuffled_def)

lemma shuffled_trans [trans]: "shuffled n xs ys \<Longrightarrow> shuffled n ys zs \<Longrightarrow> shuffled n xs zs"
  by (simp add: shuffled_def)

lemma shuffled_swap: "i < n \<Longrightarrow> j < n \<Longrightarrow> n \<le> length xs \<Longrightarrow> shuffled n xs (list_swap xs i j)"
  by (auto simp: shuffled_def nth_list_swap)

lemma shuffled_length: "shuffled n xs ys \<Longrightarrow> length ys = length xs"
  by (simp add: shuffled_def)

subsection \<open>What an implementation of the interface promises\<close>

locale heap_methods =
  fixes I :: "('h, 'x) heap_Interface"
    and view :: "'h \<Rightarrow> 'a list"
    and lt :: "'a \<Rightarrow> 'a \<Rightarrow> bool"
    and mk :: "'h \<Rightarrow> 'x \<Rightarrow> 'a"
    and item :: "'a \<Rightarrow> 'x"
  assumes Len_view: "Len I h = length (view h)"
    and Less_view: "i < length (view h) \<Longrightarrow> j < length (view h) \<Longrightarrow>
        Less I h i j = lt (view h ! i) (view h ! j)"
    and Swap_view: "i < length (view h) \<Longrightarrow> j < length (view h) \<Longrightarrow>
        view (Swap I h i j) = list_swap (view h) i j"
    and Push_view: "view (Push I h x) = view h @ [mk h x]"
    and Pop_view: "view h \<noteq> [] \<Longrightarrow> view (fst (Pop I h)) = butlast (view h)"
    and Pop_item: "view h \<noteq> [] \<Longrightarrow> snd (Pop I h) = item (last (view h))"
    and lt_asym: "lt a b \<Longrightarrow> \<not> lt b a"
    and nlt_trans: "\<not> lt b a \<Longrightarrow> \<not> lt c b \<Longrightarrow> \<not> lt c a"
begin

text \<open>The order read as "not after": reflexive and transitive.\<close>

lemma lt_irrefl: "\<not> lt a a"
  using lt_asym by blast

text \<open>Moving the defect up by one exchange with the parent.\<close>

lemma up_step:
  assumes b: "heap_but lt xs j n" and kids: "kids_ok lt xs j n"
    and j: "0 < j" "j < n" "n \<le> length xs" and less: "lt (xs ! j) (xs ! parent j)"
  shows "heap_but lt (list_swap xs (parent j) j) (parent j) n"
    and "kids_ok lt (list_swap xs (parent j) j) (parent j) n"
proof -
  let ?p = "parent j" and ?ys = "list_swap xs (parent j) j"
  have p: "?p < j" using j by simp
  have nth: "?ys ! k = (if k = ?p then xs ! j else if k = j then xs ! ?p else xs ! k)"
    if "k < n" for k
    using that j p by (simp add: nth_list_swap)
  have ok: "node_ok lt xs i" if "i < n" "i \<noteq> j" for i
    using b kids that by (cases "i = 0") (auto simp: heap_but_def kids_ok_def node_ok_def)
  have gp: "\<not> lt (xs ! i) (xs ! ?p)" if "i < n" "0 < i" "parent i = j" for i
    using b that j by (auto simp: heap_but_def)
  have pl: "parent i < n" if "i < n" for i
    using that by (cases "i = 0") (auto intro: order_less_trans [OF parent_less])
  have kid: "\<not> lt (?ys ! i) (xs ! j)" and kid2: "\<not> lt (?ys ! i) (xs ! ?p)"
    if "i < n" "0 < i" "parent i = ?p" for i
  proof -
    have *: "\<not> lt (?ys ! i) (xs ! ?p)"
      using that ok [of i] p by (auto simp: nth node_ok_def lt_irrefl)
    then show "\<not> lt (?ys ! i) (xs ! ?p)" .
    show "\<not> lt (?ys ! i) (xs ! j)"
      using nlt_trans [OF lt_asym [OF less] *] .
  qed
  show "kids_ok lt ?ys ?p n"
    unfolding kids_ok_def node_ok_def
  proof (intro allI impI)
    fix i assume "i < n" "0 < i \<and> parent i = ?p" "0 < i"
    then show "\<not> lt (?ys ! i) (?ys ! parent i)"
      using kid [of i] pl [of j] j nth [of ?p] by simp
  qed
  show "heap_but lt ?ys ?p n"
    unfolding heap_but_def
  proof (intro conjI allI impI)
    fix i assume i: "i < n" "i \<noteq> ?p \<and> parent i \<noteq> ?p"
    then have ij: "i \<noteq> j" by auto
    show "node_ok lt ?ys i"
      using i ij ok [of i] gp [of i] pl [of i] by (auto simp: nth node_ok_def)
  next
    fix i assume i: "i < n" "0 < i \<and> parent i = ?p \<and> 0 < ?p"
    then have "parent ?p < ?p" by simp
    then have "parent ?p < n \<and> parent ?p \<noteq> ?p \<and> parent ?p \<noteq> j"
      using p j by linarith
    then have "?ys ! parent ?p = xs ! parent ?p"
      by (simp add: nth)
    moreover have "\<not> lt (xs ! ?p) (xs ! parent ?p)"
      using ok [of ?p] i p j by (auto simp: node_ok_def)
    ultimately show "\<not> lt (?ys ! i) (?ys ! parent ?p)"
      using kid2 [of i] i nlt_trans by metis
  qed
qed

lemma heap_up_correct:
  assumes "j < n" "n \<le> length (view h)" "heap_but lt (view h) j n" "kids_ok lt (view h) j n"
  shows "is_heap lt (view (heap_up I h j)) n \<and> shuffled n (view h) (view (heap_up I h j))"
  using assms
proof (induction j arbitrary: h rule: less_induct)
  case (less j)
  let ?p = "parent j"
  have unfold: "heap_up I h j = (if ?p = j \<or> \<not> Less I h j ?p then h else heap_up I (Swap I h ?p j) ?p)"
    by (subst heap_up.simps) (simp add: parent_def Let_def)
  have pl: "?p \<le> j" by (cases "j = 0") (auto simp: less_imp_le)
  show ?case
  proof (cases "?p = j \<or> \<not> Less I h j ?p")
    case True
    then have "node_ok lt (view h) j"
      using less.prems pl Less_view [of j h ?p] by (auto simp: node_ok_def)
    then show ?thesis
      using True less.prems heap_but_closed by (auto simp: unfold)
  next
    case False
    then have j: "0 < j" and p: "?p < j" using pl by (auto simp: parent_def)
    then have lt: "lt (view h ! j) (view h ! ?p)"
      using False less.prems Less_view [of j h ?p] by simp
    have vs: "view (Swap I h ?p j) = list_swap (view h) ?p j"
      using less.prems p by (intro Swap_view) auto
    have "is_heap lt (view (heap_up I (Swap I h ?p j) ?p)) n \<and>
        shuffled n (view (Swap I h ?p j)) (view (heap_up I (Swap I h ?p j) ?p))"
      using less.prems p up_step [OF less.prems(3,4) j less.prems(1,2) lt]
      by (intro less.IH) (auto simp: vs)
    moreover have "shuffled n (view h) (view (Swap I h ?p j))"
      using less.prems p by (simp add: vs shuffled_swap)
    ultimately show ?thesis
      using False shuffled_trans by (auto simp: unfold)
  qed
qed

text \<open>Moving the defect down by one exchange with the first of its children.\<close>

lemma down_step:
  assumes b: "heap_but lt xs k n" and c: "0 < c" "parent c = k" "c < n" "n \<le> length xs"
    and less: "lt (xs ! c) (xs ! k)"
    and first: "\<And>i. i < n \<Longrightarrow> 0 < i \<Longrightarrow> parent i = k \<Longrightarrow> \<not> lt (xs ! i) (xs ! c)"
  shows "heap_but lt (list_swap xs k c) c n" and "node_ok lt (list_swap xs k c) c"
proof -
  let ?ys = "list_swap xs k c"
  have k: "k < c" using c parent_less by blast
  have nth: "?ys ! i = (if i = k then xs ! c else if i = c then xs ! k else xs ! i)"
    if "i < n" for i
    using that c k by (simp add: nth_list_swap)
  have pl: "parent i < n" if "i < n" for i
    using that by (cases "i = 0") (auto intro: order_less_trans [OF parent_less])
  have ok: "node_ok lt xs i" if "i < n" "i \<noteq> k" "parent i \<noteq> k" for i
    using b that by (auto simp: heap_but_def)
  show "node_ok lt ?ys c"
    using c k less by (auto simp: node_ok_def nth dest: lt_asym)
  show "heap_but lt ?ys c n"
    unfolding heap_but_def
  proof (intro conjI allI impI)
    fix i assume i: "i < n" "i \<noteq> c \<and> parent i \<noteq> c"
    show "node_ok lt ?ys i"
    proof (cases "i = k")
      case True
      then have "0 < k \<Longrightarrow> \<not> lt (xs ! c) (xs ! parent k)"
        using b c by (auto simp: heap_but_def)
      then show ?thesis
        using True i pl [of i] by (auto simp: node_ok_def nth)
    next
      case False
      then show ?thesis
        using i ok [of i] first [of i] pl [of i] by (cases "parent i = k") (auto simp: node_ok_def nth)
    qed
  next
    fix i assume i: "i < n" "0 < i \<and> parent i = c \<and> 0 < c"
    then have "i \<noteq> k" "i \<noteq> c" using k by (auto dest: parent_less)
    then show "\<not> lt (?ys ! i) (?ys ! parent c)"
      using i c k ok [of i] by (auto simp: nth node_ok_def)
  qed
qed

lemma heap_down_loop_unfold:
  "heap_down_loop I h i n =
     (if n \<le> 2 * i + 1 then (h, i)
      else let c = (if 2 * i + 2 < n \<and> Less I h (2 * i + 2) (2 * i + 1) then 2 * i + 2 else 2 * i + 1)
           in if \<not> Less I h c i then (h, i) else heap_down_loop I (Swap I h i c) c n)"
  by (subst heap_down_loop.simps) (simp add: Let_def)

text \<open>The child that \<open>down\<close> compares with: one no other child is before.\<close>

lemma first_child:
  assumes "n \<le> length (view h)" "2 * k + 1 < n"
    and c: "c = (if 2 * k + 2 < n \<and> Less I h (2 * k + 2) (2 * k + 1) then 2 * k + 2 else 2 * k + 1)"
  shows "0 < c \<and> c < n \<and> parent c = k \<and> k < c"
    and "i < n \<Longrightarrow> 0 < i \<Longrightarrow> parent i = k \<Longrightarrow> \<not> lt (view h ! i) (view h ! c)"
proof -
  show "0 < c \<and> c < n \<and> parent c = k \<and> k < c"
    using assms by auto
  show "\<not> lt (view h ! i) (view h ! c)" if "i < n" "0 < i" "parent i = k"
    using that assms Less_view [of "2 * k + 2" h "2 * k + 1"] lt_irrefl lt_asym
    by (auto simp: parent_eq_iff split: if_splits)
qed

lemma heap_down_loop_correct:
  assumes "n \<le> length (view h)" "k < n" "heap_but lt (view h) k n" "heap_down_loop I h k n = (h', k')"
  shows "shuffled n (view h) (view h') \<and> k \<le> k' \<and>
         (if k' = k then h' = h \<and> kids_ok lt (view h) k n else is_heap lt (view h') n)"
  using assms
proof (induction "n - k" arbitrary: h k rule: less_induct)
  case less
  note prems = less.prems
  define c where "c = (if 2 * k + 2 < n \<and> Less I h (2 * k + 2) (2 * k + 1) then 2 * k + 2 else 2 * k + 1)"
  have unfold: "heap_down_loop I h k n =
     (if n \<le> 2 * k + 1 \<or> \<not> Less I h c k then (h, k) else heap_down_loop I (Swap I h k c) c n)"
    by (subst heap_down_loop_unfold) (auto simp: c_def Let_def)
  show ?case
  proof (cases "n \<le> 2 * k + 1 \<or> \<not> Less I h c k")
    case True
    have "kids_ok lt (view h) k n"
    proof (cases "n \<le> 2 * k + 1")
      case False
      note fc = first_child [OF prems(1) _ c_def]
      have "\<not> lt (view h ! c) (view h ! k)"
        using True False fc(1) prems(1,2) Less_view [of c h k] by auto
      then show ?thesis
        using fc(2) False nlt_trans unfolding kids_ok_def node_ok_def
        by (metis linorder_not_less)
    qed (auto simp: kids_ok_def parent_def)
    then show ?thesis using True prems by (auto simp: unfold)
  next
    case False
    then have c: "0 < c" "parent c = k" "c < n" "k < c"
      using first_child(1) [OF prems(1) _ c_def] by auto
    have lt: "lt (view h ! c) (view h ! k)"
      using False c prems(1,2) Less_view [of c h k] by auto
    have vs: "view (Swap I h k c) = list_swap (view h) k c"
      using c prems(1) by (intro Swap_view) auto
    have n2: "2 * k + 1 < n" using False by simp
    have step: "heap_but lt (view (Swap I h k c)) c n" "node_ok lt (view (Swap I h k c)) c"
      unfolding vs
      using down_step [OF prems(3) c(1-3) prems(1) lt] first_child(2) [OF prems(1) n2 c_def]
      by blast+
    have d: "heap_down_loop I (Swap I h k c) c n = (h', k')"
      using prems(4) False by (simp add: unfold)
    have "n - c < n - k" "n \<le> length (view (Swap I h k c))"
      using c prems(1) by (auto simp: vs)
    then have "shuffled n (view (Swap I h k c)) (view h') \<and> c \<le> k' \<and>
         (if k' = c then h' = Swap I h k c \<and> kids_ok lt (view (Swap I h k c)) c n else is_heap lt (view h') n)"
      using less.hyps [OF _ _ c(3) step(1) d] by blast
    moreover have "kids_ok lt (view (Swap I h k c)) c n \<Longrightarrow> is_heap lt (view (Swap I h k c)) n"
      using heap_but_closed [OF step] .
    moreover have "shuffled n (view h) (view (Swap I h k c))"
      using c prems(1) by (simp add: vs shuffled_swap)
    ultimately show ?thesis
      using c shuffled_trans by (auto split: if_splits)
  qed
qed

lemma heap_min:
  assumes "heap_ok lt xs" "i < length xs"
  shows "\<not> lt (xs ! i) (xs ! 0)"
  using assms(2)
proof (induction i rule: less_induct)
  case (less i)
  show ?case
  proof (cases "i = 0")
    case False
    then have "\<not> lt (xs ! parent i) (xs ! 0)" "\<not> lt (xs ! i) (xs ! parent i)"
      using less assms(1) parent_less [of i]
      by (auto simp: heap_ok_def is_heap_def node_ok_def intro: less.IH order_less_trans)
    then show ?thesis by (rule nlt_trans)
  qed (simp add: lt_irrefl)
qed

lemma heap_Push_correct:
  assumes "heap_ok lt (view h)"
  shows "heap_ok lt (view (heap_Push I h x)) \<and>
         mset (view (heap_Push I h x)) = add_mset (mk h x) (mset (view h))"
proof -
  let ?h = "Push I h x" and ?m = "length (view h)"
  have v: "view ?h = view h @ [mk h x]" by (rule Push_view)
  have par: "i < Suc ?m \<Longrightarrow> 0 < i \<Longrightarrow> parent i < ?m \<and> parent i \<noteq> ?m" for i
    using parent_less [of i] by linarith
  have but: "heap_but lt (view ?h) ?m (Suc ?m)" and kids: "kids_ok lt (view ?h) ?m (Suc ?m)"
    using assms par
    by (auto simp: heap_but_def kids_ok_def heap_ok_def is_heap_def node_ok_def v nth_append)
  have "is_heap lt (view (heap_up I ?h ?m)) (Suc ?m) \<and> shuffled (Suc ?m) (view ?h) (view (heap_up I ?h ?m))"
    using but kids by (intro heap_up_correct) (auto simp: v)
  then show ?thesis
    by (auto simp: heap_Push_def Len_view v Let_def heap_ok_def shuffled_def)
qed

text \<open>What every removal ends with: the element to return is at the end, before it a heap.\<close>

lemma pop_end:
  assumes "is_heap lt (view h') n" "shuffled n (list_swap xs i n) (view h')" "length xs = Suc n" "i \<le> n"
  shows "snd (Pop I h') = item (xs ! i) \<and> heap_ok lt (view (fst (Pop I h'))) \<and>
         mset xs = add_mset (xs ! i) (mset (view (fst (Pop I h'))))"
proof -
  have len: "length (view h') = Suc n" and ms: "mset (view h') = mset xs"
    and end_: "view h' ! n = xs ! i"
    using assms by (auto simp: shuffled_def nth_list_swap)
  then have ne: "view h' \<noteq> []" by auto
  have last: "last (view h') = xs ! i"
    using end_ len ne by (simp add: last_nth)
  have "is_heap lt (butlast (view h')) n"
    using assms(1) len
    by (auto simp: is_heap_def node_ok_def nth_butlast)
      (metis diff_Suc_1 length_butlast less_imp_le_nat nth_butlast order_less_le_trans parent_less)
  then show ?thesis
    using ne last ms len mset_butlast [OF ne]
    by (simp add: Pop_view Pop_item heap_ok_def)
qed

lemma swap_last_but:
  assumes "heap_ok lt xs" "length xs = Suc n" "i < n"
  shows "heap_but lt (list_swap xs i n) i n"
proof -
  have "heap_but lt xs i n"
    using assms nlt_trans by (intro is_heap_but) (auto simp: heap_ok_def is_heap_def)
  then show ?thesis
    by (rule heap_but_update) (use assms in \<open>auto simp: nth_list_swap\<close>)
qed

lemma heap_Remove_correct:
  assumes heap: "heap_ok lt (view h)" and i: "i < length (view h)"
    and rm: "heap_Remove I h i = (h', x)"
  shows "x = item (view h ! i) \<and> heap_ok lt (view h') \<and>
         mset (view h) = add_mset (view h ! i) (mset (view h'))"
proof -
  obtain n where len: "length (view h) = Suc n" using i by (cases "length (view h)") auto
  show ?thesis
  proof (cases "i = n")
    case True
    have "is_heap lt (view h) n" using heap len by (simp add: heap_ok_def is_heap_def)
    moreover have "list_swap (view h) i n = view h" using True by (simp add: list_swap_def)
    ultimately show ?thesis
      using pop_end [of h n "view h" i] True rm len by (simp add: heap_Remove_def Len_view)
  next
    case False
    let ?h1 = "Swap I h i n"
    have i': "i < n" using False i len by simp
    have v1: "view ?h1 = list_swap (view h) i n" using i len by (intro Swap_view) auto
    obtain h2 k where d: "heap_down_loop I ?h1 i n = (h2, k)" by fastforce
    let ?h3 = "if i < k then h2 else heap_up I h2 i"
    note down = heap_down_loop_correct [OF _ i' _ d]
    have "shuffled n (view ?h1) (view h2) \<and> i \<le> k \<and>
         (if k = i then h2 = ?h1 \<and> kids_ok lt (view ?h1) i n else is_heap lt (view h2) n)"
      using heap len i' swap_last_but by (intro down) (auto simp: v1)
    moreover have "kids_ok lt (view ?h1) i n \<Longrightarrow>
        is_heap lt (view (heap_up I ?h1 i)) n \<and> shuffled n (view ?h1) (view (heap_up I ?h1 i))"
      using heap len i' swap_last_but by (intro heap_up_correct) (auto simp: v1)
    ultimately have "is_heap lt (view ?h3) n \<and> shuffled n (view ?h1) (view ?h3)"
      by (auto split: if_splits)
    moreover have "(h', x) = Pop I ?h3"
      using rm False len d by (auto simp: heap_Remove_def heap_down_def Len_view)
    ultimately show ?thesis
      using pop_end [of ?h3 n "view h" i] len i' by (auto simp: v1 split: prod.splits) (metis fst_conv snd_conv)+
  qed
qed

lemma heap_Pop_correct:
  assumes heap: "heap_ok lt (view h)" and ne: "view h \<noteq> []" and pop: "heap_Pop I h = (h', x)"
  shows "x = item (view h ! 0) \<and> heap_ok lt (view h') \<and>
         mset (view h) = add_mset (view h ! 0) (mset (view h'))"
proof -
  obtain n where len: "length (view h) = Suc n" using ne by (cases "length (view h)") auto
  let ?h1 = "Swap I h 0 n"
  have v1: "view ?h1 = list_swap (view h) 0 n" using len by (intro Swap_view) auto
  obtain h2 k where d: "heap_down_loop I ?h1 0 n = (h2, k)" by fastforce
  have "is_heap lt (view h2) n \<and> shuffled n (view ?h1) (view h2)"
  proof (cases "n = 0")
    case True
    then show ?thesis using d by (subst (asm) heap_down_loop.simps) (simp add: is_heap_def)
  next
    case False
    have but: "heap_but lt (view ?h1) 0 n"
      using swap_last_but [OF heap len, of 0] False by (simp add: v1)
    have "shuffled n (view ?h1) (view h2) \<and> 0 \<le> k \<and>
         (if k = 0 then h2 = ?h1 \<and> kids_ok lt (view ?h1) 0 n else is_heap lt (view h2) n)"
      using but d False len by (intro heap_down_loop_correct) (auto simp: v1)
    then show ?thesis
      using heap_but_closed [OF but] by (auto simp: node_ok_def split: if_splits)
  qed
  moreover have "(h', x) = Pop I h2"
    using pop len d by (auto simp: heap_Pop_def heap_down_def Len_view)
  ultimately show ?thesis
    using pop_end [of h2 n "view h" 0] len by (auto simp: v1 split: prod.splits) (metis fst_conv snd_conv)+
qed

text \<open>The element \<open>Pop\<close> returns is before, or level with, every other one.\<close>

lemma heap_Pop_min:
  "heap_ok lt (view h) \<Longrightarrow> y \<in> set (view h) \<Longrightarrow> \<not> lt y (view h ! 0)"
  using heap_min by (metis in_set_conv_nth)

text \<open>Whatever every exchange keeps, the loops keep.\<close>

lemma heap_up_keeps:
  assumes swap: "\<And>h i j. P h \<Longrightarrow> i < length (view h) \<Longrightarrow> j < length (view h) \<Longrightarrow> P (Swap I h i j)"
  shows "P h \<Longrightarrow> j < length (view h) \<Longrightarrow> P (heap_up I h j)"
proof (induction j arbitrary: h rule: less_induct)
  case (less j)
  have pl: "parent j \<le> j" by (cases "j = 0") (auto simp: less_imp_le)
  show ?case
  proof (cases "parent j = j \<or> \<not> Less I h j (parent j)")
    case True
    then show ?thesis
      using less.prems by (subst heap_up.simps) (auto simp: parent_def Let_def)
  next
    case False
    have "P (heap_up I (Swap I h (parent j) j) (parent j))"
      using False pl less.prems swap by (intro less.IH) (auto simp: Swap_view)
    then show ?thesis
      using False by (subst heap_up.simps) (auto simp: parent_def Let_def)
  qed
qed

lemma heap_down_loop_keeps:
  assumes swap: "\<And>h i j. P h \<Longrightarrow> i < length (view h) \<Longrightarrow> j < length (view h) \<Longrightarrow> P (Swap I h i j)"
  shows "P h \<Longrightarrow> i < length (view h) \<Longrightarrow> n \<le> length (view h) \<Longrightarrow> P (fst (heap_down_loop I h i n))"
proof (induction "n - i" arbitrary: h i rule: less_induct)
  case less
  define c where "c = (if 2 * i + 2 < n \<and> Less I h (2 * i + 2) (2 * i + 1) then 2 * i + 2 else 2 * i + 1)"
  have unfold: "heap_down_loop I h i n =
     (if n \<le> 2 * i + 1 \<or> \<not> Less I h c i then (h, i) else heap_down_loop I (Swap I h i c) c n)"
    by (subst heap_down_loop_unfold) (auto simp: c_def Let_def)
  show ?case
  proof (cases "n \<le> 2 * i + 1 \<or> \<not> Less I h c i")
    case False
    then have c: "c < n" "i < c" by (auto simp: c_def)
    have "P (fst (heap_down_loop I (Swap I h i c) c n))"
      using c less.prems swap by (intro less.hyps) (auto simp: Swap_view)
    then show ?thesis using False by (simp add: unfold)
  qed (use less.prems in \<open>simp add: unfold\<close>)
qed

lemma heap_Push_keeps:
  assumes "\<And>h i j. P h \<Longrightarrow> i < length (view h) \<Longrightarrow> j < length (view h) \<Longrightarrow> P (Swap I h i j)"
    and "P (Push I h x)"
  shows "P (heap_Push I h x)"
  unfolding heap_Push_def Let_def
  by (rule heap_up_keeps [of P]) (use assms in \<open>auto simp: Len_view Push_view\<close>)

lemma heap_Remove_keeps:
  assumes swap: "\<And>h i j. P h \<Longrightarrow> i < length (view h) \<Longrightarrow> j < length (view h) \<Longrightarrow> P (Swap I h i j)"
    and h: "P h" and i: "i < length (view h)"
  shows "\<exists>h0. P h0 \<and> length (view h0) = length (view h) \<and> heap_Remove I h i = Pop I h0"
proof -
  let ?Q = "\<lambda>g. P g \<and> length (view g) = length (view h)" and ?n = "length (view h) - 1"
  have sw: "?Q g \<Longrightarrow> a < length (view g) \<Longrightarrow> b < length (view g) \<Longrightarrow> ?Q (Swap I g a b)" for g a b
    using swap by (simp add: Swap_view)
  have h1: "?Q (Swap I h i ?n)" using sw h i by simp
  obtain h2 k where d: "heap_down_loop I (Swap I h i ?n) i ?n = (h2, k)" by fastforce
  have "?Q (fst (heap_down_loop I (Swap I h i ?n) i ?n))"
    by (rule heap_down_loop_keeps [of ?Q]) (use sw h1 i in simp_all)
  then have h2: "?Q h2" using d by simp
  have h3: "?Q (heap_up I h2 i)"
    by (rule heap_up_keeps [of ?Q]) (use sw h2 i in simp_all)
  show ?thesis
    using h h2 h3 d by (auto simp: heap_Remove_def heap_down_def Len_view Let_def)
qed

lemma heap_Pop_keeps:
  assumes swap: "\<And>h i j. P h \<Longrightarrow> i < length (view h) \<Longrightarrow> j < length (view h) \<Longrightarrow> P (Swap I h i j)"
    and h: "P h" and ne: "view h \<noteq> []"
  shows "\<exists>h0. P h0 \<and> length (view h0) = length (view h) \<and> heap_Pop I h = Pop I h0"
proof -
  let ?Q = "\<lambda>g. P g \<and> length (view g) = length (view h)" and ?n = "length (view h) - 1"
  have sw: "?Q g \<Longrightarrow> a < length (view g) \<Longrightarrow> b < length (view g) \<Longrightarrow> ?Q (Swap I g a b)" for g a b
    using swap by (simp add: Swap_view)
  have h1: "?Q (Swap I h 0 ?n)" using sw h ne by simp
  obtain h2 k where d: "heap_down_loop I (Swap I h 0 ?n) 0 ?n = (h2, k)" by fastforce
  have "?Q (fst (heap_down_loop I (Swap I h 0 ?n) 0 ?n))"
    by (rule heap_down_loop_keeps [of ?Q]) (use sw h1 ne in simp_all)
  then have "?Q h2" using d by simp
  then show ?thesis
    using d by (auto simp: heap_Pop_def heap_down_def Len_view Let_def)
qed

end

end
