(* ===== verification/Job_Queue.thy ===== *)
theory Job_Queue
  imports Container_Heap
begin

text \<open>
  The data model of \<open>pkg/scheduler/queue.go\<close> (\<open>Job\<close>, \<open>JobGroup\<close>, the job states) and
  \<open>JobQueue\<close>, its implementation of \<open>heap.Interface\<close>.

  Go holds jobs by pointer: the same \<open>Job\<close> object is reached through the queue and
  through the scheduler's table of jobs, and the queue's methods write the object's
  \<open>index\<close> field. A pointer is a natural number and \<open>mem\<close> gives the object it points to.
  A nil map is \<open>None\<close>.
\<close>

subsection \<open>Job states\<close>

definition StateQueued :: string where "StateQueued = ''QUEUED''"
definition StateRunning :: string where "StateRunning = ''RUNNING''"
definition StateCompleted :: string where "StateCompleted = ''COMPLETED''"
definition StateFailed :: string where "StateFailed = ''FAILED''"
definition StateCancelled :: string where "StateCancelled = ''CANCELLED''"

lemmas state_defs [tasch_consts] =
  StateQueued_def StateRunning_def StateCompleted_def StateFailed_def StateCancelled_def

lemma states_distinct [simp]:
  "StateQueued \<noteq> StateRunning" "StateRunning \<noteq> StateQueued"
  "StateQueued \<noteq> StateCompleted" "StateCompleted \<noteq> StateQueued"
  "StateQueued \<noteq> StateFailed" "StateFailed \<noteq> StateQueued"
  "StateQueued \<noteq> StateCancelled" "StateCancelled \<noteq> StateQueued"
  "StateRunning \<noteq> StateCompleted" "StateCompleted \<noteq> StateRunning"
  "StateRunning \<noteq> StateFailed" "StateFailed \<noteq> StateRunning"
  "StateRunning \<noteq> StateCancelled" "StateCancelled \<noteq> StateRunning"
  "StateCompleted \<noteq> StateFailed" "StateFailed \<noteq> StateCompleted"
  "StateCompleted \<noteq> StateCancelled" "StateCancelled \<noteq> StateCompleted"
  "StateFailed \<noteq> StateCancelled" "StateCancelled \<noteq> StateFailed"
  by (simp_all add: tasch_consts)

subsection \<open>Jobs and groups\<close>

record Job =
  ID :: string
  Requirement :: string
  Command :: string
  SubmitTime :: Time
  Priority :: int
  User :: string
  WalltimeSeconds :: int
  GPUsRequired :: int
  CPUsRequired :: int
  MemoryRequiredMB :: int
  EnvVars :: "(string \<rightharpoonup> string) option"
  MaxRetries :: int
  RetryCount :: int
  GroupID :: string
  State :: string
  WorkerNode :: string
  StartTime :: Time
  EndTime :: Time
  Output :: string
  Error :: string
  index :: int

record JobGroup =
  gGroupID :: string
  gJobIDs :: "string list"
  gNumNodes :: int
  gGPUsPerNode :: int
  gMasterPort :: int
  gState :: string
  gCreatedAt :: Time

text \<open>The zero value of the struct, to which a composite literal adds its fields.\<close>

definition zero_job :: Job where
  "zero_job = \<lparr>ID = [], Requirement = [], Command = [], SubmitTime = zero_time, Priority = 0,
     User = [], WalltimeSeconds = 0, GPUsRequired = 0, CPUsRequired = 0, MemoryRequiredMB = 0,
     EnvVars = None, MaxRetries = 0, RetryCount = 0, GroupID = [], State = [], WorkerNode = [],
     StartTime = zero_time, EndTime = zero_time, Output = [], Error = [], index = 0\<rparr>"

text \<open>\<open>Copy\<close>: the copy has its own environment map, with the same entries.\<close>

definition Job_Copy :: "Job option \<Rightarrow> Job option" where
  "Job_Copy jo =
     (case jo of None \<Rightarrow> None
      | Some j \<Rightarrow> Some (j\<lparr>EnvVars := (case EnvVars j of None \<Rightarrow> None
          | Some m \<Rightarrow> Some (\<lambda>k. case m k of None \<Rightarrow> None | Some v \<Rightarrow> Some v))\<rparr>))"

definition JobGroup_Copy :: "JobGroup option \<Rightarrow> JobGroup option" where
  "JobGroup_Copy go =
     (case go of None \<Rightarrow> None | Some g \<Rightarrow> Some (g\<lparr>gJobIDs := map (\<lambda>x. x) (gJobIDs g)\<rparr>))"

lemma Job_Copy_id [simp]: "Job_Copy jo = jo"
proof -
  have "(\<lambda>k. case m k of None \<Rightarrow> None | Some v \<Rightarrow> Some v) = m" for m :: "string \<rightharpoonup> string"
    by (rule ext) (simp split: option.split)
  then show ?thesis by (auto simp: Job_Copy_def split: option.splits)
qed

lemma JobGroup_Copy_id [simp]: "JobGroup_Copy go = go"
  by (simp add: JobGroup_Copy_def split: option.split)

subsection \<open>The queue as an implementation of \<open>heap.Interface\<close>\<close>

record JobQueue =
  mem :: "nat \<Rightarrow> Job"
  queue :: "nat list"

definition set_index :: "'a JobQueue_scheme \<Rightarrow> nat \<Rightarrow> int \<Rightarrow> 'a JobQueue_scheme" where
  "set_index h p i = h\<lparr>mem := (mem h)(p := (mem h p)\<lparr>index := i\<rparr>)\<rparr>"

definition JobQueue_Len :: "'a JobQueue_scheme \<Rightarrow> nat" where
  "JobQueue_Len h = length (queue h)"

definition JobQueue_Less :: "'a JobQueue_scheme \<Rightarrow> nat \<Rightarrow> nat \<Rightarrow> bool" where
  "JobQueue_Less h i j =
     (let ji = mem h (queue h ! i); jj = mem h (queue h ! j)
      in if Priority ji = Priority jj then SubmitTime ji < SubmitTime jj
         else Priority ji < Priority jj)"

definition JobQueue_Swap :: "'a JobQueue_scheme \<Rightarrow> nat \<Rightarrow> nat \<Rightarrow> 'a JobQueue_scheme" where
  "JobQueue_Swap h i j =
     (let h1 = h\<lparr>queue := list_swap (queue h) i j\<rparr>;
          h2 = set_index h1 (queue h1 ! i) (int i)
      in set_index h2 (queue h2 ! j) (int j))"

definition JobQueue_Push :: "'a JobQueue_scheme \<Rightarrow> nat \<Rightarrow> 'a JobQueue_scheme" where
  "JobQueue_Push h x =
     (let n = length (queue h); h1 = set_index h x (int n)
      in h1\<lparr>queue := queue h1 @ [x]\<rparr>)"

definition JobQueue_Pop :: "'a JobQueue_scheme \<Rightarrow> 'a JobQueue_scheme \<times> nat" where
  "JobQueue_Pop h =
     (let old = queue h; n = length old; item = old ! (n - 1); h1 = set_index h item (-1)
      in (h1\<lparr>queue := take (n - 1) old\<rparr>, item))"

definition JobQueue_heap :: "('a JobQueue_scheme, nat) heap_Interface" where
  "JobQueue_heap = \<lparr>Len = JobQueue_Len, Less = JobQueue_Less, Swap = JobQueue_Swap,
     Push = JobQueue_Push, Pop = JobQueue_Pop\<rparr>"

lemma JobQueue_heap_sel [simp]:
  "Len JobQueue_heap = JobQueue_Len" "Less JobQueue_heap = JobQueue_Less"
  "Swap JobQueue_heap = JobQueue_Swap" "Push JobQueue_heap = JobQueue_Push"
  "Pop JobQueue_heap = JobQueue_Pop"
  by (simp_all add: JobQueue_heap_def)

subsection \<open>The queue viewed as a list of pointers with their keys\<close>

type_synonym entry = "nat \<times> int \<times> Time"

definition entry_of :: "'a JobQueue_scheme \<Rightarrow> nat \<Rightarrow> entry" where
  "entry_of h p = (p, Priority (mem h p), SubmitTime (mem h p))"

definition entries :: "'a JobQueue_scheme \<Rightarrow> entry list" where
  "entries h = map (entry_of h) (queue h)"

fun before :: "entry \<Rightarrow> entry \<Rightarrow> bool" where
  "before (_, p, t) (_, q, u) = (if p = q then t < u else p < q)"

lemma length_entries [simp]: "length (entries h) = length (queue h)"
  by (simp add: entries_def)

lemma entries_Nil [simp]: "entries h = [] \<longleftrightarrow> queue h = []"
  by (simp add: entries_def)

lemma entry_of_set_index [simp]: "entry_of (set_index h p i) = entry_of h"
  by (rule ext) (simp add: entry_of_def set_index_def)

lemma set_index_sel [simp]:
  "queue (set_index h p i) = queue h"
  "JobQueue.more (set_index h p i) = JobQueue.more h"
  by (simp_all add: set_index_def)

lemma entry_of_queue [simp]: "entry_of (h\<lparr>queue := q\<rparr>) = entry_of h"
  by (rule ext) (simp add: entry_of_def)

lemma queue_JobQueue_Swap [simp]: "queue (JobQueue_Swap h i j) = list_swap (queue h) i j"
  by (simp add: JobQueue_Swap_def Let_def)

lemma queue_JobQueue_Push [simp]: "queue (JobQueue_Push h x) = queue h @ [x]"
  by (simp add: JobQueue_Push_def Let_def)

lemma entry_of_heap_methods [simp]:
  "entry_of (JobQueue_Swap h i j) = entry_of h"
  "entry_of (JobQueue_Push h x) = entry_of h"
  "entry_of (fst (JobQueue_Pop h)) = entry_of h"
  by (simp_all add: JobQueue_Swap_def JobQueue_Push_def JobQueue_Pop_def Let_def)

lemma before_asym: "before a b \<Longrightarrow> \<not> before b a"
  by (cases a; cases b) (auto split: if_splits)

lemma not_before_trans: "\<not> before b a \<Longrightarrow> \<not> before c b \<Longrightarrow> \<not> before c a"
  by (cases a; cases b; cases c) (auto split: if_splits)

interpretation jq: heap_methods JobQueue_heap entries before entry_of fst
proof (unfold_locales, goal_cases)
  case (1 h) show ?case by (simp add: JobQueue_Len_def)
next
  case (2 i h j) then show ?case by (simp add: JobQueue_Less_def entries_def entry_of_def Let_def)
next
  case (3 i h j) then show ?case by (simp add: entries_def map_list_swap)
next
  case (4 h x) show ?case by (simp add: entries_def)
next
  case (5 h) then show ?case
    by (simp add: entries_def) (simp add: JobQueue_Pop_def Let_def butlast_conv_take take_map)
next
  case (6 h) then show ?case
    by (simp add: entries_def JobQueue_Pop_def Let_def last_map entry_of_def last_nth)
next
  case 7 then show ?case by (rule before_asym)
next
  case 8 then show ?case by (rule not_before_trans)
qed

subsection \<open>What the heap operations leave alone, and the index fields\<close>

text \<open>A job but for its heap position.\<close>

definition noidx :: "Job \<Rightarrow> Job" where
  "noidx j = j\<lparr>index := 0\<rparr>"

lemma noidx_sel [simp]:
  "ID (noidx j) = ID j" "Requirement (noidx j) = Requirement j" "Command (noidx j) = Command j"
  "SubmitTime (noidx j) = SubmitTime j" "Priority (noidx j) = Priority j" "User (noidx j) = User j"
  "WalltimeSeconds (noidx j) = WalltimeSeconds j" "GPUsRequired (noidx j) = GPUsRequired j" "CPUsRequired (noidx j) = CPUsRequired j"
  "MemoryRequiredMB (noidx j) = MemoryRequiredMB j" "EnvVars (noidx j) = EnvVars j" "MaxRetries (noidx j) = MaxRetries j"
  "RetryCount (noidx j) = RetryCount j" "GroupID (noidx j) = GroupID j" "State (noidx j) = State j"
  "WorkerNode (noidx j) = WorkerNode j" "StartTime (noidx j) = StartTime j" "EndTime (noidx j) = EndTime j"
  "Output (noidx j) = Output j" "Error (noidx j) = Error j"
  by (simp_all add: noidx_def)

lemma noidx_update [simp]:
  "noidx (j\<lparr>State := x_State\<rparr>) = (noidx j)\<lparr>State := x_State\<rparr>"
  "noidx (j\<lparr>WorkerNode := x_WorkerNode\<rparr>) = (noidx j)\<lparr>WorkerNode := x_WorkerNode\<rparr>"
  "noidx (j\<lparr>StartTime := x_StartTime\<rparr>) = (noidx j)\<lparr>StartTime := x_StartTime\<rparr>"
  "noidx (j\<lparr>EndTime := x_EndTime\<rparr>) = (noidx j)\<lparr>EndTime := x_EndTime\<rparr>"
  "noidx (j\<lparr>Output := x_Output\<rparr>) = (noidx j)\<lparr>Output := x_Output\<rparr>"
  "noidx (j\<lparr>Error := x_Error\<rparr>) = (noidx j)\<lparr>Error := x_Error\<rparr>"
  "noidx (j\<lparr>RetryCount := x_RetryCount\<rparr>) = (noidx j)\<lparr>RetryCount := x_RetryCount\<rparr>"
  "noidx (j\<lparr>index := i\<rparr>) = noidx j"
  "noidx (noidx j) = noidx j"
  by (cases j; simp add: noidx_def)+

lemma noidx_eqD:
  assumes "noidx j = noidx k"
  shows "ID j = ID k" "Requirement j = Requirement k" "Command j = Command k"
    "SubmitTime j = SubmitTime k" "Priority j = Priority k" "User j = User k"
    "WalltimeSeconds j = WalltimeSeconds k" "GPUsRequired j = GPUsRequired k"
    "CPUsRequired j = CPUsRequired k" "MemoryRequiredMB j = MemoryRequiredMB k"
    "EnvVars j = EnvVars k" "MaxRetries j = MaxRetries k" "RetryCount j = RetryCount k"
    "GroupID j = GroupID k" "State j = State k" "WorkerNode j = WorkerNode k"
    "StartTime j = StartTime k" "EndTime j = EndTime k" "Output j = Output k" "Error j = Error k"
  using assms by (cases j; cases k; simp add: noidx_def)+

lemma noidx_set_index [simp]: "noidx (mem (set_index h p i) q) = noidx (mem h q)"
  by (simp add: set_index_def noidx_def)

lemma mem_set_index: "mem (set_index h p i) q = (if q = p then (mem h p)\<lparr>index := i\<rparr> else mem h q)"
  by (simp add: set_index_def)

text \<open>Two heap states over the same jobs: only positions may differ.\<close>

definition same_jobs :: "'a JobQueue_scheme \<Rightarrow> 'a JobQueue_scheme \<Rightarrow> bool" where
  "same_jobs h g \<longleftrightarrow> (\<forall>p. noidx (mem g p) = noidx (mem h p)) \<and> JobQueue.more g = JobQueue.more h"

definition index_ok :: "'a JobQueue_scheme \<Rightarrow> bool" where
  "index_ok h \<longleftrightarrow> distinct (queue h) \<and> (\<forall>i<length (queue h). index (mem h (queue h ! i)) = int i)"

text \<open>\<open>g\<close> is \<open>h\<close> with its queue rearranged.\<close>

definition rearranged :: "'a JobQueue_scheme \<Rightarrow> 'a JobQueue_scheme \<Rightarrow> bool" where
  "rearranged h g \<longleftrightarrow> same_jobs h g \<and> index_ok g \<and> mset (queue g) = mset (queue h) \<and>
     (\<forall>p. p \<notin> set (queue h) \<longrightarrow> mem g p = mem h p)"

lemma rearranged_refl: "index_ok h \<Longrightarrow> rearranged h h"
  by (simp add: rearranged_def same_jobs_def)

lemma index_ok_Swap:
  assumes "index_ok h" "i < length (queue h)" "j < length (queue h)"
  shows "index_ok (JobQueue_Swap h i j)"
  unfolding index_ok_def
proof (intro conjI allI impI)
  let ?q = "list_swap (queue h) i j"
  have d: "distinct ?q" using assms by (simp add: index_ok_def)
  then show "distinct (queue (JobQueue_Swap h i j))" by simp
  fix k assume "k < length (queue (JobQueue_Swap h i j))"
  then have k: "k < length (queue h)" by simp
  have inj: "?q ! k = ?q ! i \<longleftrightarrow> k = i" "?q ! k = ?q ! j \<longleftrightarrow> k = j"
    using d assms k by (simp_all add: nth_eq_iff_index_eq)
  show "index (mem (JobQueue_Swap h i j) (queue (JobQueue_Swap h i j) ! k)) = int k"
    using assms k inj
    by (auto simp: JobQueue_Swap_def Let_def mem_set_index index_ok_def nth_list_swap)
qed

lemma rearranged_Swap:
  assumes "rearranged h g" "i < length (entries g)" "j < length (entries g)"
  shows "rearranged h (Swap JobQueue_heap g i j)"
proof -
  have "set (queue g) = set (queue h)"
    using assms(1) by (metis rearranged_def set_mset_mset)
  moreover have "mem (JobQueue_Swap g i j) p = mem g p" if "p \<notin> set (queue g)" for p
  proof -
    have "p \<noteq> list_swap (queue g) i j ! i" "p \<noteq> list_swap (queue g) i j ! j"
      using that assms(2,3) by (metis length_entries length_list_swap nth_mem set_list_swap)+
    then show ?thesis by (simp add: JobQueue_Swap_def Let_def mem_set_index)
  qed
  moreover have "same_jobs h (JobQueue_Swap g i j)"
    using assms(1) by (simp add: rearranged_def same_jobs_def JobQueue_Swap_def Let_def)
  ultimately show ?thesis
    using assms index_ok_Swap by (auto simp: rearranged_def)
qed

lemma index_ok_Push:
  assumes "index_ok h" "x \<notin> set (queue h)"
  shows "index_ok (JobQueue_Push h x)"
proof -
  have "queue h ! i \<noteq> x" if "i < length (queue h)" for i
    using assms(2) that nth_mem by blast
  then show ?thesis
    using assms by (auto simp: index_ok_def JobQueue_Push_def Let_def mem_set_index nth_append less_Suc_eq)
qed

lemma heap_Push_frame:
  assumes "index_ok h" "x \<notin> set (queue h)"
  shows "rearranged (JobQueue_Push h x) (heap_Push JobQueue_heap h x)"
  by (rule jq.heap_Push_keeps [of "rearranged (JobQueue_Push h x)"])
    (simp_all add: rearranged_Swap [simplified] rearranged_refl index_ok_Push assms)

lemma JobQueue_Pop_frame:
  assumes r: "rearranged h g" and ne: "queue g \<noteq> []" and pop: "JobQueue_Pop g = (g', x)"
  shows "same_jobs h g' \<and> index_ok g' \<and> index (mem g' x) = -1 \<and>
         mset (queue h) = add_mset x (mset (queue g')) \<and>
         (\<forall>p. p \<notin> set (queue h) \<longrightarrow> mem g' p = mem h p)"
proof -
  let ?n = "length (queue g) - 1"
  have x: "x = queue g ! ?n" and q': "queue g' = take ?n (queue g)"
    and m': "mem g' = mem (set_index g x (-1))" and more: "JobQueue.more g' = JobQueue.more g"
    using pop by (auto simp: JobQueue_Pop_def Let_def)
  have "queue g' = butlast (queue g)" "x = last (queue g)"
    using ne by (simp_all add: q' x butlast_conv_take last_nth)
  then have ms: "mset (queue g) = add_mset x (mset (queue g'))"
    using mset_butlast [OF ne] by simp
  have idx: "index_ok g" using r by (simp add: rearranged_def)
  have ord: "queue g ! i \<noteq> x" if "i < ?n" for i
    using that idx by (auto simp: x index_ok_def nth_eq_iff_index_eq)
  have "index_ok g'"
    using idx ord by (auto simp: index_ok_def q' m' mem_set_index)
  moreover have "x \<in> set (queue h)"
    using r ne x by (metis diff_less length_greater_0_conv nth_mem rearranged_def set_mset_mset zero_less_one)
  then have "mem g' p = mem h p" if "p \<notin> set (queue h)" for p
    using that r by (auto simp: m' mem_set_index rearranged_def)
  moreover have "same_jobs h g'"
    using r more by (simp add: rearranged_def same_jobs_def m')
  ultimately show ?thesis
    using ms r by (simp add: rearranged_def m' mem_set_index)
qed

lemma heap_Remove_frame:
  assumes idx: "index_ok h" and i: "i < length (queue h)"
    and rm: "heap_Remove JobQueue_heap h i = (g, x)"
  shows "same_jobs h g \<and> index_ok g \<and> index (mem g x) = -1 \<and>
         mset (queue h) = add_mset x (mset (queue g)) \<and>
         (\<forall>p. p \<notin> set (queue h) \<longrightarrow> mem g p = mem h p)"
proof -
  obtain h0 where h0: "rearranged h h0" "length (queue h0) = length (queue h)" "(g, x) = JobQueue_Pop h0"
    using jq.heap_Remove_keeps [of "rearranged h" h i, OF rearranged_Swap rearranged_refl [OF idx]] i rm
    by simp blast
  show ?thesis
    by (rule JobQueue_Pop_frame [OF h0(1)]) (use h0 i in auto)
qed

lemma heap_Pop_frame:
  assumes idx: "index_ok h" and ne: "queue h \<noteq> []"
    and pop: "heap_Pop JobQueue_heap h = (g, x)"
  shows "same_jobs h g \<and> index_ok g \<and> index (mem g x) = -1 \<and>
         mset (queue h) = add_mset x (mset (queue g)) \<and>
         (\<forall>p. p \<notin> set (queue h) \<longrightarrow> mem g p = mem h p)"
proof -
  obtain h0 where h0: "rearranged h h0" "length (queue h0) = length (queue h)" "(g, x) = JobQueue_Pop h0"
    using jq.heap_Pop_keeps [of "rearranged h" h, OF rearranged_Swap rearranged_refl [OF idx]] ne pop
    by simp blast
  show ?thesis
    by (rule JobQueue_Pop_frame [OF h0(1)]) (use h0 ne in auto)
qed

lemma entries_same_jobs: "same_jobs h g \<Longrightarrow> entry_of g = entry_of h"
  unfolding same_jobs_def entry_of_def by (rule ext) (metis noidx_eqD(4,5))

end
