(* ===== verification/Global_Scheduler.thy ===== *)
theory Global_Scheduler
  imports Job_Queue
begin

text \<open>
  \<open>GlobalScheduler\<close> of \<open>pkg/scheduler/queue.go\<close>: the priority queue, the table of all
  jobs and the table of job groups, behind one mutex. A method reads and writes the state
  under the mutex, so it is one atomic state transformer; the methods that change a job
  call the persistence hook and copy the job they return right after unlocking, which the
  model takes as part of the same step. A method that reads the clock takes the instant
  as an argument, and a method that ranges over a table takes the order of the visit
  (see \<open>range_order\<close>).

  A call of a persistence hook is recorded in \<open>changes\<close>: the hook receives the pointer of
  the job (not a copy), and the group's identifier stands for the pointer of the group.
\<close>

subsection \<open>State\<close>

datatype change = JobChange nat | GroupChange string

datatype sched_error = QueueFull int | JobNotFound

record GlobalScheduler = JobQueue +
  next_ptr :: nat
  jobs :: "string \<rightharpoonup> nat"
  groups :: "string \<rightharpoonup> JobGroup"
  MaxQueueSize :: int
  OnJobChange :: bool
  OnGroupChange :: bool
  changes :: "change list"

definition NewGlobalScheduler :: GlobalScheduler where
  "NewGlobalScheduler =
     heap_Init JobQueue_heap
       \<lparr>mem = (\<lambda>_. zero_job), queue = [], next_ptr = 0, jobs = Map.empty, groups = Map.empty,
        MaxQueueSize = 0, OnJobChange = False, OnGroupChange = False, changes = []\<rparr>"

text \<open>A composite literal \<open>&Job{...}\<close> allocates a new object.\<close>

definition new_job :: "GlobalScheduler \<Rightarrow> Job \<Rightarrow> GlobalScheduler \<times> nat" where
  "new_job gs j =
     (gs\<lparr>mem := (mem gs)(next_ptr gs := j), next_ptr := Suc (next_ptr gs)\<rparr>, next_ptr gs)"

definition upd_job :: "GlobalScheduler \<Rightarrow> nat \<Rightarrow> (Job \<Rightarrow> Job) \<Rightarrow> GlobalScheduler" where
  "upd_job gs p f = gs\<lparr>mem := (mem gs)(p := f (mem gs p))\<rparr>"

definition notifyJobChange :: "GlobalScheduler \<Rightarrow> nat \<Rightarrow> GlobalScheduler" where
  "notifyJobChange gs p = (if OnJobChange gs then gs\<lparr>changes := changes gs @ [JobChange p]\<rparr> else gs)"

definition notifyGroupChange :: "GlobalScheduler \<Rightarrow> string \<Rightarrow> GlobalScheduler" where
  "notifyGroupChange gs g = (if OnGroupChange gs then gs\<lparr>changes := changes gs @ [GroupChange g]\<rparr> else gs)"

subsection \<open>Queue operations\<close>

definition Enqueue :: "GlobalScheduler \<Rightarrow> nat \<Rightarrow> sched_error + GlobalScheduler" where
  "Enqueue gs p =
     (if 0 < MaxQueueSize gs \<and> MaxQueueSize gs \<le> int (length (queue gs))
      then Inl (QueueFull (MaxQueueSize gs))
      else let gs1 = upd_job gs p (State_update (\<lambda>_. StateQueued));
               gs2 = gs1\<lparr>jobs := (jobs gs1)(ID (mem gs1 p) \<mapsto> p)\<rparr>;
               gs3 = heap_Push JobQueue_heap gs2 p
           in Inr (notifyJobChange gs3 p))"

definition Dequeue :: "GlobalScheduler \<Rightarrow> Job option \<times> GlobalScheduler" where
  "Dequeue gs =
     (if JobQueue_Len gs = 0 then (None, gs)
      else let (gs', p) = heap_Pop JobQueue_heap gs in (Job_Copy (Some (mem gs' p)), gs'))"

definition Peek :: "GlobalScheduler \<Rightarrow> Job option" where
  "Peek gs = (if JobQueue_Len gs = 0 then None else Job_Copy (Some (mem gs (queue gs ! 0))))"

definition QueueLen :: "GlobalScheduler \<Rightarrow> nat" where
  "QueueLen gs = JobQueue_Len gs"

text \<open>
  The callback of \<open>Backfill\<close> may itself change state (the matchmaker caches compiled
  expressions): it takes and returns that state. The loop visits the queue in slice
  order and stops at the first job the callback accepts.
\<close>

fun backfill_loop :: "(Job \<Rightarrow> 'e \<Rightarrow> bool \<times> 'e) \<Rightarrow> GlobalScheduler \<Rightarrow> nat \<Rightarrow> nat list \<Rightarrow> 'e \<Rightarrow>
    Job option \<times> GlobalScheduler \<times> 'e" where
  "backfill_loop matchFunc gs i [] e = (None, gs, e)"
| "backfill_loop matchFunc gs i (p # ps) e =
     (let (matched, e') = matchFunc (mem gs p) e
      in if matched
         then let (gs', _) = heap_Remove JobQueue_heap gs i in (Job_Copy (Some (mem gs' p)), gs', e')
         else backfill_loop matchFunc gs (Suc i) ps e')"

definition Backfill :: "(Job \<Rightarrow> 'e \<Rightarrow> bool \<times> 'e) \<Rightarrow> GlobalScheduler \<Rightarrow> 'e \<Rightarrow>
    Job option \<times> GlobalScheduler \<times> 'e" where
  "Backfill matchFunc gs e = backfill_loop matchFunc gs 0 (queue gs) e"

text \<open>The guarded removal at a job's recorded position that two methods share.\<close>

definition remove_at_index :: "GlobalScheduler \<Rightarrow> nat \<Rightarrow> GlobalScheduler" where
  "remove_at_index gs p =
     (let i = index (mem gs p)
      in if 0 \<le> i \<and> i < int (JobQueue_Len gs)
         then fst (heap_Remove JobQueue_heap gs (nat i)) else gs)"

definition RemoveByID :: "GlobalScheduler \<Rightarrow> string \<Rightarrow> Job option \<times> GlobalScheduler" where
  "RemoveByID gs jobID =
     (case jobs gs jobID of
        None \<Rightarrow> (None, gs)
      | Some p \<Rightarrow>
          if State (mem gs p) \<noteq> StateQueued then (None, gs)
          else let gs' = remove_at_index gs p in (Job_Copy (Some (mem gs' p)), gs'))"

definition Cancel :: "Time \<Rightarrow> GlobalScheduler \<Rightarrow> string \<Rightarrow> Job option \<times> bool \<times> GlobalScheduler" where
  "Cancel now gs jobID =
     (case jobs gs jobID of
        None \<Rightarrow> (None, False, gs)
      | Some p \<Rightarrow>
          if State (mem gs p) = StateQueued
          then let gs1 = remove_at_index gs p;
                   gs2 = upd_job gs1 p (\<lambda>j. j\<lparr>State := StateCancelled, EndTime := now\<rparr>);
                   gs3 = notifyJobChange gs2 p
               in (Job_Copy (Some (mem gs3 p)), True, gs3)
          else if State (mem gs p) = StateRunning
          then let gs2 = upd_job gs p (\<lambda>j. j\<lparr>State := StateCancelled, EndTime := now\<rparr>);
                   gs3 = notifyJobChange gs2 p
               in (Job_Copy (Some (mem gs3 p)), True, gs3)
          else (Job_Copy (Some (mem gs p)), False, gs))"

definition Requeue :: "GlobalScheduler \<Rightarrow> string \<Rightarrow> bool \<Rightarrow> sched_error + (Job option \<times> GlobalScheduler)" where
  "Requeue gs jobID incrementRetry =
     (case jobs gs jobID of
        None \<Rightarrow> Inl JobNotFound
      | Some p \<Rightarrow>
          let gs0 = (if incrementRetry then upd_job gs p (\<lambda>j. j\<lparr>RetryCount := i64 (RetryCount j + 1)\<rparr>) else gs);
              gs1 = upd_job gs0 p (\<lambda>j. j\<lparr>State := StateQueued, WorkerNode := [],
                      StartTime := zero_time, EndTime := zero_time, Output := [], Error := [],
                      index := -1\<rparr>);
              gs2 = heap_Push JobQueue_heap gs1 p;
              gs3 = notifyJobChange gs2 p
          in Inr (Job_Copy (Some (mem gs3 p)), gs3))"

subsection \<open>State transitions\<close>

definition MarkRunning :: "Time \<Rightarrow> GlobalScheduler \<Rightarrow> string \<Rightarrow> string \<Rightarrow> GlobalScheduler" where
  "MarkRunning now gs jobID workerNode =
     (case jobs gs jobID of
        None \<Rightarrow> gs
      | Some p \<Rightarrow>
          notifyJobChange
            (upd_job gs p (\<lambda>j. j\<lparr>State := StateRunning, WorkerNode := workerNode, StartTime := now\<rparr>)) p)"

definition RequeueRunningJob :: "GlobalScheduler \<Rightarrow> string \<Rightarrow> Job option \<times> bool \<times> GlobalScheduler" where
  "RequeueRunningJob gs jobID =
     (case jobs gs jobID of
        None \<Rightarrow> (None, False, gs)
      | Some p \<Rightarrow>
          if State (mem gs p) \<noteq> StateRunning then (None, False, gs)
          else let gs1 = upd_job gs p (\<lambda>j. j\<lparr>State := StateQueued, WorkerNode := [], StartTime := zero_time\<rparr>);
                   gs2 = heap_Push JobQueue_heap gs1 p;
                   gs3 = notifyJobChange gs2 p
               in (Job_Copy (Some (mem gs3 p)), True, gs3))"

definition MarkCompleted :: "Time \<Rightarrow> GlobalScheduler \<Rightarrow> string \<Rightarrow> bool \<Rightarrow> string \<Rightarrow> string \<Rightarrow> GlobalScheduler" where
  "MarkCompleted now gs jobID success output errMsg =
     (case jobs gs jobID of
        None \<Rightarrow> gs
      | Some p \<Rightarrow>
          if State (mem gs p) = StateCancelled then gs
          else notifyJobChange
                 (upd_job gs p (\<lambda>j. j\<lparr>State := (if success then StateCompleted else StateFailed),
                    Output := output, Error := errMsg, EndTime := now\<rparr>)) p)"

subsection \<open>Queries\<close>

definition GetJob :: "GlobalScheduler \<Rightarrow> string \<Rightarrow> Job option \<times> bool" where
  "GetJob gs jobID =
     (case jobs gs jobID of None \<Rightarrow> (None, False) | Some p \<Rightarrow> (Job_Copy (Some (mem gs p)), True))"

definition ListJobs :: "string list \<Rightarrow> GlobalScheduler \<Rightarrow> string \<Rightarrow> Job list" where
  "ListJobs order gs stateFilter =
     concat (map (\<lambda>k. case jobs gs k of None \<Rightarrow> []
       | Some p \<Rightarrow> if stateFilter = [] \<or> State (mem gs p) = stateFilter then [mem gs p] else []) order)"

definition RunningJobs :: "string list \<Rightarrow> GlobalScheduler \<Rightarrow> Job list" where
  "RunningJobs order gs = ListJobs order gs StateRunning"

definition RunningJobsOnNode :: "string list \<Rightarrow> GlobalScheduler \<Rightarrow> string \<Rightarrow> Job list" where
  "RunningJobsOnNode order gs nodeName =
     concat (map (\<lambda>k. case jobs gs k of None \<Rightarrow> []
       | Some p \<Rightarrow> if State (mem gs p) = StateRunning \<and> WorkerNode (mem gs p) = nodeName
                   then [mem gs p] else []) order)"

subsection \<open>Groups\<close>

definition GroupPending :: string where "GroupPending = ''PENDING''"
definition GroupRunning :: string where "GroupRunning = ''RUNNING''"
definition GroupCompleted :: string where "GroupCompleted = ''COMPLETED''"
definition GroupFailed :: string where "GroupFailed = ''FAILED''"

lemmas group_state_defs [tasch_consts] =
  GroupPending_def GroupRunning_def GroupCompleted_def GroupFailed_def

definition RegisterGroup :: "GlobalScheduler \<Rightarrow> JobGroup \<Rightarrow> GlobalScheduler" where
  "RegisterGroup gs g =
     notifyGroupChange (gs\<lparr>groups := (groups gs)(gGroupID g \<mapsto> g)\<rparr>) (gGroupID g)"

definition GetGroup :: "GlobalScheduler \<Rightarrow> string \<Rightarrow> JobGroup option \<times> bool" where
  "GetGroup gs groupID =
     (case groups gs groupID of None \<Rightarrow> (None, False) | Some g \<Rightarrow> (JobGroup_Copy (Some g), True))"

definition PendingGroups :: "string list \<Rightarrow> GlobalScheduler \<Rightarrow> JobGroup list" where
  "PendingGroups order gs =
     concat (map (\<lambda>k. case groups gs k of None \<Rightarrow> []
       | Some g \<Rightarrow> if gState g = GroupPending then [g] else []) order)"

definition SetGroupState :: "GlobalScheduler \<Rightarrow> string \<Rightarrow> string \<Rightarrow> GlobalScheduler" where
  "SetGroupState gs groupID state =
     (case groups gs groupID of
        None \<Rightarrow> gs
      | Some g \<Rightarrow> notifyGroupChange (gs\<lparr>groups := (groups gs)(groupID \<mapsto> g\<lparr>gState := state\<rparr>)\<rparr>) groupID)"

section \<open>The invariant\<close>

text \<open>
  The heap order holds; every queued job records its own position; the table maps an
  identifier to the job that carries it; a job of the table that is not queued has
  position \<open>-1\<close>, so that the guarded removal of \<open>RemoveByID\<close> and \<open>Cancel\<close> can never hit
  another job; every queued job is in the table; no running job is queued. The set \<open>X\<close>
  exempts the job an operation is about to push.
\<close>

definition gs_inv_but :: "nat set \<Rightarrow> GlobalScheduler \<Rightarrow> bool" where
  "gs_inv_but X gs \<longleftrightarrow>
     heap_ok before (entries gs) \<and> index_ok gs \<and>
     (\<forall>jid p. jobs gs jid = Some p \<longrightarrow> ID (mem gs p) = jid \<and> p < next_ptr gs \<and>
        (p \<notin> set (queue gs) \<and> p \<notin> X \<longrightarrow> index (mem gs p) = -1) \<and>
        (State (mem gs p) = StateRunning \<longrightarrow> p \<notin> set (queue gs))) \<and>
     (\<forall>p\<in>set (queue gs). jobs gs (ID (mem gs p)) = Some p)"

abbreviation gs_inv :: "GlobalScheduler \<Rightarrow> bool" where
  "gs_inv \<equiv> gs_inv_but {}"

lemma gs_invD:
  assumes "gs_inv_but X gs"
  shows "heap_ok before (entries gs)" "index_ok gs" "distinct (queue gs)"
    "jobs gs jid = Some p \<Longrightarrow> ID (mem gs p) = jid"
    "jobs gs jid = Some p \<Longrightarrow> p < next_ptr gs"
    "jobs gs jid = Some p \<Longrightarrow> p \<notin> set (queue gs) \<Longrightarrow> p \<notin> X \<Longrightarrow> index (mem gs p) = -1"
    "jobs gs jid = Some p \<Longrightarrow> State (mem gs p) = StateRunning \<Longrightarrow> p \<notin> set (queue gs)"
    "p \<in> set (queue gs) \<Longrightarrow> jobs gs (ID (mem gs p)) = Some p"
  using assms by (auto simp: gs_inv_but_def index_ok_def)

text \<open>Fields of two schedulers over the same jobs.\<close>

lemma same_jobs_fields:
  fixes h g :: GlobalScheduler
  assumes "same_jobs h g"
  shows "jobs g = jobs h" "groups g = groups h" "next_ptr g = next_ptr h"
    "MaxQueueSize g = MaxQueueSize h" "OnJobChange g = OnJobChange h"
    "OnGroupChange g = OnGroupChange h" "changes g = changes h"
    "noidx (mem g p) = noidx (mem h p)"
  using assms by (cases g; cases h; simp add: same_jobs_def)+

lemmas same_jobs_noidx = noidx_eqD [OF same_jobs_fields(8)]

subsection \<open>Steps that do not touch the queue\<close>

lemma notify_fields [simp, frame]:
  "mem (notifyJobChange gs p) = mem gs" "queue (notifyJobChange gs p) = queue gs"
  "jobs (notifyJobChange gs p) = jobs gs" "groups (notifyJobChange gs p) = groups gs"
  "next_ptr (notifyJobChange gs p) = next_ptr gs"
  "MaxQueueSize (notifyJobChange gs p) = MaxQueueSize gs"
  "OnJobChange (notifyJobChange gs p) = OnJobChange gs"
  "OnGroupChange (notifyJobChange gs p) = OnGroupChange gs"
  "mem (notifyGroupChange gs g) = mem gs" "queue (notifyGroupChange gs g) = queue gs"
  "jobs (notifyGroupChange gs g) = jobs gs" "groups (notifyGroupChange gs g) = groups gs"
  "next_ptr (notifyGroupChange gs g) = next_ptr gs"
  "MaxQueueSize (notifyGroupChange gs g) = MaxQueueSize gs"
  "OnJobChange (notifyGroupChange gs g) = OnJobChange gs"
  "OnGroupChange (notifyGroupChange gs g) = OnGroupChange gs"
  by (simp_all add: notifyJobChange_def notifyGroupChange_def)

lemma upd_job_fields [simp, frame]:
  "queue (upd_job gs p f) = queue gs" "jobs (upd_job gs p f) = jobs gs"
  "groups (upd_job gs p f) = groups gs" "next_ptr (upd_job gs p f) = next_ptr gs"
  "MaxQueueSize (upd_job gs p f) = MaxQueueSize gs" "changes (upd_job gs p f) = changes gs"
  "OnJobChange (upd_job gs p f) = OnJobChange gs" "OnGroupChange (upd_job gs p f) = OnGroupChange gs"
  by (simp_all add: upd_job_def)

lemma mem_upd_job: "mem (upd_job gs p f) q = (if q = p then f (mem gs p) else mem gs q)"
  by (simp add: upd_job_def)

lemma gs_inv_cong:
  "mem g = mem h \<Longrightarrow> queue g = queue h \<Longrightarrow> jobs g = jobs h \<Longrightarrow> next_ptr g = next_ptr h \<Longrightarrow>
     gs_inv_but X g = gs_inv_but X h"
  by (simp add: gs_inv_but_def entries_def entry_of_def [abs_def] index_ok_def)

lemma gs_inv_notify [simp]:
  "gs_inv_but X (notifyJobChange gs p) = gs_inv_but X gs"
  "gs_inv_but X (notifyGroupChange gs g) = gs_inv_but X gs"
  by (rule gs_inv_cong; simp)+

lemma gs_inv_groups [simp]: "gs_inv_but X (gs\<lparr>groups := m\<rparr>) = gs_inv_but X gs"
  by (rule gs_inv_cong) simp_all

lemma entries_jobs [simp]:
  "entries (gs\<lparr>jobs := m\<rparr>) = entries gs" "index_ok (gs\<lparr>jobs := m\<rparr>) = index_ok gs"
  by (simp_all add: entries_def entry_of_def [abs_def] index_ok_def)

text \<open>Writing fields of one job other than its key, its identifier and its position.\<close>

lemma gs_inv_upd:
  assumes "gs_inv_but X gs"
    and f: "ID (f (mem gs p)) = ID (mem gs p)" "Priority (f (mem gs p)) = Priority (mem gs p)"
      "SubmitTime (f (mem gs p)) = SubmitTime (mem gs p)" "index (f (mem gs p)) = index (mem gs p)"
    and run: "State (f (mem gs p)) = StateRunning \<Longrightarrow> State (mem gs p) = StateRunning \<or> p \<notin> set (queue gs)"
  shows "gs_inv_but X (upd_job gs p f)"
proof -
  have "entry_of (upd_job gs p f) = entry_of gs"
    by (rule ext) (simp add: entry_of_def mem_upd_job f)
  then have "entries (upd_job gs p f) = entries gs" by (simp add: entries_def)
  moreover have idx: "index (mem (upd_job gs p f) q) = index (mem gs q)" for q
    by (simp add: mem_upd_job f)
  then have "index_ok (upd_job gs p f) = index_ok gs"
    by (simp add: index_ok_def)
  moreover have "ID (mem (upd_job gs p f) q) = ID (mem gs q)" for q
    by (simp add: mem_upd_job f)
  moreover have "q \<notin> set (queue gs)"
    if "State (mem (upd_job gs p f) q) = StateRunning" "jobs gs jid = Some q" for jid q
    using that run gs_invD(7) [OF assms(1) that(2)] by (auto simp: mem_upd_job split: if_splits)
  ultimately show ?thesis
    using assms(1) by (auto simp: gs_inv_but_def idx)
qed

subsection \<open>Pushing and removing\<close>

lemma entries_mset: "mset (entries h) = image_mset (entry_of h) (mset (queue h))"
  by (simp add: entries_def)

lemma push_inv:
  assumes inv: "gs_inv_but X gs" and p: "p \<notin> set (queue gs)" "jobs gs (ID (mem gs p)) = Some p"
    and st: "State (mem gs p) \<noteq> StateRunning" and X: "X \<subseteq> {p}"
  shows "gs_inv (heap_Push JobQueue_heap gs p)"
    and "same_jobs gs (heap_Push JobQueue_heap gs p)"
    and "mset (queue (heap_Push JobQueue_heap gs p)) = add_mset p (mset (queue gs))"
proof -
  let ?g = "heap_Push JobQueue_heap gs p"
  have r: "rearranged (JobQueue_Push gs p) ?g"
    using gs_invD(2) [OF inv] p(1) by (rule heap_Push_frame)
  show same: "same_jobs gs ?g"
    using r by (auto simp: rearranged_def same_jobs_def JobQueue_Push_def Let_def)
  show ms: "mset (queue ?g) = add_mset p (mset (queue gs))"
    using r by (simp add: rearranged_def)
  then have set: "set (queue ?g) = insert p (set (queue gs))"
    by (metis set_mset_add_mset_insert set_mset_mset)
  have heap: "heap_ok before (entries ?g)"
    using jq.heap_Push_correct gs_invD(1) [OF inv] by blast
  have other: "mem ?g q = mem gs q" if "q \<notin> insert p (set (queue gs))" for q
    using r that by (auto simp: rearranged_def JobQueue_Push_def Let_def mem_set_index)
  show "gs_inv ?g"
    unfolding gs_inv_but_def
  proof (intro conjI allI impI ballI)
    show "index_ok ?g" using r by (simp add: rearranged_def)
    fix jid q assume j: "jobs ?g jid = Some q"
    then have j': "jobs gs jid = Some q" by (simp add: same_jobs_fields [OF same])
    show "ID (mem ?g q) = jid" "q < next_ptr ?g"
      using gs_invD(4,5) [OF inv j'] by (simp_all add: same_jobs_noidx [OF same] same_jobs_fields [OF same])
    show "index (mem ?g q) = -1" if "q \<notin> set (queue ?g) \<and> q \<notin> {}"
      using that other [of q] gs_invD(6) [OF inv j'] X by (auto simp: set)
    show "q \<notin> set (queue ?g)" if "State (mem ?g q) = StateRunning"
      using that st gs_invD(7) [OF inv j'] by (auto simp: set same_jobs_noidx [OF same])
  next
    fix q assume "q \<in> set (queue ?g)"
    then show "jobs ?g (ID (mem ?g q)) = Some q"
      using p(2) gs_invD(8) [OF inv] by (auto simp: set same_jobs_noidx [OF same] same_jobs_fields [OF same])
  qed (rule heap)
qed

text \<open>Any removal that keeps the jobs and takes \<open>x\<close> out of the queue.\<close>

lemma removal_inv:
  assumes inv: "gs_inv gs" and heap: "heap_ok before (entries g)"
    and fr: "same_jobs gs g \<and> index_ok g \<and> index (mem g x) = -1 \<and>
         mset (queue gs) = add_mset x (mset (queue g)) \<and>
         (\<forall>p. p \<notin> set (queue gs) \<longrightarrow> mem g p = mem gs p)"
  shows "gs_inv g" "x \<in> set (queue gs)" "x \<notin> set (queue g)"
proof -
  have same: "same_jobs gs g" using fr by simp
  have set: "set (queue gs) = insert x (set (queue g))"
    using fr by (metis set_mset_add_mset_insert set_mset_mset)
  then show x: "x \<in> set (queue gs)" by simp
  have "distinct (x # queue g)"
    using gs_invD(3) [OF inv] fr by (metis mset.simps(2) mset_eq_imp_distinct_iff)
  then show x': "x \<notin> set (queue g)" by simp
  show "gs_inv g"
    unfolding gs_inv_but_def
  proof (intro conjI allI impI ballI)
    show "index_ok g" using fr by simp
    fix jid q assume j: "jobs g jid = Some q"
    then have j': "jobs gs jid = Some q" by (simp add: same_jobs_fields [OF same])
    show "ID (mem g q) = jid" "q < next_ptr g"
      using gs_invD(4,5) [OF inv j'] by (simp_all add: same_jobs_noidx [OF same] same_jobs_fields [OF same])
    show "index (mem g q) = -1" if "q \<notin> set (queue g) \<and> q \<notin> {}"
      using that fr gs_invD(6) [OF inv j'] by (cases "q = x") (auto simp: set)
    show "q \<notin> set (queue g)" if "State (mem g q) = StateRunning"
      using that gs_invD(7) [OF inv j'] by (auto simp: set same_jobs_noidx [OF same])
  next
    fix q assume "q \<in> set (queue g)"
    then show "jobs g (ID (mem g q)) = Some q"
      using gs_invD(8) [OF inv] by (auto simp: set same_jobs_noidx [OF same] same_jobs_fields [OF same])
  qed (rule heap)
qed

section \<open>The abstract scheduler\<close>

text \<open>
  What a caller can observe, free of pointers and positions: the table of jobs and the
  multiset of the identifiers that wait in the queue.
\<close>

definition table :: "GlobalScheduler \<Rightarrow> string \<rightharpoonup> Job" where
  "table gs jid = (case jobs gs jid of None \<Rightarrow> None | Some p \<Rightarrow> Some (noidx (mem gs p)))"

definition waiting :: "GlobalScheduler \<Rightarrow> string multiset" where
  "waiting gs = image_mset (\<lambda>p. ID (mem gs p)) (mset (queue gs))"

definition earlier :: "Job \<Rightarrow> Job \<Rightarrow> bool" where
  "earlier a b \<longleftrightarrow> (if Priority a = Priority b then SubmitTime a < SubmitTime b
     else Priority a < Priority b)"

lemma earlier_noidx [simp]: "earlier (noidx a) b = earlier a b" "earlier a (noidx b) = earlier a b"
  by (simp_all add: earlier_def noidx_def)

lemma before_entry_of: "before (entry_of h p) (entry_of h q) = earlier (mem h p) (mem h q)"
  by (simp add: entry_of_def earlier_def)

lemma table_Some: "jobs gs jid = Some p \<Longrightarrow> table gs jid = Some (noidx (mem gs p))"
  by (simp add: table_def)

lemma table_None: "table gs jid = None \<longleftrightarrow> jobs gs jid = None"
  by (simp add: table_def split: option.split)

lemma table_same_jobs: "same_jobs gs g \<Longrightarrow> table g = table gs"
  by (rule ext) (simp add: table_def same_jobs_fields split: option.split)

lemma table_notify [simp, frame]:
  "table (notifyJobChange gs p) = table gs" "waiting (notifyJobChange gs p) = waiting gs"
  "table (notifyGroupChange gs g) = table gs" "waiting (notifyGroupChange gs g) = waiting gs"
  by (auto simp: table_def fun_eq_iff waiting_def split: option.split)

lemma waiting_same_jobs:
  assumes "same_jobs gs g"
  shows "waiting g = image_mset (\<lambda>p. ID (mem gs p)) (mset (queue g))"
  by (simp add: waiting_def same_jobs_noidx [OF assms])

lemma table_upd:
  assumes "gs_inv_but X gs" "jobs gs jid = Some p"
  shows "table (upd_job gs p f) = (table gs)(jid \<mapsto> noidx (f (mem gs p)))"
proof (rule ext)
  fix x
  show "table (upd_job gs p f) x = ((table gs)(jid \<mapsto> noidx (f (mem gs p)))) x"
    using assms(2) gs_invD(4) [OF assms(1)]
    by (cases "jobs gs x") (auto simp: table_def mem_upd_job)
qed

lemma waiting_upd:
  assumes "ID (f (mem gs p)) = ID (mem gs p)"
  shows "waiting (upd_job gs p f) = waiting gs"
proof -
  have "(\<lambda>q. ID (mem (upd_job gs p f) q)) = (\<lambda>q. ID (mem gs q))"
    using assms by (auto simp: mem_upd_job)
  then show ?thesis by (simp add: waiting_def)
qed

text \<open>A table entry waits at most once, and exactly when its object is queued.\<close>

lemma in_waiting_iff:
  assumes "gs_inv_but X gs" "jobs gs jid = Some p"
  shows "jid \<in># waiting gs \<longleftrightarrow> p \<in> set (queue gs)"
  using assms(2) gs_invD(4,8) [OF assms(1)] by (force simp: waiting_def)

lemma waiting_table: "gs_inv_but X gs \<Longrightarrow> jid \<in># waiting gs \<Longrightarrow> \<exists>j. table gs jid = Some j"
  by (auto simp: waiting_def table_def dest: gs_invD(8))

lemma count_waiting:
  assumes "gs_inv_but X gs"
  shows "count (waiting gs) jid \<le> 1"
proof -
  have inj: "inj_on (\<lambda>p. ID (mem gs p)) (set (queue gs))"
    by (rule inj_onI) (metis gs_invD(8) [OF assms] option.inject)
  then have "distinct (map (\<lambda>p. ID (mem gs p)) (queue gs))"
    using gs_invD(3) [OF assms] by (simp add: distinct_map)
  then show ?thesis
    by (simp add: waiting_def flip: mset_map) (simp add: distinct_count_atmost_1)
qed

subsection \<open>Guarded removal and pop\<close>

lemma remove_at_index_inv:
  assumes inv: "gs_inv gs" and j: "jobs gs jid = Some p"
  shows "gs_inv (remove_at_index gs p)" "same_jobs gs (remove_at_index gs p)"
    "p \<notin> set (queue (remove_at_index gs p))"
    "waiting (remove_at_index gs p) = waiting gs - {#jid#}"
proof -
  let ?g = "remove_at_index gs p"
  have "gs_inv ?g \<and> same_jobs gs ?g \<and> p \<notin> set (queue ?g) \<and> waiting ?g = waiting gs - {#jid#}"
  proof (cases "p \<in> set (queue gs)")
    case False
    then have "?g = gs"
      using gs_invD(6) [OF inv j] by (simp add: remove_at_index_def Let_def)
    moreover have "jid \<notin># waiting gs" using False in_waiting_iff [OF inv j] by simp
    ultimately show ?thesis using inv False by (simp add: same_jobs_def diff_single_trivial)
  next
    case True
    then obtain i where i: "i < length (queue gs)" "queue gs ! i = p" by (meson in_set_conv_nth)
    then have idx: "index (mem gs p) = int i" using gs_invD(2) [OF inv] by (auto simp: index_ok_def)
    obtain g x where rm: "heap_Remove JobQueue_heap gs i = (g, x)" by fastforce
    have g: "?g = g"
      using idx i(1) rm by (simp add: remove_at_index_def JobQueue_Len_def Let_def)
    note fr = heap_Remove_frame [OF gs_invD(2) [OF inv] i(1) rm]
    have c: "x = fst (entries gs ! i)" "heap_ok before (entries g)"
      using jq.heap_Remove_correct [OF gs_invD(1) [OF inv] _ rm] i(1) by simp_all
    have xp: "x = p" using c(1) i by (simp add: entries_def entry_of_def)
    have "waiting gs = add_mset jid (waiting g)"
      using fr gs_invD(4) [OF inv j] xp waiting_same_jobs [of gs g] by (simp add: waiting_def)
    then show ?thesis
      using removal_inv [OF inv c(2) fr] fr xp by (simp add: g)
  qed
  then show "gs_inv ?g" "same_jobs gs ?g" "p \<notin> set (queue ?g)" "waiting ?g = waiting gs - {#jid#}"
    by auto
qed

lemma pop_inv:
  assumes inv: "gs_inv gs" and ne: "queue gs \<noteq> []" and pop: "heap_Pop JobQueue_heap gs = (g, x)"
  shows "gs_inv g" "same_jobs gs g" "x = queue gs ! 0" "x \<notin> set (queue g)"
    "waiting gs = add_mset (ID (mem gs x)) (waiting g)"
    "\<And>q. q \<in> set (queue gs) \<Longrightarrow> \<not> earlier (mem gs q) (mem gs x)"
proof -
  note fr = heap_Pop_frame [OF gs_invD(2) [OF inv] ne pop]
  have c: "x = fst (entries gs ! 0)" "heap_ok before (entries g)"
    using jq.heap_Pop_correct [OF gs_invD(1) [OF inv] _ pop] ne by simp_all
  show x: "x = queue gs ! 0" using c(1) ne by (simp add: entries_def entry_of_def)
  show "gs_inv g" "x \<notin> set (queue g)" using removal_inv [OF inv c(2) fr] by auto
  show "same_jobs gs g" using fr by simp
  then show "waiting gs = add_mset (ID (mem gs x)) (waiting g)"
    using fr waiting_same_jobs [of gs g] by (simp add: waiting_def)
  show "\<not> earlier (mem gs q) (mem gs x)" if "q \<in> set (queue gs)" for q
    using jq.heap_Pop_min [OF gs_invD(1) [OF inv], of "entry_of gs q"] that ne x
    by (auto simp: entries_def before_entry_of)
qed

section \<open>Correctness of the operations\<close>

lemma NewGlobalScheduler_eq:
  "NewGlobalScheduler =
     \<lparr>mem = (\<lambda>_. zero_job), queue = [], next_ptr = 0, jobs = Map.empty, groups = Map.empty,
      MaxQueueSize = 0, OnJobChange = False, OnGroupChange = False, changes = []\<rparr>"
  by (simp add: NewGlobalScheduler_def heap_Init_def JobQueue_Len_def Let_def)

lemma NewGlobalScheduler_inv: "gs_inv NewGlobalScheduler"
  by (simp add: NewGlobalScheduler_eq gs_inv_but_def entries_def index_ok_def heap_ok_def is_heap_def)

text \<open>A newly allocated object is unknown to the queue and to the table.\<close>

lemma queue_allocated: "gs_inv_but X gs \<Longrightarrow> p \<in> set (queue gs) \<Longrightarrow> p < next_ptr gs"
  using gs_invD(5,8) by blast

lemma new_job_inv:
  assumes inv: "gs_inv gs" and new: "new_job gs j = (g, p)"
  shows "gs_inv g" "table g = table gs" "waiting g = waiting gs" "p \<notin> set (queue g)"
    "queue g = queue gs" "mem g p = j" "jobs g = jobs gs" "p < next_ptr g"
proof -
  have g: "g = gs\<lparr>mem := (mem gs)(p := j), next_ptr := Suc p\<rparr>" "p = next_ptr gs"
    using new by (auto simp: new_job_def)
  have old: "q \<noteq> p" if "q \<in> set (queue gs)" for q
    using queue_allocated [OF inv that] g(2) by simp
  have old': "q \<noteq> p" if "jobs gs jid = Some q" for q jid
    using gs_invD(5) [OF inv that] g(2) by simp
  have "entries g = entries gs"
    using old by (auto simp: entries_def entry_of_def g(1))
  moreover have "index_ok g"
    using gs_invD(2) [OF inv] old nth_mem by (fastforce simp: index_ok_def g(1))
  ultimately show "gs_inv g"
    using inv old old' g(2) by (auto simp: gs_inv_but_def g(1) intro: less_SucI)
  show "table g = table gs"
    by (rule ext) (use old' in \<open>auto simp: table_def g(1) split: option.split\<close>)
  have "\<And>q. q \<in># mset (queue gs) \<Longrightarrow> ID (mem g q) = ID (mem gs q)" "queue g = queue gs"
    using old by (auto simp: g(1))
  then show "waiting g = waiting gs"
    unfolding waiting_def by (metis (no_types, lifting) image_mset_cong)
  show "p \<notin> set (queue g)" using old by (auto simp: g(1))
  show "queue g = queue gs" "mem g p = j" "jobs g = jobs gs" "p < next_ptr g" by (simp_all add: g(1))
qed

lemma Enqueue_full: "Enqueue gs p = Inl e \<longleftrightarrow>
    e = QueueFull (MaxQueueSize gs) \<and> 0 < MaxQueueSize gs \<and> MaxQueueSize gs \<le> int (length (queue gs))"
  by (auto simp: Enqueue_def Let_def)

text \<open>Entering a job that the table does not know yet and the queue does not hold.\<close>

lemma Enqueue_inv:
  assumes inv: "gs_inv g" and p: "p \<notin> set (queue g)" "p < next_ptr g"
    and fresh: "jobs g (ID (mem g p)) = None" and unref: "p \<notin> ran (jobs g)"
    and enq: "Enqueue g p = Inr gs'"
  shows "gs_inv gs'"
    "table gs' = (table g)(ID (mem g p) \<mapsto> noidx ((mem g p)\<lparr>State := StateQueued\<rparr>))"
    "waiting gs' = add_mset (ID (mem g p)) (waiting g)"
    "groups gs' = groups g" "MaxQueueSize gs' = MaxQueueSize g"
    "OnJobChange gs' = OnJobChange g" "OnGroupChange gs' = OnGroupChange g"
    "jobs gs' = (jobs g)(ID (mem g p) \<mapsto> p)" "next_ptr gs' = next_ptr g"
    "mset (queue gs') = add_mset p (mset (queue g))"
proof -
  let ?id = "ID (mem g p)"
  define g1 where "g1 = upd_job g p (State_update (\<lambda>_. StateQueued))"
  define g2 where "g2 = g1\<lparr>jobs := (jobs g1)(ID (mem g1 p) \<mapsto> p)\<rparr>"
  define g3 where "g3 = heap_Push JobQueue_heap g2 p"
  have gs': "gs' = notifyJobChange g3 p"
    using enq by (auto simp: Enqueue_def Let_def g1_def g2_def g3_def split: if_splits)
  have i1: "gs_inv g1" unfolding g1_def by (rule gs_inv_upd [OF inv]) simp_all
  have unref': "jobs g jid \<noteq> Some p" for jid using unref by (auto intro: ranI)
  have m1: "mem g1 q = (if q = p then (mem g p)\<lparr>State := StateQueued\<rparr> else mem g q)" for q
    by (simp add: g1_def mem_upd_job)
  have g1: "queue g1 = queue g" "jobs g1 = jobs g" "next_ptr g1 = next_ptr g" by (simp_all add: g1_def)
  have g2: "mem g2 = mem g1" "queue g2 = queue g" "jobs g2 = (jobs g)(?id \<mapsto> p)"
    "next_ptr g2 = next_ptr g" "groups g2 = groups g" "MaxQueueSize g2 = MaxQueueSize g"
    "OnJobChange g2 = OnJobChange g" "OnGroupChange g2 = OnGroupChange g"
    by (simp_all add: g2_def m1 g1) (simp_all add: g1_def)
  have i2: "gs_inv_but {p} g2"
    unfolding gs_inv_but_def
  proof (intro conjI allI impI ballI)
    show "heap_ok before (entries g2)" "index_ok g2" using gs_invD(1,2) [OF i1] by (simp_all add: g2_def)
    fix jid q assume "jobs g2 jid = Some q"
    then have c: "jid = ?id \<and> q = p \<or> jobs g1 jid = Some q \<and> q \<noteq> p"
      using unref' unfolding g2(3) g1(2) by (metis fun_upd_apply option.inject)
    show "ID (mem g2 q) = jid" "q < next_ptr g2"
      using c p(2) gs_invD(4,5) [OF i1, of jid q] by (auto simp: m1 g1 g2)
    show "q \<notin> set (queue g2) \<and> q \<notin> {p} \<Longrightarrow> index (mem g2 q) = -1"
      using c gs_invD(6) [OF i1, of jid q] by (auto simp: m1 g1 g2)
    show "State (mem g2 q) = StateRunning \<Longrightarrow> q \<notin> set (queue g2)"
      using c p(1) gs_invD(7) [OF i1, of jid q] by (auto simp: m1 g1 g2)
  next
    fix q assume q: "q \<in> set (queue g2)"
    then have "q \<noteq> p" using p by (auto simp: g2)
    moreover have "jobs g (ID (mem g q)) = Some q" using q gs_invD(8) [OF inv] by (simp add: g2)
    moreover have "ID (mem g q) \<noteq> ?id" using calculation(2) fresh by auto
    ultimately show "jobs g2 (ID (mem g2 q)) = Some q" by (simp add: m1 g2)
  qed
  have push: "gs_inv g3" "same_jobs g2 g3" "mset (queue g3) = add_mset p (mset (queue g2))"
    unfolding g3_def by (rule push_inv [OF i2]; use p in \<open>simp add: m1 g2\<close>)+
  note f = same_jobs_fields [OF push(2)]
  show "gs_inv gs'" using push(1) by (simp add: gs')
  show "groups gs' = groups g" "MaxQueueSize gs' = MaxQueueSize g" "next_ptr gs' = next_ptr g"
    "OnJobChange gs' = OnJobChange g" "OnGroupChange gs' = OnGroupChange g"
    "jobs gs' = (jobs g)(?id \<mapsto> p)"
    by (simp_all add: gs' f g2)
  show "mset (queue gs') = add_mset p (mset (queue g))" using push(3) by (simp add: gs' g2)
  have "table g2 = (table g)(?id \<mapsto> noidx ((mem g p)\<lparr>State := StateQueued\<rparr>))"
    by (rule ext) (use unref' in \<open>auto simp: table_def m1 g2 split: option.split\<close>)
  then show "table gs' = (table g)(?id \<mapsto> noidx ((mem g p)\<lparr>State := StateQueued\<rparr>))"
    using table_same_jobs [OF push(2)] by (simp add: gs')
  have "waiting g2 = waiting g"
    using waiting_upd [of "State_update (\<lambda>_. StateQueued)" g p] by (simp add: waiting_def g2 g1_def)
  then show "waiting gs' = add_mset ?id (waiting g)"
    using push(3) waiting_same_jobs [OF push(2)] by (simp add: gs' waiting_def g2 m1)
qed

subsection \<open>Taking jobs out\<close>

lemma Dequeue_empty: "waiting gs = {#} \<Longrightarrow> Dequeue gs = (None, gs)"
  by (simp add: Dequeue_def JobQueue_Len_def waiting_def)

lemma Dequeue_spec:
  assumes inv: "gs_inv gs" and ne: "waiting gs \<noteq> {#}" and d: "Dequeue gs = (r, gs')"
  shows "\<exists>j. r = Some j \<and> gs_inv gs' \<and> same_jobs gs gs' \<and> table gs (ID j) = Some (noidx j) \<and>
      waiting gs = add_mset (ID j) (waiting gs') \<and> map_option noidx (Peek gs) = Some (noidx j) \<and>
      (\<forall>k jk. k \<in># waiting gs \<longrightarrow> table gs k = Some jk \<longrightarrow> \<not> earlier jk j)"
proof -
  have q: "queue gs \<noteq> []" using ne by (auto simp: waiting_def)
  obtain g x where pop: "heap_Pop JobQueue_heap gs = (g, x)" by fastforce
  have r: "r = Some (mem g x)" "gs' = g"
    using d q pop by (auto simp: Dequeue_def JobQueue_Len_def)
  note p = pop_inv [OF inv q pop]
  have x: "x \<in> set (queue gs)" using q p(3) by simp
  have nx: "noidx (mem g x) = noidx (mem gs x)" by (rule same_jobs_fields(8) [OF p(2)])
  have ix: "ID (mem g x) = ID (mem gs x)" by (rule noidx_eqD(1) [OF nx])
  have "\<not> earlier jk (mem g x)" if k: "k \<in># waiting gs" and t: "table gs k = Some jk" for k jk
  proof -
    obtain y where y: "y \<in> set (queue gs)" "k = ID (mem gs y)" using k by (auto simp: waiting_def)
    then have "jk = noidx (mem gs y)" using t gs_invD(8) [OF inv y(1)] y(2) by (simp add: table_def)
    then have "earlier jk (mem g x) = earlier (mem gs y) (mem gs x)"
      by (metis earlier_noidx nx)
    then show ?thesis using p(6) [OF y(1)] by simp
  qed
  moreover have "table gs (ID (mem g x)) = Some (noidx (mem g x))"
    using gs_invD(8) [OF inv x] by (simp add: table_def ix nx)
  moreover have "map_option noidx (Peek gs) = Some (noidx (mem g x))"
    using q nx by (simp add: Peek_def JobQueue_Len_def p(3))
  ultimately show ?thesis
    using p(1,2,5) r ix by auto
qed

lemma Peek_Dequeue: "Peek gs = None \<longleftrightarrow> fst (Dequeue gs) = None"
  by (auto simp: Peek_def Dequeue_def split: prod.splits)

text \<open>\<open>Backfill\<close>: the callback's results, and where the loop stops.\<close>

fun match_run :: "(Job \<Rightarrow> 'e \<Rightarrow> bool \<times> 'e) \<Rightarrow> Job list \<Rightarrow> 'e \<Rightarrow> nat option \<times> 'e" where
  "match_run m [] e = (None, e)"
| "match_run m (j # js) e =
     (let (ok, e') = m j e
      in if ok then (Some 0, e') else let (r, e'') = match_run m js e' in (map_option Suc r, e''))"

lemma match_run_bound: "fst (match_run m js e) = Some i \<Longrightarrow> i < length js"
proof (induction js arbitrary: e i)
  case (Cons j js)
  then show ?case by (auto simp: Let_def split: prod.splits if_splits) (metis fst_conv)
qed simp

lemma backfill_loop_eq:
  "backfill_loop m gs i ps e =
     (case match_run m (map (mem gs) ps) e of
        (None, e') \<Rightarrow> (None, gs, e')
      | (Some k, e') \<Rightarrow> let g = fst (heap_Remove JobQueue_heap gs (i + k)) in (Some (mem g (ps ! k)), g, e'))"
proof (induction ps arbitrary: i e)
  case (Cons p ps)
  show ?case
    by (auto simp: Let_def Cons split: prod.splits option.splits)
qed simp

lemma Backfill_spec:
  assumes inv: "gs_inv gs" and bf: "Backfill m gs e = (r, gs', e')"
  shows "e' = snd (match_run m (map (mem gs) (queue gs)) e)"
    and "r = None \<Longrightarrow> gs' = gs \<and> fst (match_run m (map (mem gs) (queue gs)) e) = None"
    and "r = Some j \<Longrightarrow> \<exists>i<length (queue gs). fst (match_run m (map (mem gs) (queue gs)) e) = Some i \<and>
           noidx j = noidx (mem gs (queue gs ! i)) \<and> gs_inv gs' \<and> same_jobs gs gs' \<and>
           table gs (ID j) = Some (noidx j) \<and> waiting gs = add_mset (ID j) (waiting gs')"
proof -
  obtain ri where run: "match_run m (map (mem gs) (queue gs)) e = (ri, snd (match_run m (map (mem gs) (queue gs)) e))"
    by (metis prod.collapse)
  note eq = backfill_loop_eq [of m gs 0 "queue gs" e, folded Backfill_def]
  show "e' = snd (match_run m (map (mem gs) (queue gs)) e)"
    using bf eq by (auto simp: Let_def split: prod.splits option.splits)
  show "gs' = gs \<and> fst (match_run m (map (mem gs) (queue gs)) e) = None" if "r = None"
    using that bf eq by (auto simp: Let_def split: prod.splits option.splits)
  assume r: "r = Some j"
  then obtain i where i: "fst (match_run m (map (mem gs) (queue gs)) e) = Some i"
    "gs' = fst (heap_Remove JobQueue_heap gs i)" "j = mem gs' (queue gs ! i)"
    using bf eq by (auto simp: Let_def split: prod.splits option.splits)
  have len: "i < length (queue gs)" using match_run_bound [OF i(1)] by simp
  obtain x where rm: "heap_Remove JobQueue_heap gs i = (gs', x)" using i(2) by (metis prod.collapse)
  note fr = heap_Remove_frame [OF gs_invD(2) [OF inv] len rm]
  have c: "x = fst (entries gs ! i)" "heap_ok before (entries gs')"
    using jq.heap_Remove_correct [OF gs_invD(1) [OF inv] _ rm] len by simp_all
  have x: "x = queue gs ! i" using c(1) len by (simp add: entries_def entry_of_def)
  have same: "same_jobs gs gs'" using fr by simp
  have nx: "noidx j = noidx (mem gs x)" using same_jobs_fields(8) [OF same] by (simp add: i(3) x)
  have ix: "ID j = ID (mem gs x)" by (rule noidx_eqD(1) [OF nx])
  have "table gs (ID j) = Some (noidx j)"
    using gs_invD(8) [OF inv, of x] len by (simp add: table_def ix nx) (simp add: x)
  moreover have "waiting gs = add_mset (ID j) (waiting gs')"
    using fr waiting_same_jobs [OF same] by (simp add: waiting_def ix)
  ultimately show "\<exists>i<length (queue gs). fst (match_run m (map (mem gs) (queue gs)) e) = Some i \<and>
           noidx j = noidx (mem gs (queue gs ! i)) \<and> gs_inv gs' \<and> same_jobs gs gs' \<and>
           table gs (ID j) = Some (noidx j) \<and> waiting gs = add_mset (ID j) (waiting gs')"
    using len i(1) nx x same removal_inv(1) [OF inv c(2) fr] by blast
qed

subsection \<open>Removal and cancellation by identifier\<close>

lemma RemoveByID_spec:
  assumes inv: "gs_inv gs" and rm: "RemoveByID gs jid = (r, gs')"
  shows "gs_inv gs'" "same_jobs gs gs'"
    "(case table gs jid of
        Some j \<Rightarrow> if State j = StateQueued
                  then map_option noidx r = Some j \<and> waiting gs' = waiting gs - {#jid#} \<and> jid \<notin># waiting gs'
                  else r = None \<and> gs' = gs
      | None \<Rightarrow> r = None \<and> gs' = gs)"
proof -
  have "gs_inv gs' \<and> same_jobs gs gs' \<and> (case table gs jid of
        Some j \<Rightarrow> if State j = StateQueued
                  then map_option noidx r = Some j \<and> waiting gs' = waiting gs - {#jid#} \<and> jid \<notin># waiting gs'
                  else r = None \<and> gs' = gs
      | None \<Rightarrow> r = None \<and> gs' = gs)"
  proof (cases "\<exists>p. jobs gs jid = Some p \<and> State (mem gs p) = StateQueued")
    case False
    then have "r = None \<and> gs' = gs" using rm by (auto simp: RemoveByID_def split: option.splits)
    then show ?thesis using inv False
      by (auto simp: table_def same_jobs_def split: option.splits)
  next
    case True
    then obtain p where p: "jobs gs jid = Some p" "State (mem gs p) = StateQueued" by blast
    note ri = remove_at_index_inv [OF inv p(1)]
    have "gs' = remove_at_index gs p" "r = Some (mem gs' p)"
      using rm p by (auto simp: RemoveByID_def Let_def)
    then show ?thesis
      using ri p in_waiting_iff [OF ri(1), of jid p] same_jobs_fields [OF ri(2)]
      by (auto simp: table_def)
  qed
  then show "gs_inv gs'" "same_jobs gs gs'"
    "(case table gs jid of
        Some j \<Rightarrow> if State j = StateQueued
                  then map_option noidx r = Some j \<and> waiting gs' = waiting gs - {#jid#} \<and> jid \<notin># waiting gs'
                  else r = None \<and> gs' = gs
      | None \<Rightarrow> r = None \<and> gs' = gs)" by blast+
qed

text \<open>Fields no operation on single jobs changes.\<close>

definition same_rest :: "GlobalScheduler \<Rightarrow> GlobalScheduler \<Rightarrow> bool" where
  "same_rest g h \<longleftrightarrow> jobs h = jobs g \<and> groups h = groups g \<and> next_ptr h = next_ptr g \<and>
     MaxQueueSize h = MaxQueueSize g \<and> OnJobChange h = OnJobChange g \<and> OnGroupChange h = OnGroupChange g"

lemma same_rest_refl [simp]: "same_rest g g"
  by (simp add: same_rest_def)

lemma same_rest_trans [trans]: "same_rest f g \<Longrightarrow> same_rest g h \<Longrightarrow> same_rest f h"
  by (simp add: same_rest_def)

lemma same_rest_steps [simp]:
  "same_rest g (notifyJobChange h p) = same_rest g h" "same_rest g (upd_job h p f) = same_rest g h"
  "same_jobs g h \<Longrightarrow> same_rest g h"
  by (simp_all add: same_rest_def same_jobs_fields)

definition cancelled :: "Time \<Rightarrow> Job \<Rightarrow> Job" where
  "cancelled now j = j\<lparr>State := StateCancelled, EndTime := now\<rparr>"

definition active :: "Job \<Rightarrow> bool" where
  "active j \<longleftrightarrow> State j = StateQueued \<or> State j = StateRunning"

lemma active_noidx [simp]: "active (noidx j) = active j"
  by (simp add: active_def)

lemma Cancel_inactive:
  "(case table gs jid of Some j \<Rightarrow> \<not> active j | None \<Rightarrow> True) \<Longrightarrow>
     snd (Cancel now gs jid) = (False, gs) \<and> map_option noidx (fst (Cancel now gs jid)) = table gs jid"
  by (auto simp: Cancel_def table_def active_def split: option.splits)

lemma Cancel_active:
  assumes inv: "gs_inv gs" and t: "table gs jid = Some j" "active j"
    and c: "Cancel now gs jid = (r, ok, gs')"
  shows "ok" "map_option noidx r = Some (cancelled now j)" "gs_inv gs'" "same_rest gs gs'"
    "table gs' = (table gs)(jid \<mapsto> cancelled now j)" "waiting gs' = waiting gs - {#jid#}"
proof -
  obtain p where p: "jobs gs jid = Some p" "j = noidx (mem gs p)"
    using t(1) by (auto simp: table_def split: option.splits)
  let ?f = "\<lambda>j. j\<lparr>State := StateCancelled, EndTime := now\<rparr>"
  define g where "g = (if State (mem gs p) = StateQueued then remove_at_index gs p else gs)"
  have g: "gs_inv g" "same_jobs gs g" "waiting g = waiting gs - {#jid#}"
    using inv remove_at_index_inv [OF inv p(1)] t p in_waiting_iff [OF inv p(1)] gs_invD(7) [OF inv p(1)]
    by (auto simp: g_def same_jobs_def active_def diff_single_trivial)
  have eq: "ok" "gs' = notifyJobChange (upd_job g p ?f) p" "r = Some (?f (mem g p))"
    using c p t(2) by (auto simp: Cancel_def g_def Let_def active_def mem_upd_job split: if_splits)
  have nf: "noidx (?f (mem g p)) = cancelled now j"
    using same_jobs_fields(8) [OF g(2), of p] p(2) by (simp add: cancelled_def)
  show "ok" by (rule eq(1))
  show "map_option noidx r = Some (cancelled now j)" using nf by (simp add: eq)
  show "gs_inv gs'" unfolding eq gs_inv_notify by (rule gs_inv_upd [OF g(1)]) simp_all
  show "same_rest gs gs'" using g(2) by (simp add: eq)
  have "jobs g jid = Some p" using p(1) same_jobs_fields(1) [OF g(2)] by simp
  then show "table gs' = (table gs)(jid \<mapsto> cancelled now j)"
    using table_upd [OF g(1), of jid p ?f] table_same_jobs [OF g(2)] nf by (simp add: eq)
  show "waiting gs' = waiting gs - {#jid#}"
    using g(3) waiting_upd [of ?f g p] by (simp add: eq)
qed

subsection \<open>Back into the queue\<close>

text \<open>A job outside the queue may be rewritten freely, but for its identifier.\<close>

lemma gs_inv_upd_out:
  assumes inv: "gs_inv gs" and p: "p \<notin> set (queue gs)" and f: "ID (f (mem gs p)) = ID (mem gs p)"
  shows "gs_inv_but {p} (upd_job gs p f)"
proof -
  have q: "q \<noteq> p" if "q \<in> set (queue gs)" for q using p that by auto
  have nth: "queue gs ! i \<noteq> p" if "i < length (queue gs)" for i using q nth_mem that by blast
  have "entries (upd_job gs p f) = entries gs"
    using q by (auto simp: entries_def entry_of_def mem_upd_job)
  moreover have "index_ok (upd_job gs p f) = index_ok gs"
    using nth by (simp add: index_ok_def mem_upd_job)
  ultimately show ?thesis
    using inv p f q by (auto simp: gs_inv_but_def mem_upd_job)
qed

lemma push_job:
  assumes inv: "gs_inv gs" and j: "jobs gs jid = Some p" and w: "jid \<notin># waiting gs"
    and f: "ID (f (mem gs p)) = ID (mem gs p)" "State (f (mem gs p)) \<noteq> StateRunning"
    and g: "g = heap_Push JobQueue_heap (upd_job gs p f) p"
  shows "gs_inv g" "same_rest gs g" "table g = (table gs)(jid \<mapsto> noidx (f (mem gs p)))"
    "waiting g = add_mset jid (waiting gs)" "noidx (mem g p) = noidx (f (mem gs p))"
proof -
  let ?u = "upd_job gs p f"
  have p: "p \<notin> set (queue gs)" using w in_waiting_iff [OF inv j] by simp
  have iu: "gs_inv_but {p} ?u" using inv p f(1) by (rule gs_inv_upd_out)
  have jid: "ID (mem gs p) = jid" by (rule gs_invD(4) [OF inv j])
  have push: "gs_inv g" "same_jobs ?u g" "mset (queue g) = add_mset p (mset (queue ?u))"
    unfolding g by (rule push_inv [OF iu]; use p j jid f in \<open>simp add: mem_upd_job\<close>)+
  show "gs_inv g" by (rule push(1))
  show "same_rest gs g" using same_rest_steps(3) [OF push(2)] by (simp add: same_rest_def)
  show "table g = (table gs)(jid \<mapsto> noidx (f (mem gs p)))"
    using table_same_jobs [OF push(2)] table_upd [OF inv j] by simp
  show "waiting g = add_mset jid (waiting gs)"
    using push(3) waiting_same_jobs [OF push(2)] waiting_upd [of f gs p] jid f(1)
    by (simp add: waiting_def mem_upd_job)
  show "noidx (mem g p) = noidx (f (mem gs p))"
    using same_jobs_fields(8) [OF push(2), of p] by (simp add: mem_upd_job)
qed

definition requeued :: "bool \<Rightarrow> Job \<Rightarrow> Job" where
  "requeued incrementRetry j =
     j\<lparr>RetryCount := (if incrementRetry then i64 (RetryCount j + 1) else RetryCount j),
       State := StateQueued, WorkerNode := [], StartTime := zero_time, EndTime := zero_time,
       Output := [], Error := []\<rparr>"

lemma Requeue_unknown: "table gs jid = None \<Longrightarrow> Requeue gs jid inc = Inl JobNotFound"
  by (simp add: Requeue_def table_None)

lemma upd_job_upd_job [simp]: "upd_job (upd_job gs p f) p f' = upd_job gs p (\<lambda>j. f' (f j))"
  by (simp add: upd_job_def)

lemma Requeue_spec:
  assumes inv: "gs_inv gs" and t: "table gs jid = Some j" and w: "jid \<notin># waiting gs"
  shows "\<exists>r gs'. Requeue gs jid inc = Inr (r, gs') \<and> map_option noidx r = Some (requeued inc j) \<and>
      gs_inv gs' \<and> same_rest gs gs' \<and> table gs' = (table gs)(jid \<mapsto> requeued inc j) \<and>
      waiting gs' = add_mset jid (waiting gs)"
proof -
  obtain p where p: "jobs gs jid = Some p" "j = noidx (mem gs p)"
    using t by (auto simp: table_def split: option.splits)
  define f where "f = (\<lambda>j::Job. j\<lparr>RetryCount := (if inc then i64 (RetryCount j + 1) else RetryCount j),
       State := StateQueued, WorkerNode := [], StartTime := zero_time, EndTime := zero_time,
       Output := [], Error := [], index := -1\<rparr>)"
  define g where "g = heap_Push JobQueue_heap (upd_job gs p f) p"
  have fj: "noidx (f (mem gs p)) = requeued inc j"
    by (simp add: f_def p(2) requeued_def)
  have fields: "ID (f (mem gs p)) = ID (mem gs p)" "State (f (mem gs p)) \<noteq> StateRunning"
    by (simp_all add: f_def)
  note pj = push_job [OF inv p(1) w fields g_def, unfolded fj]
  have "Requeue gs jid inc = Inr (Some (mem g p), notifyJobChange g p)"
    by (cases inc) (simp_all add: Requeue_def p(1) g_def f_def Let_def)
  then show ?thesis using pj by simp
qed

lemma RequeueRunningJob_spec:
  assumes inv: "gs_inv gs" and t: "table gs jid = Some j" and st: "State j = StateRunning"
    and r: "RequeueRunningJob gs jid = (r, ok, gs')"
  defines "j' \<equiv> j\<lparr>State := StateQueued, WorkerNode := [], StartTime := zero_time\<rparr>"
  shows "ok" "map_option noidx r = Some j'" "gs_inv gs'" "same_rest gs gs'"
    "table gs' = (table gs)(jid \<mapsto> j')" "waiting gs' = add_mset jid (waiting gs)"
proof -
  obtain p where p: "jobs gs jid = Some p" "j = noidx (mem gs p)"
    using t by (auto simp: table_def split: option.splits)
  define f where "f = (\<lambda>j::Job. j\<lparr>State := StateQueued, WorkerNode := [], StartTime := zero_time\<rparr>)"
  define g where "g = heap_Push JobQueue_heap (upd_job gs p f) p"
  have run: "State (mem gs p) = StateRunning" using st p(2) by (simp add:)
  have w: "jid \<notin># waiting gs"
    using gs_invD(7) [OF inv p(1) run] in_waiting_iff [OF inv p(1)] by simp
  have fj: "noidx (f (mem gs p)) = j'"
    by (simp add: f_def p(2) j'_def)
  have fields: "ID (f (mem gs p)) = ID (mem gs p)" "State (f (mem gs p)) \<noteq> StateRunning"
    by (simp_all add: f_def)
  note pj = push_job [OF inv p(1) w fields g_def, unfolded fj]
  have eq: "r = Some (mem g p)" "ok" "gs' = notifyJobChange g p"
    using r run by (auto simp: RequeueRunningJob_def p(1) g_def f_def Let_def)
  show "ok" "map_option noidx r = Some j'" "gs_inv gs'" "same_rest gs gs'"
    "table gs' = (table gs)(jid \<mapsto> j')" "waiting gs' = add_mset jid (waiting gs)"
    using pj eq by simp_all
qed

lemma RequeueRunningJob_other:
  "(case table gs jid of Some j \<Rightarrow> State j \<noteq> StateRunning | None \<Rightarrow> True) \<Longrightarrow>
     RequeueRunningJob gs jid = (None, False, gs)"
  by (auto simp: RequeueRunningJob_def table_def split: option.splits)

subsection \<open>State marks\<close>

lemma MarkRunning_unknown: "table gs jid = None \<Longrightarrow> MarkRunning now gs jid node = gs"
  by (simp add: MarkRunning_def table_None)

lemma MarkRunning_spec:
  assumes inv: "gs_inv gs" and t: "table gs jid = Some j" and w: "jid \<notin># waiting gs"
    and gs'_def: "gs' = MarkRunning now gs jid node"
  shows "gs_inv gs'" "same_rest gs gs'" "waiting gs' = waiting gs"
    "table gs' = (table gs)(jid \<mapsto> j\<lparr>State := StateRunning, WorkerNode := node, StartTime := now\<rparr>)"
proof -
  obtain p where p: "jobs gs jid = Some p" "j = noidx (mem gs p)"
    using t by (auto simp: table_def split: option.splits)
  let ?f = "\<lambda>j. j\<lparr>State := StateRunning, WorkerNode := node, StartTime := now\<rparr>"
  have eq: "gs' = notifyJobChange (upd_job gs p ?f) p"
    by (simp add: gs'_def MarkRunning_def p(1))
  have pq: "p \<notin> set (queue gs)" using w in_waiting_iff [OF inv p(1)] by simp
  show "gs_inv gs'" unfolding eq gs_inv_notify by (rule gs_inv_upd [OF inv]) (simp_all add: pq)
  show "same_rest gs gs'" by (simp add: eq)
  show "waiting gs' = waiting gs" by (simp add: eq waiting_upd)
  show "table gs' = (table gs)(jid \<mapsto> j\<lparr>State := StateRunning, WorkerNode := node, StartTime := now\<rparr>)"
    using table_upd [OF inv p(1), of ?f] by (simp add: eq p(2))
qed

definition finished :: "Time \<Rightarrow> bool \<Rightarrow> string \<Rightarrow> string \<Rightarrow> Job \<Rightarrow> Job" where
  "finished now success output errMsg j =
     (if State j = StateCancelled then j
      else j\<lparr>State := (if success then StateCompleted else StateFailed),
             Output := output, Error := errMsg, EndTime := now\<rparr>)"

lemma MarkCompleted_unknown: "table gs jid = None \<Longrightarrow> MarkCompleted now gs jid s out err = gs"
  by (simp add: MarkCompleted_def table_None)

lemma MarkCompleted_spec:
  assumes inv: "gs_inv gs" and t: "table gs jid = Some j"
    and gs'_def: "gs' = MarkCompleted now gs jid success out err"
  shows "gs_inv gs'" "same_rest gs gs'" "waiting gs' = waiting gs"
    "table gs' = (table gs)(jid \<mapsto> finished now success out err j)"
proof -
  obtain p where p: "jobs gs jid = Some p" "j = noidx (mem gs p)"
    using t by (auto simp: table_def split: option.splits)
  let ?f = "\<lambda>j. j\<lparr>State := (if success then StateCompleted else StateFailed),
             Output := out, Error := err, EndTime := now\<rparr>"
  have eq: "gs' = (if State j = StateCancelled then gs else notifyJobChange (upd_job gs p ?f) p)"
    by (simp add: gs'_def MarkCompleted_def p)
  show "gs_inv gs'" using inv gs_inv_upd [OF inv, of ?f p] by (auto simp: eq split: if_splits)
  show "same_rest gs gs'" by (simp add: eq)
  show "waiting gs' = waiting gs" by (simp add: eq waiting_upd)
  show "table gs' = (table gs)(jid \<mapsto> finished now success out err j)"
    using table_upd [OF inv p(1), of ?f] t by (auto simp: eq finished_def p(2))
qed

end
