(* ===== verification/Store.thy ===== *)
theory Store
  imports Global_Scheduler Complex_Main
begin

text \<open>
  \<open>internal/store/store.go\<close>: four buckets of a BoltDB file. BoltDB is third-party code;
  what the store relies on is its documented behaviour: a bucket is a table of keys, a
  transaction that does not commit changes nothing (whether it commits is the argument
  \<open>ok\<close>), an empty key is refused, and \<open>ForEach\<close> visits the keys in order (the argument
  \<open>order\<close> of the loads). A value is the JSON text of a record; it is represented by the
  record that decoding gives back, or \<open>Corrupt\<close> for a text that does not decode. Strings
  are taken to be UTF-8, which JSON preserves, and instants lie in the years it can write.
\<close>

datatype 'a data = Encoded 'a | Corrupt

record Store =
  bucketJobs :: "string \<rightharpoonup> Job data"
  bucketGroups :: "string \<rightharpoonup> JobGroup data"
  bucketFairshare :: "(string \<rightharpoonup> rat) data option"
  bucketDeadLetters :: "string \<rightharpoonup> Job data"

datatype store_error = NotCommitted | KeyRequired | NotFound | BadJSON

text \<open>
  What comes back from the JSON text of a job: the field \<open>index\<close> is not exported, and an
  empty environment is omitted and so comes back as nil.
\<close>

definition stored_job :: "Job \<Rightarrow> Job" where
  "stored_job j = (noidx j)\<lparr>EnvVars := (if EnvVars j = Some Map.empty then None else EnvVars j)\<rparr>"

definition put_record :: "bool \<Rightarrow> string \<Rightarrow> Store \<Rightarrow> store_error + Store" where
  "put_record ok key s = (if \<not> ok then Inl NotCommitted else if key = [] then Inl KeyRequired else Inr s)"

definition SaveJob :: "bool \<Rightarrow> Store \<Rightarrow> Job \<Rightarrow> store_error + Store" where
  "SaveJob ok s job =
     put_record ok (ID job) (s\<lparr>bucketJobs := (bucketJobs s)(ID job \<mapsto> Encoded (stored_job job))\<rparr>)"

definition load_all :: "string list \<Rightarrow> (string \<rightharpoonup> 'a data) \<Rightarrow> 'a list" where
  "load_all order b = concat (map (\<lambda>k. case b k of Some (Encoded x) \<Rightarrow> [x] | _ \<Rightarrow> []) order)"

definition LoadJobs :: "string list \<Rightarrow> Store \<Rightarrow> Job list" where
  "LoadJobs order s = load_all order (bucketJobs s)"

definition DeleteJob :: "bool \<Rightarrow> Store \<Rightarrow> string \<Rightarrow> store_error + Store" where
  "DeleteJob ok s jobID =
     (if \<not> ok then Inl NotCommitted else Inr (s\<lparr>bucketJobs := (bucketJobs s)(jobID := None)\<rparr>))"

definition read_record :: "'a data option \<Rightarrow> store_error + 'a" where
  "read_record v = (case v of None \<Rightarrow> Inl NotFound | Some Corrupt \<Rightarrow> Inl BadJSON | Some (Encoded x) \<Rightarrow> Inr x)"

definition Store_GetJob :: "Store \<Rightarrow> string \<Rightarrow> store_error + Job" where
  "Store_GetJob s jobID = read_record (bucketJobs s jobID)"

definition SaveGroup :: "bool \<Rightarrow> Store \<Rightarrow> JobGroup \<Rightarrow> store_error + Store" where
  "SaveGroup ok s g =
     put_record ok (gGroupID g) (s\<lparr>bucketGroups := (bucketGroups s)(gGroupID g \<mapsto> Encoded g)\<rparr>)"

definition LoadGroups :: "string list \<Rightarrow> Store \<Rightarrow> JobGroup list" where
  "LoadGroups order s = load_all order (bucketGroups s)"

definition SaveFairshare :: "bool \<Rightarrow> Store \<Rightarrow> (string \<rightharpoonup> rat) \<Rightarrow> store_error + Store" where
  "SaveFairshare ok s usage = put_record ok ''usage'' (s\<lparr>bucketFairshare := Some (Encoded usage)\<rparr>)"

definition LoadFairshare :: "Store \<Rightarrow> store_error + (string \<rightharpoonup> rat)" where
  "LoadFairshare s =
     (case bucketFairshare s of
        None \<Rightarrow> Inr Map.empty | Some Corrupt \<Rightarrow> Inl BadJSON | Some (Encoded usage) \<Rightarrow> Inr usage)"

definition SaveDeadLetter :: "bool \<Rightarrow> Store \<Rightarrow> Job \<Rightarrow> store_error + Store" where
  "SaveDeadLetter ok s job =
     put_record ok (ID job) (s\<lparr>bucketDeadLetters := (bucketDeadLetters s)(ID job \<mapsto> Encoded (stored_job job))\<rparr>)"

definition LoadDeadLetters :: "string list \<Rightarrow> Store \<Rightarrow> Job list" where
  "LoadDeadLetters order s = load_all order (bucketDeadLetters s)"

definition GetDeadLetter :: "Store \<Rightarrow> string \<Rightarrow> store_error + Job" where
  "GetDeadLetter s jobID = read_record (bucketDeadLetters s jobID)"

text \<open>A caller that ignores or only logs the error.\<close>

definition unless_error :: "Store \<Rightarrow> store_error + Store \<Rightarrow> Store" where
  "unless_error s r = (case r of Inl _ \<Rightarrow> s | Inr s' \<Rightarrow> s')"

definition empty_store :: Store where
  "empty_store = \<lparr>bucketJobs = Map.empty, bucketGroups = Map.empty, bucketFairshare = None, bucketDeadLetters = Map.empty\<rparr>"

text \<open>
  Opening the file, with the outcome of each call as an argument. \<open>bolt.Open\<close> is called
  without options, hence without a timeout: while another process holds the lock of the
  file it does not return. Buckets that exist are kept.
\<close>

datatype open_outcome = DirError | WaitsForLock | OpenError | BucketError | Opened Store

definition Open :: "bool \<Rightarrow> bool \<Rightarrow> bool \<Rightarrow> bool \<Rightarrow> Store option \<Rightarrow> open_outcome" where
  "Open dir_ok locked open_ok buckets_ok contents =
     (if \<not> dir_ok then DirError
      else if locked then WaitsForLock
      else if \<not> open_ok then OpenError
      else if \<not> buckets_ok then BucketError
      else Opened (case contents of None \<Rightarrow> empty_store | Some s \<Rightarrow> s))"

subsection \<open>The buckets as keyed tables\<close>

definition put_job :: "Store \<Rightarrow> string \<Rightarrow> Job data \<Rightarrow> Store" where
  "put_job s k v = s\<lparr>bucketJobs := (bucketJobs s)(k \<mapsto> v)\<rparr>"

definition put_dead :: "Store \<Rightarrow> string \<Rightarrow> Job data \<Rightarrow> Store" where
  "put_dead s k v = s\<lparr>bucketDeadLetters := (bucketDeadLetters s)(k \<mapsto> v)\<rparr>"

definition put_group :: "Store \<Rightarrow> string \<Rightarrow> JobGroup data \<Rightarrow> Store" where
  "put_group s k v = s\<lparr>bucketGroups := (bucketGroups s)(k \<mapsto> v)\<rparr>"

interpretation jobs_bucket: kv_table bucketJobs put_job
  by unfold_locales (simp add: put_job_def)

interpretation dead_bucket: kv_table bucketDeadLetters put_dead
  by unfold_locales (simp add: put_dead_def)

interpretation groups_bucket: kv_table bucketGroups put_group
  by unfold_locales (simp add: put_group_def)

lemma SaveJob_put: "SaveJob ok s j = put_record ok (ID j) (put_job s (ID j) (Encoded (stored_job j)))"
  by (simp add: SaveJob_def put_job_def)

lemma unless_error_put [simp]: "unless_error s (put_record ok k s') = (if ok \<and> k \<noteq> [] then s' else s)"
  by (simp add: unless_error_def put_record_def)

lemma stored_job_sel [simp]:
  "ID (stored_job j) = ID j" "State (stored_job j) = State j" "GroupID (stored_job j) = GroupID j"
  "Priority (stored_job j) = Priority j" "SubmitTime (stored_job j) = SubmitTime j"
  "stored_job (noidx j) = stored_job j" "stored_job (stored_job j) = stored_job j"
  by (simp_all add: stored_job_def noidx_def)

lemma load_all_mem: "range_order order b \<Longrightarrow> x \<in> set (load_all order b) \<longleftrightarrow> (\<exists>k. b k = Some (Encoded x))"
proof -
  have "x \<in> set (load_all order b) \<longleftrightarrow> (\<exists>k\<in>set order. b k = Some (Encoded x))"
    by (auto simp: load_all_def intro!: bexI split: option.splits data.splits)
  then show "range_order order b \<Longrightarrow> ?thesis" by (auto simp: range_order_def)
qed

text \<open>
  What the store gives back for a job is what was saved last: after any sequence of
  committed saves a job reads as its last saved version, a job that was not among them
  reads as before, and a save that does not commit, or has an empty identifier, is an
  error that changes nothing.
\<close>

theorem store_roundtrip:
  "Store_GetJob (foldl (\<lambda>s j. unless_error s (SaveJob True s j)) s js) jid =
      (case find (\<lambda>j. ID j = jid \<and> jid \<noteq> []) (rev js) of
         Some j \<Rightarrow> Inr (stored_job j) | None \<Rightarrow> Store_GetJob s jid) \<and>
   SaveJob False s j = Inl NotCommitted \<and> unless_error s (SaveJob False s j) = s \<and>
   unless_error s (SaveJob True s (j\<lparr>ID := []\<rparr>)) = s"
proof -
  have "Store_GetJob (foldl (\<lambda>s j. unless_error s (SaveJob True s j)) s js) jid =
      (case find (\<lambda>j. ID j = jid \<and> jid \<noteq> []) (rev js) of
         Some j \<Rightarrow> Inr (stored_job j) | None \<Rightarrow> Store_GetJob s jid)"
  proof (induction js rule: rev_induct)
    case (snoc j js)
    then show ?case
      by (auto simp: SaveJob_put Store_GetJob_def jobs_bucket.get_put read_record_def)
  qed simp
  then show ?thesis by (simp add: SaveJob_put) (simp add: put_record_def)
qed

end
