(* ===== verification/Scheduler_Steps.thy ===== *)
theory Scheduler_Steps
  imports Global_Scheduler
begin

text \<open>
  Sequences of scheduler operations. \<open>sched_op\<close> names the methods of \<open>GlobalScheduler\<close>
  that change its state, \<open>exec\<close> runs one, and \<open>reach\<close> collects the states of all
  histories in which the callers keep three rules: a new job has a new identifier, and a
  job that waits in the queue is neither marked running nor pushed a second time. The
  callback of \<open>Backfill\<close> sees the exported fields of a job. The relation \<open>spec_step\<close> is the
  abstract scheduler: a table of jobs and a multiset of waiting identifiers.
\<close>

datatype sched_op =
    OpEnqueue Job
  | OpDequeue
  | OpBackfill "Job \<Rightarrow> bool"
  | OpRemove string
  | OpCancel Time string
  | OpRequeue string bool
  | OpRunning Time string string
  | OpRequeueRunning string
  | OpCompleted Time string bool string string
  | OpRegister JobGroup
  | OpGroupState string string

fun exec :: "sched_op \<Rightarrow> GlobalScheduler \<Rightarrow> GlobalScheduler" where
  "exec (OpEnqueue j) gs =
     (let (g, p) = new_job gs j in case Enqueue g p of Inl _ \<Rightarrow> g | Inr g' \<Rightarrow> g')"
| "exec OpDequeue gs = snd (Dequeue gs)"
| "exec (OpBackfill P) gs = fst (snd (Backfill (\<lambda>j e. (P (noidx j), e)) gs ()))"
| "exec (OpRemove jid) gs = snd (RemoveByID gs jid)"
| "exec (OpCancel now jid) gs = snd (snd (Cancel now gs jid))"
| "exec (OpRequeue jid inc) gs = (case Requeue gs jid inc of Inl _ \<Rightarrow> gs | Inr (_, g) \<Rightarrow> g)"
| "exec (OpRunning now jid node) gs = MarkRunning now gs jid node"
| "exec (OpRequeueRunning jid) gs = snd (snd (RequeueRunningJob gs jid))"
| "exec (OpCompleted now jid ok out err) gs = MarkCompleted now gs jid ok out err"
| "exec (OpRegister g) gs = RegisterGroup gs g"
| "exec (OpGroupState gid st) gs = SetGroupState gs gid st"

fun allowed :: "GlobalScheduler \<Rightarrow> sched_op \<Rightarrow> bool" where
  "allowed gs (OpEnqueue j) = (jobs gs (ID j) = None)"
| "allowed gs (OpRequeue jid inc) = (jid \<notin># waiting gs)"
| "allowed gs (OpRunning now jid node) = (jid \<notin># waiting gs)"
| "allowed gs _ = True"

inductive reach :: "GlobalScheduler \<Rightarrow> bool" where
  start: "reach (NewGlobalScheduler\<lparr>MaxQueueSize := n, OnJobChange := a, OnGroupChange := b\<rparr>)"
| step: "reach gs \<Longrightarrow> allowed gs op \<Longrightarrow> reach (exec op gs)"

inductive_cases reach_cases: "reach gs"

lemma gs_inv_config [simp]:
  "gs_inv_but X (gs\<lparr>MaxQueueSize := n\<rparr>) = gs_inv_but X gs"
  "gs_inv_but X (gs\<lparr>OnJobChange := a\<rparr>) = gs_inv_but X gs"
  "gs_inv_but X (gs\<lparr>OnGroupChange := b\<rparr>) = gs_inv_but X gs"
  by (rule gs_inv_cong; simp)+

lemma new_unreferenced: "gs_inv gs \<Longrightarrow> new_job gs j = (g, p) \<Longrightarrow> p \<notin> ran (jobs g)"
  by (auto simp: new_job_def ran_def dest: gs_invD(5))

lemma exec_Enqueue_inv:
  assumes inv: "gs_inv gs" and fresh: "jobs gs (ID j) = None"
  shows "gs_inv (exec (OpEnqueue j) gs)"
proof -
  obtain g p where new: "new_job gs j = (g, p)" by fastforce
  note n = new_job_inv [OF inv new]
  show ?thesis
  proof (cases "Enqueue g p")
    case (Inr g')
    have "gs_inv g'"
      using Enqueue_inv(1) [OF n(1,4,8) _ new_unreferenced [OF inv new] Inr] fresh n by simp
    then show ?thesis using new Inr by simp
  qed (use n new in simp)
qed

lemma SetGroupState_inv [simp]: "gs_inv_but X (SetGroupState gs gid st) = gs_inv_but X gs"
  by (simp add: SetGroupState_def split: option.split)

lemma RegisterGroup_inv [simp]: "gs_inv_but X (RegisterGroup gs g) = gs_inv_but X gs"
  by (simp add: RegisterGroup_def)

lemma Cancel_inv:
  assumes inv: "gs_inv gs"
  shows "gs_inv (snd (snd (Cancel now gs jid)))"
proof (cases "case table gs jid of Some j \<Rightarrow> \<not> active j | None \<Rightarrow> True")
  case True
  then show ?thesis using Cancel_inactive inv by simp
next
  case False
  then obtain j where "table gs jid = Some j" "active j" by (auto split: option.splits)
  then show ?thesis using Cancel_active(3) [OF inv] by (metis prod.collapse)
qed

lemma Backfill_inv:
  assumes inv: "gs_inv gs"
  shows "gs_inv (fst (snd (Backfill m gs e)))"
proof -
  obtain r g e' where b: "Backfill m gs e = (r, g, e')" by (metis prod_cases3)
  show ?thesis
    using Backfill_spec(2,3) [OF inv b] inv by (cases r) (auto simp: b)
qed

lemma Dequeue_inv: "gs_inv gs \<Longrightarrow> gs_inv (snd (Dequeue gs))"
  using Dequeue_spec [of gs] Dequeue_empty [of gs]
  by (cases "waiting gs = {#}") (auto dest!: Dequeue_spec [where r = "fst (Dequeue gs)" and gs' = "snd (Dequeue gs)"])

lemma Requeue_inv: "gs_inv gs \<Longrightarrow> jid \<notin># waiting gs \<Longrightarrow> Requeue gs jid inc = Inr (r, g) \<Longrightarrow> gs_inv g"
  using Requeue_unknown [of gs jid inc] Requeue_spec [of gs jid _ inc]
  by (cases "table gs jid") fastforce+

lemma MarkRunning_inv: "gs_inv gs \<Longrightarrow> jid \<notin># waiting gs \<Longrightarrow> gs_inv (MarkRunning now gs jid node)"
  using MarkRunning_unknown [of gs jid now node] MarkRunning_spec(1) [of gs jid]
  by (cases "table gs jid") auto

lemma MarkCompleted_inv: "gs_inv gs \<Longrightarrow> gs_inv (MarkCompleted now gs jid ok out err)"
  using MarkCompleted_unknown [of gs jid now ok out err] MarkCompleted_spec(1) [of gs jid]
  by (cases "table gs jid") auto

lemma RequeueRunningJob_inv:
  assumes inv: "gs_inv gs"
  shows "gs_inv (snd (snd (RequeueRunningJob gs jid)))"
proof (cases "case table gs jid of Some j \<Rightarrow> State j \<noteq> StateRunning | None \<Rightarrow> True")
  case True
  then show ?thesis using RequeueRunningJob_other inv by simp
next
  case False
  then obtain j where "table gs jid = Some j" "State j = StateRunning" by (auto split: option.splits)
  then show ?thesis using RequeueRunningJob_spec(3) [OF inv] by (metis prod.collapse)
qed

lemma exec_inv:
  assumes inv: "gs_inv gs" and ok: "allowed gs op"
  shows "gs_inv (exec op gs)"
proof (cases op)
  case (OpEnqueue j)
  then show ?thesis using exec_Enqueue_inv inv ok by simp
next
  case (OpRemove jid)
  then show ?thesis using RemoveByID_spec(1) [OF inv] by (metis exec.simps(4) prod.collapse)
qed (use inv ok Dequeue_inv Backfill_inv Cancel_inv Requeue_inv MarkRunning_inv MarkCompleted_inv
      RequeueRunningJob_inv in \<open>auto split: sum.splits\<close>)

lemma reach_inv: "reach gs \<Longrightarrow> gs_inv gs"
  by (induction rule: reach.induct) (simp_all add: NewGlobalScheduler_inv exec_inv)

section \<open>The abstract scheduler as a step relation\<close>

type_synonym abs_state = "(string \<rightharpoonup> Job) \<times> string multiset"

definition abs_of :: "GlobalScheduler \<Rightarrow> abs_state" where
  "abs_of gs = (table gs, waiting gs)"

inductive spec_step :: "int \<Rightarrow> sched_op \<Rightarrow> abs_state \<Rightarrow> abs_state \<Rightarrow> bool" for n :: int where
  enqueue: "\<not> (0 < n \<and> n \<le> int (size W)) \<Longrightarrow>
    spec_step n (OpEnqueue j) (T, W) (T(ID j \<mapsto> noidx (j\<lparr>State := StateQueued\<rparr>)), add_mset (ID j) W)"
| full: "0 < n \<Longrightarrow> n \<le> int (size W) \<Longrightarrow> spec_step n (OpEnqueue j) (T, W) (T, W)"
| dequeue: "T jid = Some j \<Longrightarrow> jid \<in># W \<Longrightarrow>
    (\<And>k jk. k \<in># W \<Longrightarrow> T k = Some jk \<Longrightarrow> \<not> earlier jk j) \<Longrightarrow>
    spec_step n OpDequeue (T, W) (T, W - {#jid#})"
| dequeue_empty: "spec_step n OpDequeue (T, {#}) (T, {#})"
| backfill: "T jid = Some j \<Longrightarrow> jid \<in># W \<Longrightarrow> P j \<Longrightarrow>
    spec_step n (OpBackfill P) (T, W) (T, W - {#jid#})"
| backfill_none: "(\<And>k jk. k \<in># W \<Longrightarrow> T k = Some jk \<Longrightarrow> \<not> P jk) \<Longrightarrow>
    spec_step n (OpBackfill P) (T, W) (T, W)"
| remove: "T jid = Some j \<Longrightarrow> State j = StateQueued \<Longrightarrow>
    spec_step n (OpRemove jid) (T, W) (T, W - {#jid#})"
| remove_none: "(\<And>j. T jid = Some j \<Longrightarrow> State j \<noteq> StateQueued) \<Longrightarrow> spec_step n (OpRemove jid) (T, W) (T, W)"
| cancel: "T jid = Some j \<Longrightarrow> active j \<Longrightarrow>
    spec_step n (OpCancel now jid) (T, W) (T(jid \<mapsto> cancelled now j), W - {#jid#})"
| cancel_none: "(\<And>j. T jid = Some j \<Longrightarrow> \<not> active j) \<Longrightarrow> spec_step n (OpCancel now jid) (T, W) (T, W)"
| requeue: "T jid = Some j \<Longrightarrow>
    spec_step n (OpRequeue jid inc) (T, W) (T(jid \<mapsto> requeued inc j), add_mset jid W)"
| requeue_none: "T jid = None \<Longrightarrow> spec_step n (OpRequeue jid inc) (T, W) (T, W)"
| running: "T jid = Some j \<Longrightarrow> spec_step n (OpRunning now jid node) (T, W)
    (T(jid \<mapsto> j\<lparr>State := StateRunning, WorkerNode := node, StartTime := now\<rparr>), W)"
| running_none: "T jid = None \<Longrightarrow> spec_step n (OpRunning now jid node) (T, W) (T, W)"
| requeue_running: "T jid = Some j \<Longrightarrow> State j = StateRunning \<Longrightarrow> spec_step n (OpRequeueRunning jid) (T, W)
    (T(jid \<mapsto> j\<lparr>State := StateQueued, WorkerNode := [], StartTime := zero_time\<rparr>), add_mset jid W)"
| requeue_running_none: "(\<And>j. T jid = Some j \<Longrightarrow> State j \<noteq> StateRunning) \<Longrightarrow>
    spec_step n (OpRequeueRunning jid) (T, W) (T, W)"
| completed: "T jid = Some j \<Longrightarrow>
    spec_step n (OpCompleted now jid ok out err) (T, W) (T(jid \<mapsto> finished now ok out err j), W)"
| completed_none: "T jid = None \<Longrightarrow> spec_step n (OpCompleted now jid ok out err) (T, W) (T, W)"
| register: "spec_step n (OpRegister g) (T, W) (T, W)"
| group_state: "spec_step n (OpGroupState gid st) (T, W) (T, W)"

lemma size_waiting [simp]: "size (waiting gs) = length (queue gs)"
  by (simp add: waiting_def)

lemma refine_Enqueue:
  assumes inv: "gs_inv gs" and fresh: "jobs gs (ID j) = None"
  shows "spec_step (MaxQueueSize gs) (OpEnqueue j) (abs_of gs) (abs_of (exec (OpEnqueue j) gs))"
proof -
  obtain g p where new: "new_job gs j = (g, p)" by fastforce
  note n = new_job_inv [OF inv new]
  have m: "MaxQueueSize g = MaxQueueSize gs" using new by (auto simp: new_job_def)
  show ?thesis
  proof (cases "Enqueue g p")
    case (Inl e)
    then show ?thesis using n new m Enqueue_full [of g p e] by (auto simp: abs_of_def intro: spec_step.full)
  next
    case (Inr g')
    note e = Enqueue_inv [OF n(1,4,8) _ new_unreferenced [OF inv new] Inr]
    have "\<not> (0 < MaxQueueSize gs \<and> MaxQueueSize gs \<le> int (size (waiting gs)))"
      using Inr m n(5) by (auto simp: Enqueue_def split: if_splits)
    then show ?thesis
      using spec_step.enqueue [of "MaxQueueSize gs" "waiting gs" j "table gs"] e(2,3) fresh n new Inr
      by (simp add: abs_of_def)
  qed
qed

lemma refine_Dequeue:
  assumes inv: "gs_inv gs"
  shows "spec_step n OpDequeue (abs_of gs) (abs_of (exec OpDequeue gs))"
proof (cases "waiting gs = {#}")
  case True
  then show ?thesis using Dequeue_empty [OF True] spec_step.dequeue_empty by (simp add: abs_of_def)
next
  case False
  obtain r g where d: "Dequeue gs = (r, g)" by fastforce
  obtain j where j: "same_jobs gs g" "table gs (ID j) = Some (noidx j)" "waiting gs = add_mset (ID j) (waiting g)"
    "\<And>k jk. k \<in># waiting gs \<Longrightarrow> table gs k = Some jk \<Longrightarrow> \<not> earlier jk j"
    using Dequeue_spec [OF inv False d] by blast
  have "spec_step n OpDequeue (table gs, waiting gs) (table gs, waiting gs - {#ID j#})"
    by (rule spec_step.dequeue [where T = "table gs" and j = "noidx j"]) (use j in auto)
  then show ?thesis using table_same_jobs [OF j(1)] j(3) d by (simp add: abs_of_def)
qed

lemma match_run_pure: "fst (match_run (\<lambda>j e. (P j, e)) js e) = find_index P js"
  by (induction js) (auto split: prod.splits)

lemma refine_Backfill:
  assumes inv: "gs_inv gs"
  shows "spec_step n (OpBackfill P) (abs_of gs) (abs_of (exec (OpBackfill P) gs))"
proof -
  let ?m = "\<lambda>j e. (P (noidx j), e)"
  obtain r g e' where b: "Backfill ?m gs () = (r, g, e')" by (metis prod_cases3)
  note bs = Backfill_spec [OF inv b]
  show ?thesis
  proof (cases r)
    case None
    then have "g = gs" and no: "\<forall>x\<in>set (queue gs). \<not> P (noidx (mem gs x))"
      using bs(2) find_index_None [of "\<lambda>j. P (noidx j)" "map (mem gs) (queue gs)"] by (auto simp: match_run_pure)
    have "\<not> P jk" if k: "k \<in># waiting gs" and t: "table gs k = Some jk" for k jk
    proof -
      obtain x where x: "x \<in> set (queue gs)" "k = ID (mem gs x)" using k by (auto simp: waiting_def)
      then show ?thesis using t no gs_invD(8) [OF inv x(1)] by (auto simp: table_def)
    qed
    then show ?thesis
      using spec_step.backfill_none [of "waiting gs" "table gs" P n] b \<open>g = gs\<close> by (auto simp: abs_of_def)
  next
    case (Some j)
    then obtain i where i: "i < length (queue gs)" "find_index (\<lambda>j. P (noidx j)) (map (mem gs) (queue gs)) = Some i"
      "noidx j = noidx (mem gs (queue gs ! i))" "same_jobs gs g" "table gs (ID j) = Some (noidx j)"
      "waiting gs = add_mset (ID j) (waiting g)"
      using bs(3) by (auto simp: match_run_pure)
    then have "P (noidx j)" using find_index_Some [OF i(2)] by simp
    then have "spec_step n (OpBackfill P) (table gs, waiting gs) (table gs, waiting gs - {#ID j#})"
      using i by (intro spec_step.backfill) auto
    then show ?thesis using table_same_jobs [OF i(4)] i(6) b by (simp add: abs_of_def)
  qed
qed

lemma refine_Remove:
  assumes inv: "gs_inv gs"
  shows "spec_step n (OpRemove jid) (abs_of gs) (abs_of (exec (OpRemove jid) gs))"
proof -
  obtain r g where rm: "RemoveByID gs jid = (r, g)" by fastforce
  note s = RemoveByID_spec [OF inv rm]
  show ?thesis
  proof (cases "\<exists>j. table gs jid = Some j \<and> State j = StateQueued")
    case True
    then show ?thesis using s table_same_jobs [OF s(2)] rm by (auto simp: abs_of_def intro: spec_step.remove)
  next
    case False
    then have "g = gs" using s(3) by (auto split: option.splits)
    then show ?thesis using False rm by (auto simp: abs_of_def intro: spec_step.remove_none)
  qed
qed

lemma refine_Cancel:
  assumes inv: "gs_inv gs"
  shows "spec_step n (OpCancel now jid) (abs_of gs) (abs_of (exec (OpCancel now jid) gs))"
proof (cases "\<exists>j. table gs jid = Some j \<and> active j")
  case True
  then obtain j where j: "table gs jid = Some j" "active j" by blast
  obtain r ok g where c: "Cancel now gs jid = (r, ok, g)" by (metis prod_cases3)
  show ?thesis
    using Cancel_active [OF inv j c] spec_step.cancel [where T = "table gs", OF j] c by (simp add: abs_of_def)
next
  case False
  then show ?thesis
    using Cancel_inactive [of gs jid now] by (auto simp: abs_of_def split: option.splits intro: spec_step.cancel_none)
qed

lemma refine_Requeue:
  assumes inv: "gs_inv gs" and w: "jid \<notin># waiting gs"
  shows "spec_step n (OpRequeue jid inc) (abs_of gs) (abs_of (exec (OpRequeue jid inc) gs))"
proof (cases "table gs jid")
  case None
  then show ?thesis using Requeue_unknown [OF None] spec_step.requeue_none by (simp add: abs_of_def)
next
  case (Some j)
  then show ?thesis
    using Requeue_spec [OF inv Some w, of inc] spec_step.requeue [where T = "table gs", OF Some] by (auto simp: abs_of_def)
qed

lemma refine_RequeueRunning:
  assumes inv: "gs_inv gs"
  shows "spec_step n (OpRequeueRunning jid) (abs_of gs) (abs_of (exec (OpRequeueRunning jid) gs))"
proof (cases "\<exists>j. table gs jid = Some j \<and> State j = StateRunning")
  case True
  then obtain j where j: "table gs jid = Some j" "State j = StateRunning" by blast
  obtain r ok g where c: "RequeueRunningJob gs jid = (r, ok, g)" by (metis prod_cases3)
  show ?thesis
    using RequeueRunningJob_spec(5,6) [OF inv j c] spec_step.requeue_running [where T = "table gs", OF j] c by (simp add: abs_of_def)
next
  case False
  then show ?thesis
    using RequeueRunningJob_other [of gs jid]
    by (auto simp: abs_of_def split: option.splits intro: spec_step.requeue_running_none)
qed

lemma refine_MarkRunning:
  assumes inv: "gs_inv gs" and w: "jid \<notin># waiting gs"
  shows "spec_step n (OpRunning now jid node) (abs_of gs) (abs_of (exec (OpRunning now jid node) gs))"
proof (cases "table gs jid")
  case None
  then show ?thesis using MarkRunning_unknown [OF None] spec_step.running_none by (simp add: abs_of_def)
next
  case (Some j)
  then show ?thesis
    using MarkRunning_spec(3,4) [OF inv Some w refl, of now node] spec_step.running [where T = "table gs", OF Some]
    by (simp add: abs_of_def)
qed

lemma refine_MarkCompleted:
  assumes inv: "gs_inv gs"
  shows "spec_step n (OpCompleted now jid ok out err) (abs_of gs) (abs_of (exec (OpCompleted now jid ok out err) gs))"
proof (cases "table gs jid")
  case None
  then show ?thesis using MarkCompleted_unknown [OF None] spec_step.completed_none by (simp add: abs_of_def)
next
  case (Some j)
  then show ?thesis
    using MarkCompleted_spec(3,4) [OF inv Some refl, of now ok out err] spec_step.completed [where T = "table gs", OF Some]
    by (simp add: abs_of_def)
qed

lemma refine_groups:
  "spec_step n (OpRegister g) (abs_of gs) (abs_of (exec (OpRegister g) gs))"
  "spec_step n (OpGroupState gid st) (abs_of gs) (abs_of (exec (OpGroupState gid st) gs))"
proof -
  have [simp]: "table (gs\<lparr>groups := m\<rparr>) = table gs" "waiting (gs\<lparr>groups := m\<rparr>) = waiting gs" for m
    by (auto simp: table_def waiting_def fun_eq_iff split: option.split)
  show "spec_step n (OpRegister g) (abs_of gs) (abs_of (exec (OpRegister g) gs))"
    by (simp add: abs_of_def RegisterGroup_def spec_step.register)
  show "spec_step n (OpGroupState gid st) (abs_of gs) (abs_of (exec (OpGroupState gid st) gs))"
    by (simp add: abs_of_def SetGroupState_def spec_step.group_state split: option.split)
qed

lemma exec_refines_spec:
  assumes "gs_inv gs" "allowed gs op"
  shows "spec_step (MaxQueueSize gs) op (abs_of gs) (abs_of (exec op gs))"
  using assms refine_Enqueue refine_Dequeue refine_Backfill refine_Remove refine_Cancel refine_Requeue
    refine_RequeueRunning refine_MarkRunning refine_MarkCompleted refine_groups
  by (cases op) (simp_all only: allowed.simps)

section \<open>Properties\<close>

text \<open>Three jobs, of which the last two compete for the top of the queue.\<close>

definition sample_job :: "string \<Rightarrow> int \<Rightarrow> Time \<Rightarrow> Job" where
  "sample_job jid pr t = zero_job\<lparr>ID := jid, Priority := pr, SubmitTime := t\<rparr>"

definition sample :: GlobalScheduler where
  "sample = exec (OpEnqueue (sample_job ''c'' 10 1)) (exec (OpEnqueue (sample_job ''b'' 20 0))
     (exec (OpEnqueue (sample_job ''a'' 10 2)) NewGlobalScheduler))"

lemma sample_reach: "reach sample"
proof -
  have new: "NewGlobalScheduler\<lparr>MaxQueueSize := 0, OnJobChange := False, OnGroupChange := False\<rparr> = NewGlobalScheduler"
    by (simp add: NewGlobalScheduler_eq)
  show ?thesis unfolding sample_def
    by (intro reach.step) (use reach.start [where n = 0 and a = False and b = False, unfolded new] in simp, code_simp+)
qed

lemma sample_queue: "queue sample = [2, 1, 0]"
  by code_simp

lemma sample_jobs: "jobs sample ''c'' = Some 2"
  by code_simp

lemma sample_mem: "State (mem sample 2) = StateQueued"
  by code_simp

lemma sample_waiting: "waiting sample = {#''a'', ''b'', ''c''#}"
proof -
  have "map (\<lambda>p. ID (mem sample p)) (queue sample) = [''c'', ''b'', ''a'']" by code_simp
  then show ?thesis by (simp add: waiting_def add_mset_commute flip: mset_map)
qed



text \<open>
  C1. Refinement: every operation of the pointer-based scheduler (binary heap, positions,
  shared job objects) is a step of the abstract scheduler, a table of jobs and a multiset
  of waiting identifiers, in which \<open>Dequeue\<close> takes a job no other waiting job precedes,
  \<open>Backfill\<close> one the callback accepts, \<open>Enqueue\<close> refuses exactly when the limit is reached,
  and the other operations rewrite one job.
\<close>

theorem exec_refines:
  assumes "gs_inv gs" "allowed gs op"
  shows "spec_step (MaxQueueSize gs) op (abs_of gs) (abs_of (exec op gs))"
  using assms by (rule exec_refines_spec)

theorem exec_refines_witness:
  "spec_step (MaxQueueSize sample) (OpRequeueRunning ''c'') (abs_of sample)
     (abs_of (exec (OpRequeueRunning ''c'') sample))"
  using exec_refines [of sample "OpRequeueRunning ''c''"] reach_inv [OF sample_reach] by simp

fun drain :: "nat \<Rightarrow> GlobalScheduler \<Rightarrow> Job list" where
  "drain 0 gs = []"
| "drain (Suc n) gs = (case Dequeue gs of (None, _) \<Rightarrow> [] | (Some j, g) \<Rightarrow> j # drain n g)"

text \<open>
  C5. Dequeueing until the queue is empty yields every waiting job exactly once, lower
  priority numbers first and, among equal priorities, earlier submissions first.
\<close>

theorem drain_sorted:
  assumes "gs_inv gs"
  shows "mset (map ID (drain (QueueLen gs) gs)) = waiting gs \<and>
    sorted_wrt (\<lambda>a b. \<not> earlier b a) (drain (QueueLen gs) gs) \<and>
    (\<forall>j\<in>set (drain (QueueLen gs) gs). table gs (ID j) = Some (noidx j))"
  using assms
proof (induction "QueueLen gs" arbitrary: gs)
  case 0
  then show ?case by (simp add: QueueLen_def JobQueue_Len_def waiting_def)
next
  case (Suc n)
  have ne: "waiting gs \<noteq> {#}" using Suc(2) by (auto simp: QueueLen_def JobQueue_Len_def waiting_def)
  obtain r g where d: "Dequeue gs = (r, g)" by fastforce
  then obtain j where j: "r = Some j" "gs_inv g" "same_jobs gs g" "table gs (ID j) = Some (noidx j)"
    "waiting gs = add_mset (ID j) (waiting g)"
    "\<And>k jk. k \<in># waiting gs \<Longrightarrow> table gs k = Some jk \<Longrightarrow> \<not> earlier jk j"
    using Dequeue_spec [OF Suc(3) ne d] by blast
  have "Suc (size (waiting g)) = Suc n" using Suc(2) j(5) size_waiting [of gs]
    by (simp add: QueueLen_def JobQueue_Len_def)
  then have len: "n = QueueLen g" by (simp add: QueueLen_def JobQueue_Len_def)
  note ih = Suc(1) [OF len j(2)]
  have t: "table g = table gs" by (rule table_same_jobs [OF j(3)])
  have "\<not> earlier b j" if "b \<in> set (drain n g)" for b
  proof -
    have "ID b \<in># waiting g" using ih that len by (metis image_eqI set_map set_mset_mset)
    then show ?thesis using j(5,6) ih that t len by fastforce
  qed
  then show ?case using ih j d t len by (simp add: Suc(2) [symmetric])
qed

theorem drain_sorted_witness:
  "mset (map ID (drain (QueueLen sample) sample)) = {#''a'', ''b'', ''c''#} \<and>
   sorted_wrt (\<lambda>a b. \<not> earlier b a) (drain (QueueLen sample) sample)"
  using drain_sorted [OF reach_inv [OF sample_reach]] sample_waiting by simp

text \<open>
  C6. Cancellation: \<open>Cancel\<close> succeeds exactly on queued and running jobs, which become
  cancelled with the given end time and leave the queue; on every other job, known or
  not, it changes nothing. The returned job is the table's entry after the call.
\<close>

theorem Cancel_correct:
  assumes inv: "gs_inv gs" and c: "Cancel now gs jid = (r, ok, gs')"
  shows "(ok \<longleftrightarrow> (\<exists>j. table gs jid = Some j \<and> active j)) \<and>
    (ok \<longrightarrow> table gs' = (table gs)(jid \<mapsto> cancelled now (the (table gs jid))) \<and>
       waiting gs' = waiting gs - {#jid#} \<and> jid \<notin># waiting gs') \<and>
    (\<not> ok \<longrightarrow> gs' = gs) \<and> map_option noidx r = table gs' jid"
proof (cases "\<exists>j. table gs jid = Some j \<and> active j")
  case True
  then obtain j where j: "table gs jid = Some j" "active j" by blast
  note a = Cancel_active [OF inv j c]
  have "jid \<notin># waiting gs'"
    using count_waiting [OF inv, of jid] a(6) by (simp add: not_in_iff)
  then show ?thesis using True a j by simp
next
  case False
  then have "case table gs jid of Some j \<Rightarrow> \<not> active j | None \<Rightarrow> True" by (auto split: option.split)
  then show ?thesis using Cancel_inactive [of gs jid now] c False by auto
qed

theorem Cancel_correct_witness:
  "waiting (snd (snd (Cancel 9 sample ''c''))) = {#''a'', ''b''#} \<and> fst (snd (Cancel 9 sample ''c''))"
proof -
  obtain r ok g where c: "Cancel 9 sample ''c'' = (r, ok, g)" by (metis prod_cases3)
  have "\<exists>j. table sample ''c'' = Some j \<and> active j"
    using sample_jobs sample_mem by (simp add: table_def active_def)
  then show ?thesis using Cancel_correct [OF reach_inv [OF sample_reach] c] c sample_waiting by simp
qed

text \<open>
  \<open>Requeue\<close> does not look whether the job already waits: requeueing a waiting job
  succeeds and leaves it twice in the queue, so that the invariant is lost. The retry
  timers of the master do this when a result is reported twice.
\<close>

theorem Requeue_waiting_duplicates:
  assumes inv: "gs_inv gs" and w: "jid \<in># waiting gs"
  shows "\<exists>r gs'. Requeue gs jid inc = Inr (r, gs') \<and> count (waiting gs') jid = 2 \<and> \<not> gs_inv gs'"
proof -
  obtain p where p: "jobs gs jid = Some p"
    using waiting_table [OF inv w] by (auto simp: table_def split: option.splits)
  define f where "f = (\<lambda>j::Job. j\<lparr>RetryCount := (if inc then i64 (RetryCount j + 1) else RetryCount j),
       State := StateQueued, WorkerNode := [], StartTime := zero_time, EndTime := zero_time,
       Output := [], Error := [], index := -1\<rparr>)"
  define u where "u = upd_job gs p f"
  define g where "g = heap_Push JobQueue_heap u p"
  have req: "Requeue gs jid inc = Inr (Some (mem g p), notifyJobChange g p)"
    by (cases inc) (simp_all add: Requeue_def p g_def u_def f_def Let_def)
  let ?P = "\<lambda>h. (\<forall>q. noidx (mem h q) = noidx (mem u q)) \<and> mset (queue h) = add_mset p (mset (queue u))"
  have P: "?P g" unfolding g_def
    by (rule jq.heap_Push_keeps [of ?P])
      (auto simp: JobQueue_Swap_def JobQueue_Push_def Let_def)
  have idu: "ID (mem u q) = ID (mem gs q)" for q by (simp add: u_def mem_upd_job f_def)
  have ids: "ID (mem g q) = ID (mem gs q)" for q using P noidx_eqD(1) idu by metis
  have "mset (queue g) = add_mset p (mset (queue gs))" using P by (simp add: u_def)
  then have "waiting g = add_mset (ID (mem gs p)) (waiting gs)"
    by (simp add: waiting_def ids)
  moreover have "count (waiting gs) jid = 1"
    using count_waiting [OF inv, of jid] w by (simp add: le_Suc_eq count_eq_zero_iff)
  ultimately have c: "count (waiting (notifyJobChange g p)) jid = 2"
    using gs_invD(4) [OF inv p] by simp
  moreover have "\<not> gs_inv (notifyJobChange g p)"
    using count_waiting [of "{}" "notifyJobChange g p" jid] c by auto
  ultimately show ?thesis using req by blast
qed

theorem Requeue_waiting_duplicates_witness:
  "\<exists>r gs'. Requeue sample ''c'' True = Inr (r, gs') \<and> count (waiting gs') ''c'' = 2 \<and> \<not> gs_inv gs'"
  using Requeue_waiting_duplicates [OF reach_inv [OF sample_reach], of "''c''" True] sample_waiting by simp

text \<open>How a step of the abstract scheduler changes the number of waiting jobs.\<close>

definition puts_back :: "sched_op \<Rightarrow> bool" where
  "puts_back op \<longleftrightarrow> (case op of OpRequeue _ _ \<Rightarrow> True | OpRequeueRunning _ \<Rightarrow> True | _ \<Rightarrow> False)"

lemma spec_step_size:
  assumes "spec_step n op s t"
  shows "puts_back op \<or> size (snd t) \<le> size (snd s) \<or>
     (size (snd t) = Suc (size (snd s)) \<and> \<not> (0 < n \<and> n \<le> int (size (snd s))))"
proof -
  have le: "size (W - {#x#}) \<le> size W" for W :: "string multiset" and x by (simp add: size_mset_mono)
  show ?thesis using assms by (cases rule: spec_step.cases) (simp_all add: puts_back_def le)
qed

text \<open>
  C12. The queue limit: with a positive \<open>MaxQueueSize\<close> a queue that is within the limit is
  within it after any operation other than the two that put a job back (\<open>Requeue\<close> and
  \<open>RequeueRunningJob\<close>), which ignore the limit; without a limit no \<open>Enqueue\<close> is refused.
\<close>

theorem queue_limit:
  assumes "gs_inv gs" "allowed gs op"
  shows "(0 < MaxQueueSize gs \<and> int (QueueLen gs) \<le> MaxQueueSize gs \<and>
\<not> puts_back op \<longrightarrow>
      int (QueueLen (exec op gs)) \<le> MaxQueueSize gs) \<and>
    (MaxQueueSize gs \<le> 0 \<longrightarrow> (\<exists>gs'. Enqueue gs p = Inr gs'))"
proof -
  have len: "QueueLen g = size (snd (abs_of g))" for g by (simp add: QueueLen_def JobQueue_Len_def abs_of_def)
  from spec_step_size [OF exec_refines_spec [OF assms]]
  have "int (QueueLen (exec op gs)) \<le> MaxQueueSize gs"
    if "0 < MaxQueueSize gs" "int (QueueLen gs) \<le> MaxQueueSize gs" "\<not> puts_back op"
    using that unfolding len by fastforce
  moreover have "\<exists>gs'. Enqueue gs p = Inr gs'" if "MaxQueueSize gs \<le> 0"
    using that by (simp add: Enqueue_def Let_def)
  ultimately show ?thesis by blast
qed

theorem queue_limit_witness:
  "int (QueueLen (exec OpDequeue (sample\<lparr>MaxQueueSize := 3\<rparr>))) \<le> 3"
  using queue_limit [of "sample\<lparr>MaxQueueSize := 3\<rparr>" OpDequeue] reach_inv [OF sample_reach] sample_queue
  by (simp add: QueueLen_def JobQueue_Len_def puts_back_def)

end
