(* ===== verification/Persistence.thy ===== *)
theory Persistence
  imports Store Scheduler_Steps
begin

text \<open>
  The persistence path of \<open>StartMaster\<close> (\<open>internal/daemon/master.go\<close>): the scheduler's hooks
  send the changed job or group over a channel, and one goroutine takes the entries in
  order and writes the object as it is at that moment. The channel is the scheduler's
  list \<open>changes\<close>; its capacity only delays the sender. \<open>persist_reach\<close> interleaves
  scheduler operations and writes freely.
\<close>

definition db_write :: "bool \<Rightarrow> GlobalScheduler \<times> Store \<Rightarrow> GlobalScheduler \<times> Store" where
  "db_write ok st =
     (case st of (gs, s) \<Rightarrow>
        (case changes gs of
           [] \<Rightarrow> (gs, s)
         | c # cs \<Rightarrow>
             (gs\<lparr>changes := cs\<rparr>,
              case c of
                JobChange p \<Rightarrow> unless_error s (SaveJob ok s (mem gs p))
              | GroupChange gid \<Rightarrow>
                  (case groups gs gid of None \<Rightarrow> s | Some g \<Rightarrow> unless_error s (SaveGroup ok s g)))))"

inductive persist_reach :: "GlobalScheduler \<times> Store \<Rightarrow> bool" where
  start: "persist_reach (NewGlobalScheduler\<lparr>MaxQueueSize := n, OnJobChange := True, OnGroupChange := True\<rparr>, empty_store)"
| op: "persist_reach (gs, s) \<Longrightarrow> allowed gs op \<Longrightarrow> persist_reach (exec op gs, s)"
| flush: "persist_reach st \<Longrightarrow> persist_reach (db_write True st)"

subsection \<open>Every change is announced\<close>

definition logged :: "GlobalScheduler \<Rightarrow> GlobalScheduler \<Rightarrow> bool" where
  "logged gs gs' \<longleftrightarrow> jobs gs \<subseteq>\<^sub>m jobs gs' \<and> set (changes gs) \<subseteq> set (changes gs') \<and>
     (\<forall>p. JobChange p \<in> set (changes gs') \<longrightarrow> JobChange p \<in> set (changes gs) \<or> p \<in> ran (jobs gs')) \<and>
     (\<forall>jid p. jobs gs' jid = Some p \<longrightarrow> JobChange p \<in> set (changes gs') \<or>
        (jobs gs jid = Some p \<and> noidx (mem gs' p) = noidx (mem gs p))) \<and>
     (\<forall>gid g. groups gs' gid = Some g \<longrightarrow> (groups gs gid = Some g) \<or>
        (GroupChange gid \<in> set (changes gs') \<and> (gGroupID g = gid \<or> (\<exists>g0. groups gs gid = Some g0 \<and> gGroupID g0 = gGroupID g)))) \<and>
     dom (groups gs) \<subseteq> dom (groups gs') \<and>
     OnJobChange gs' = OnJobChange gs \<and> OnGroupChange gs' = OnGroupChange gs"

lemma logged_refl [simp]: "logged gs gs"
  by (simp add: logged_def)

lemma logged_same_jobs: "same_jobs gs g \<Longrightarrow> logged gs (g :: GlobalScheduler)"
  by (simp add: logged_def same_jobs_fields)

text \<open>An operation that rewrites one object of the table and announces it.\<close>

lemma logged_one:
  assumes "OnJobChange gs" "jobs gs jid = Some p" "same_rest gs h" "changes h = changes gs"
    and "\<And>q. q \<noteq> p \<Longrightarrow> noidx (mem h q) = noidx (mem gs q)"
  shows "logged gs (notifyJobChange h p)"
proof -
  have "OnJobChange h" "jobs h = jobs gs" "groups h = groups gs" "OnGroupChange h = OnGroupChange gs"
    using assms(1,3) by (simp_all add: same_rest_def)
  then show ?thesis
    using assms by (auto simp: logged_def notifyJobChange_def ran_def)
qed

lemma heap_Push_same_jobs:
  fixes h :: GlobalScheduler
  shows "same_jobs h (heap_Push JobQueue_heap h p)"
  by (rule jq.heap_Push_keeps [of "same_jobs h"])
    (auto simp: same_jobs_def JobQueue_Swap_def JobQueue_Push_def Let_def)

lemma upd_push_logged:
  assumes "OnJobChange gs" "jobs gs jid = Some p"
  shows "logged gs (notifyJobChange (heap_Push JobQueue_heap (upd_job gs p f) p) p)"
proof (rule logged_one [OF assms])
  note sj = heap_Push_same_jobs [of "upd_job gs p f" p]
  show "same_rest gs (heap_Push JobQueue_heap (upd_job gs p f) p)"
    using same_rest_steps(3) [OF sj] by (simp add: same_rest_def)
  show "changes (heap_Push JobQueue_heap (upd_job gs p f) p) = changes gs"
    using same_jobs_fields(7) [OF sj] by simp
  show "noidx (mem (heap_Push JobQueue_heap (upd_job gs p f) p) q) = noidx (mem gs q)" if "q \<noteq> p" for q
    using same_jobs_fields(8) [OF sj, of q] that by (simp add: mem_upd_job)
qed

lemma upd_logged:
  assumes "OnJobChange gs" "jobs gs jid = Some p"
  shows "logged gs (notifyJobChange (upd_job gs p f) p)"
  by (rule logged_one [OF assms]) (simp_all add: mem_upd_job)

lemma Cancel_logged:
  assumes "gs_inv gs" "OnJobChange gs"
  shows "logged gs (snd (snd (Cancel now gs jid)))"
proof (cases "jobs gs jid")
  case (Some p)
  note ri = remove_at_index_inv [OF assms(1) Some]
  let ?f = "\<lambda>j. j\<lparr>State := StateCancelled, EndTime := now\<rparr>"
  have "logged gs (notifyJobChange (upd_job (remove_at_index gs p) p ?f) p)"
    by (rule logged_one [OF assms(2) Some])
      (use same_jobs_fields [OF ri(2)] in \<open>simp_all add: mem_upd_job same_rest_def\<close>)
  then show ?thesis using upd_logged [OF assms(2) Some] by (simp add: Cancel_def Some Let_def)
qed (simp add: Cancel_def)

lemma Enqueue_logged:
  assumes inv: "gs_inv gs" and on: "OnJobChange gs" and fresh: "jobs gs (ID j) = None"
  shows "logged gs (exec (OpEnqueue j) gs)"
proof -
  obtain g p where new: "new_job gs j = (g, p)" by fastforce
  have g: "changes g = changes gs" "groups g = groups gs" "OnJobChange g = OnJobChange gs"
    "OnGroupChange g = OnGroupChange gs" "\<And>q. q \<noteq> p \<Longrightarrow> mem g q = mem gs q"
    using new by (auto simp: new_job_def)
  note n = new_job_inv [OF inv new]
  have np: "jobs gs jid \<noteq> Some p" for jid using gs_invD(5) [OF inv] new by (fastforce simp: new_job_def)
  show ?thesis
  proof (cases "Enqueue g p")
    case (Inl e)
    have "mem g q = mem gs q" if "jobs gs jid = Some q" for jid q using that np g(5) by metis
    then show ?thesis using new g(1-4) n(7) Inl by (simp add: logged_def)
  next
    case (Inr g')
    define u where "u = upd_job g p (State_update (\<lambda>_. StateQueued))"
    define v where "v = u\<lparr>jobs := (jobs u)(ID (mem u p) \<mapsto> p)\<rparr>"
    have g': "g' = notifyJobChange (heap_Push JobQueue_heap v p) p"
      using Inr by (auto simp: Enqueue_def Let_def u_def v_def split: if_splits)
    note sj = same_jobs_fields [OF heap_Push_same_jobs [of v p]]
    have v: "jobs v = (jobs gs)(ID j \<mapsto> p)" "changes v = changes gs" "groups v = groups gs"
      "OnJobChange v" "OnGroupChange v = OnGroupChange gs" "\<And>q. q \<noteq> p \<Longrightarrow> mem v q = mem gs q"
      using g n(6,7) on by (simp_all add: v_def u_def mem_upd_job)
    have "changes g' = changes gs @ [JobChange p]" "jobs g' = (jobs gs)(ID j \<mapsto> p)" "groups g' = groups gs"
      "OnJobChange g'" "OnGroupChange g' = OnGroupChange gs" "\<And>q. q \<noteq> p \<Longrightarrow> noidx (mem g' q) = noidx (mem gs q)"
      using v sj by (simp_all add: g') (simp add: notifyJobChange_def sj v)
    then show ?thesis using new Inr on fresh
      by (auto simp: logged_def map_le_def ran_def)
  qed
qed

lemma exec_logged:
  assumes inv: "gs_inv gs" and ok: "allowed gs op" and on: "OnJobChange gs" "OnGroupChange gs"
  shows "logged gs (exec op gs)"
proof (cases op)
  case (OpEnqueue j)
  then show ?thesis using Enqueue_logged inv ok on by simp
next
  case OpDequeue
  obtain r g where d: "Dequeue gs = (r, g)" by fastforce
  then show ?thesis using Dequeue_spec [OF inv _ d] Dequeue_empty [of gs] logged_same_jobs OpDequeue
    by (cases "waiting gs = {#}") auto
next
  case (OpBackfill P)
  then show ?thesis using Backfill_spec(2,3) [OF inv] logged_same_jobs
    by (metis exec.simps(3) fst_conv logged_refl not_Some_eq prod.collapse snd_conv)
next
  case (OpRemove jid)
  then show ?thesis using RemoveByID_spec(2) [OF inv] logged_same_jobs by (metis exec.simps(4) prod.collapse)
next
  case (OpCancel now jid)
  then show ?thesis using Cancel_logged [OF inv on(1)] by simp
next
  case (OpRequeue jid inc)
  then show ?thesis using upd_push_logged [OF on(1)]
    by (auto simp: Requeue_def Let_def split: option.splits)
next
  case (OpRunning now jid node)
  then show ?thesis using upd_logged [OF on(1)] by (auto simp: MarkRunning_def split: option.splits)
next
  case (OpRequeueRunning jid)
  then show ?thesis using upd_push_logged [OF on(1)] by (auto simp: RequeueRunningJob_def Let_def split: option.splits)
next
  case (OpCompleted now jid ok out err)
  then show ?thesis using upd_logged [OF on(1)] by (auto simp: MarkCompleted_def split: option.splits)
next
  case (OpRegister g)
  then show ?thesis using on by (auto simp: RegisterGroup_def notifyGroupChange_def logged_def)
next
  case (OpGroupState gid st)
  then show ?thesis using on by (auto simp: SetGroupState_def notifyGroupChange_def logged_def split: option.splits)
qed

subsection \<open>The store catches up\<close>

definition persist_inv :: "GlobalScheduler \<times> Store \<Rightarrow> bool" where
  "persist_inv st \<longleftrightarrow> (case st of (gs, s) \<Rightarrow>
     gs_inv gs \<and> OnJobChange gs \<and> OnGroupChange gs \<and>
     (\<forall>p. JobChange p \<in> set (changes gs) \<longrightarrow> p \<in> ran (jobs gs)) \<and>
     (\<forall>jid p. jobs gs jid = Some p \<longrightarrow> jid \<noteq> [] \<longrightarrow> JobChange p \<in> set (changes gs) \<or>
        bucketJobs s jid = Some (Encoded (stored_job (mem gs p)))) \<and>
     (\<forall>gid g. groups gs gid = Some g \<longrightarrow> gGroupID g = gid \<and>
        (gid \<noteq> [] \<longrightarrow> GroupChange gid \<in> set (changes gs) \<or> bucketGroups s gid = Some (Encoded g))) \<and>
     dom (bucketJobs s) \<subseteq> dom (jobs gs) \<and> dom (bucketGroups s) \<subseteq> dom (groups gs))"

lemma stored_job_noidx: "noidx j = noidx k \<Longrightarrow> stored_job j = stored_job k"
  by (metis stored_job_sel(6))

lemma persist_inv_op:
  assumes inv: "persist_inv (gs, s)" and ok: "allowed gs op"
  shows "persist_inv (exec op gs, s)"
proof -
  have i: "gs_inv gs" "OnJobChange gs" "OnGroupChange gs"
    "\<And>p. JobChange p \<in> set (changes gs) \<Longrightarrow> p \<in> ran (jobs gs)"
    "\<And>jid p. jobs gs jid = Some p \<Longrightarrow> jid \<noteq> [] \<Longrightarrow> JobChange p \<in> set (changes gs) \<or>
        bucketJobs s jid = Some (Encoded (stored_job (mem gs p)))"
    "\<And>gid g. groups gs gid = Some g \<Longrightarrow> gGroupID g = gid \<and>
        (gid \<noteq> [] \<longrightarrow> GroupChange gid \<in> set (changes gs) \<or> bucketGroups s gid = Some (Encoded g))"
    "dom (bucketJobs s) \<subseteq> dom (jobs gs)" "dom (bucketGroups s) \<subseteq> dom (groups gs)"
    using inv unfolding persist_inv_def by auto
  define gs' where "gs' = exec op gs"
  have l: "jobs gs \<subseteq>\<^sub>m jobs gs'" "set (changes gs) \<subseteq> set (changes gs')"
    "\<And>p. JobChange p \<in> set (changes gs') \<Longrightarrow> JobChange p \<in> set (changes gs) \<or> p \<in> ran (jobs gs')"
    "\<And>jid p. jobs gs' jid = Some p \<Longrightarrow> JobChange p \<in> set (changes gs') \<or>
        (jobs gs jid = Some p \<and> noidx (mem gs' p) = noidx (mem gs p))"
    "\<And>gid g. groups gs' gid = Some g \<Longrightarrow> (groups gs gid = Some g) \<or> (GroupChange gid \<in> set (changes gs') \<and>
        (gGroupID g = gid \<or> (\<exists>g0. groups gs gid = Some g0 \<and> gGroupID g0 = gGroupID g)))"
    "dom (groups gs) \<subseteq> dom (groups gs')" "OnJobChange gs'" "OnGroupChange gs'"
    using exec_logged [OF i(1) ok i(2,3)] i(2,3) unfolding logged_def gs'_def by auto
  have "p \<in> ran (jobs gs')" if "JobChange p \<in> set (changes gs')" for p
    using l(3) [OF that] i(4) [of p] l(1) by (fastforce simp: ran_def map_le_def dom_def)
  moreover have "JobChange p \<in> set (changes gs') \<or> bucketJobs s jid = Some (Encoded (stored_job (mem gs' p)))"
    if "jobs gs' jid = Some p" "jid \<noteq> []" for jid p
    using l(4) [OF that(1)] i(5) that(2) l(2) stored_job_noidx by (metis subsetD)
  moreover have "gGroupID g = gid \<and> (gid \<noteq> [] \<longrightarrow> GroupChange gid \<in> set (changes gs') \<or> bucketGroups s gid = Some (Encoded g))"
    if "groups gs' gid = Some g" for gid g
    using l(5) [OF that] i(6) l(2) by (metis subsetD)
  moreover have "dom (bucketJobs s) \<subseteq> dom (jobs gs')"
    using i(7) l(1) map_le_implies_dom_le by blast
  ultimately show ?thesis
    using exec_inv [OF i(1) ok] i(8) l(6-8) unfolding persist_inv_def gs'_def [symmetric] by auto
qed

lemma gs_inv_changes [simp]: "gs_inv_but X (gs\<lparr>changes := cs\<rparr>) = gs_inv_but X gs"
  by (rule gs_inv_cong) simp_all

lemma persist_inv_flush:
  assumes inv: "persist_inv (gs, s)"
  shows "persist_inv (db_write True (gs, s))"
proof (cases "changes gs")
  case Nil
  then show ?thesis using inv by (simp add: db_write_def)
next
  case (Cons c cs)
  show ?thesis
  proof (cases c)
    case (JobChange p)
    then obtain jid where jid: "jobs gs jid = Some p"
      using inv Cons by (auto simp: persist_inv_def ran_def)
    then have ID: "ID (mem gs p) = jid" using inv by (auto simp: persist_inv_def dest: gs_invD(4))
    define s' where "s' = (if jid = [] then s else put_job s jid (Encoded (stored_job (mem gs p))))"
    have eq: "db_write True (gs, s) = (gs\<lparr>changes := cs\<rparr>, s')"
      using Cons JobChange ID by (simp add: db_write_def SaveJob_put s'_def)
    have "JobChange q \<in> set cs \<or> bucketJobs s' k = Some (Encoded (stored_job (mem gs q)))"
      if "jobs gs k = Some q" "k \<noteq> []" for k q
    proof (cases "k = jid")
      case True
      then show ?thesis using that jid by (simp add: s'_def jobs_bucket.get_put)
    next
      case False
      then have "q \<noteq> p" using that(1) ID inv gs_invD(4) [of "{}" gs k q] by (auto simp: persist_inv_def)
      then show ?thesis
        using that False inv Cons JobChange by (auto simp: persist_inv_def s'_def jobs_bucket.get_put)
    qed
    moreover have "bucketGroups s' = bucketGroups s" by (simp add: s'_def put_job_def)
    moreover have "dom (bucketJobs s') \<subseteq> dom (jobs gs)"
      using inv jid by (auto simp: s'_def put_job_def persist_inv_def)
    ultimately show ?thesis
      unfolding eq using inv Cons JobChange jid by (auto simp: persist_inv_def)
  next
    case (GroupChange gid)
    then show ?thesis
      using inv Cons
      by (auto simp: persist_inv_def db_write_def SaveGroup_def split: option.splits)
        (metis option.distinct(1))
  qed
qed

lemma persist_reach_inv: "persist_reach st \<Longrightarrow> persist_inv st"
proof (induction rule: persist_reach.induct)
  case (start n)
  then show ?case
    by (simp add: persist_inv_def NewGlobalScheduler_inv) (simp add: NewGlobalScheduler_eq empty_store_def)
next
  case (op gs s op)
  then show ?case by (intro persist_inv_op)
next
  case (flush st)
  then show ?case using persist_inv_flush by (metis prod.collapse)
qed


definition sample_store :: "GlobalScheduler \<times> Store" where
  "sample_store = db_write True
     (exec (OpEnqueue (sample_job ''a'' 10 2))
        (NewGlobalScheduler\<lparr>MaxQueueSize := 5, OnJobChange := True, OnGroupChange := True\<rparr>), empty_store)"

lemma sample_store_reach: "persist_reach sample_store"
  unfolding sample_store_def
  by (intro persist_reach.flush persist_reach.op persist_reach.start) (simp add: NewGlobalScheduler_eq)

lemma sample_store_changes: "changes (fst sample_store) = []"
proof -
  have "changes (fst (db_write True (gs, s))) = tl (changes gs)" for gs s
    by (simp add: db_write_def split: list.split)
  moreover have "tl (changes (exec (OpEnqueue (sample_job ''a'' 10 2))
      (NewGlobalScheduler\<lparr>MaxQueueSize := 5, OnJobChange := True, OnGroupChange := True\<rparr>))) = []"
    by code_simp
  ultimately show ?thesis by (simp add: sample_store_def)
qed


end
