(* ===== verification/Circuit_Breaker.thy ===== *)
theory Circuit_Breaker
  imports Tasch_Prelude
begin

text \<open>
  The circuit breaker of \<open>internal/daemon/master.go\<close>: per node a count of consecutive
  failures, the instant until which the node is blocked, and the last job that failed
  there. The reference below it is a history: the failures a node had since its last
  success (or its last expired block), and the breaker is shown to hold exactly what the
  history determines.
\<close>

record circuitBreaker =
  failures :: "string \<rightharpoonup> int"
  blocked :: "string \<rightharpoonup> Time"
  lastFailedJob :: "string \<rightharpoonup> string"

definition newCircuitBreaker :: circuitBreaker where
  "newCircuitBreaker = \<lparr>failures = Map.empty, blocked = Map.empty, lastFailedJob = Map.empty\<rparr>"

definition RecordFailure :: "Time \<Rightarrow> circuitBreaker \<Rightarrow> string \<Rightarrow> string \<Rightarrow> circuitBreaker" where
  "RecordFailure now cb node jobID =
     (if get_or [] (lastFailedJob cb) node = jobID then cb
      else let cb1 = cb\<lparr>lastFailedJob := (lastFailedJob cb)(node \<mapsto> jobID)\<rparr>;
               cb2 = cb1\<lparr>failures := (failures cb1)(node \<mapsto> i64 (get_or 0 (failures cb1) node + 1))\<rparr>
           in if 3 \<le> get_or 0 (failures cb2) node
              then cb2\<lparr>blocked := (blocked cb2)(node \<mapsto> time_Add now (5 * Minute))\<rparr>
              else cb2)"

definition RecordSuccess :: "circuitBreaker \<Rightarrow> string \<Rightarrow> circuitBreaker" where
  "RecordSuccess cb node =
     cb\<lparr>failures := (failures cb)(node := None), blocked := (blocked cb)(node := None),
        lastFailedJob := (lastFailedJob cb)(node := None)\<rparr>"

definition IsBlocked :: "Time \<Rightarrow> circuitBreaker \<Rightarrow> string \<Rightarrow> bool \<times> circuitBreaker" where
  "IsBlocked now cb node =
     (case blocked cb node of
        None \<Rightarrow> (False, cb)
      | Some until \<Rightarrow>
          if until < now
          then (False, cb\<lparr>blocked := (blocked cb)(node := None), failures := (failures cb)(node := None),
                          lastFailedJob := (lastFailedJob cb)(node := None)\<rparr>)
          else (True, cb))"

subsection \<open>The history of a node\<close>

datatype cb_event = Failure string string Time | Success string | Query string Time

fun cb_step :: "circuitBreaker \<Rightarrow> cb_event \<Rightarrow> circuitBreaker" where
  "cb_step cb (Failure node jid t) = RecordFailure t cb node jid"
| "cb_step cb (Success node) = RecordSuccess cb node"
| "cb_step cb (Query node t) = snd (IsBlocked t cb node)"

definition cb_run :: "cb_event list \<Rightarrow> circuitBreaker" where
  "cb_run es = foldl cb_step newCircuitBreaker es"

text \<open>
  The reference: the counted failures of a node, newest first, each with its instant. A
  repeated failure of the newest job is not counted; a success, or a query more than five
  minutes after the newest counted failure of a blocked node, empties the history.
\<close>

fun history :: "string \<Rightarrow> (string \<times> Time) list \<Rightarrow> cb_event \<Rightarrow> (string \<times> Time) list" where
  "history n h (Failure node jid t) =
     (if node \<noteq> n \<or> (case h of [] \<Rightarrow> jid = [] | (j, _) # _ \<Rightarrow> j = jid) then h else (jid, t) # h)"
| "history n h (Success node) = (if node = n then [] else h)"
| "history n h (Query node t) =
     (if node = n \<and> 3 \<le> length h \<and> snd (hd h) + 5 * Minute < t then [] else h)"

definition node_history :: "string \<Rightarrow> cb_event list \<Rightarrow> (string \<times> Time) list" where
  "node_history n es = foldl (history n) [] es"

definition cb_matches :: "circuitBreaker \<Rightarrow> string \<Rightarrow> (string \<times> Time) list \<Rightarrow> bool" where
  "cb_matches cb n h \<longleftrightarrow>
     failures cb n = (if h = [] then None else Some (int (length h))) \<and>
     lastFailedJob cb n = (if h = [] then None else Some (fst (hd h))) \<and>
     blocked cb n = (if length h < 3 then None else Some (snd (hd h) + 5 * Minute))"

lemma cb_matches_step:
  assumes m: "cb_matches cb n h" and len: "int (length h) < 2 ^ 63 - 1"
  shows "cb_matches (cb_step cb e) n (history n h e)"
proof (cases e)
  case (Failure node jid t)
  have i: "i64 (1 + int (length xs)) = 1 + int (length xs)" if "int (length xs) < 2 ^ 63 - 1" for xs :: "(string \<times> Time) list"
    using that by (intro i64_id) (simp add: in_i64_def)
  show ?thesis
  proof (cases h)
    case Nil
    then show ?thesis
      using m Failure i [of "[]"] by (auto simp: cb_matches_def RecordFailure_def get_or_def Let_def)
  next
    case (Cons a h')
    have "i64 (1 + int (length h)) = 1 + int (length h)" using i [OF len] .
    then show ?thesis
      using m Failure Cons
      by (cases a) (auto simp: cb_matches_def RecordFailure_def get_or_def Let_def time_Add_def add.commute Suc_le_eq)
  qed
next
  case (Success node)
  then show ?thesis using m by (auto simp: cb_matches_def RecordSuccess_def)
next
  case (Query node t)
  then show ?thesis using m by (auto simp: cb_matches_def IsBlocked_def split: option.splits if_splits)
qed

lemma history_length: "length (history n h e) \<le> Suc (length h)"
  by (cases e) auto

lemma node_history_length: "length (node_history n es) \<le> length es"
proof (induction es rule: rev_induct)
  case (snoc e es)
  then show ?case
    using history_length [of n "node_history n es" e] by (simp add: node_history_def)
qed (simp add: node_history_def)

lemma cb_run_matches: "int (length es) < 2 ^ 63 \<Longrightarrow> cb_matches (cb_run es) n (node_history n es)"
proof (induction es rule: rev_induct)
  case Nil
  then show ?case by (simp add: cb_matches_def cb_run_def newCircuitBreaker_def node_history_def)
next
  case (snoc e es)
  have "int (length (node_history n es)) < 2 ^ 63 - 1"
    using snoc.prems node_history_length [of n es] by simp
  then have "cb_matches (cb_step (cb_run es) e) n (history n (node_history n es) e)"
    using snoc by (intro cb_matches_step) auto
  then show ?case by (simp add: cb_run_def node_history_def)
qed

text \<open>A node is reported blocked exactly in the five minutes after its third counted failure.\<close>

lemma IsBlocked_history:
  "int (length es) < 2 ^ 63 \<Longrightarrow>
     fst (IsBlocked t (cb_run es) n) \<longleftrightarrow>
       3 \<le> length (node_history n es) \<and> t \<le> snd (hd (node_history n es)) + 5 * Minute"
  using cb_run_matches [of es n] by (auto simp: cb_matches_def IsBlocked_def split: option.splits if_splits)

subsection \<open>Queries\<close>

lemma IsBlocked_other [frame]:
  "m \<noteq> n \<Longrightarrow> failures (snd (IsBlocked t cb n)) m = failures cb m \<and>
     blocked (snd (IsBlocked t cb n)) m = blocked cb m \<and>
     lastFailedJob (snd (IsBlocked t cb n)) m = lastFailedJob cb m"
  by (simp add: IsBlocked_def split: option.split)

text \<open>Queries at one instant are stable: asking does not change a later answer.\<close>

lemma IsBlocked_stable:
  "fst (IsBlocked t (snd (IsBlocked t cb n)) m) = fst (IsBlocked t cb m)"
  by (auto simp: IsBlocked_def split: option.splits if_splits)

subsection \<open>Property\<close>

text \<open>
  C8. The breaker against its history: after any sequence of failure reports, success
  reports and queries, a node is reported as blocked at an instant exactly when it had
  three or more counted failures (consecutive failures of different jobs since its last
  success or expired block) and at most five minutes have passed since the newest one.
\<close>

theorem breaker_blocks_exactly:
  assumes "int (length es) < 2 ^ 63"
  shows "fst (IsBlocked t (cb_run es) n) \<longleftrightarrow>
    3 \<le> length (node_history n es) \<and> t \<le> snd (hd (node_history n es)) + 5 * Minute"
  using assms by (rule IsBlocked_history)

theorem breaker_blocks_exactly_witness:
  "fst (IsBlocked 7 (cb_run [Failure ''n'' ''a'' 1, Failure ''n'' ''b'' 2, Failure ''n'' ''b'' 3, Failure ''n'' ''c'' 4]) ''n'')"
  using breaker_blocks_exactly [of "[Failure ''n'' ''a'' 1, Failure ''n'' ''b'' 2, Failure ''n'' ''b'' 3, Failure ''n'' ''c'' 4]" 7 "''n''"]
  by (simp add: node_history_def Minute_def Second_def)

end
