(* ===== verification/Resource_Tracker.thy ===== *)
theory Resource_Tracker
  imports Tasch_Prelude
begin

text \<open>
  The multi-resource tracker of \<open>internal/daemon/master.go\<close> (\<open>gpuTracker\<close>): per node the
  GPUs, CPUs and memory currently allocated. The locale \<open>ledger\<close> states the bookkeeping
  contract of one such counter against the multiset of the allocations still outstanding;
  it is interpreted on the three counters of the tracker.
\<close>

record gpuTracker =
  gpusAllocated :: "string \<rightharpoonup> int"
  cpusAllocated :: "string \<rightharpoonup> int"
  memAllocated :: "string \<rightharpoonup> int"

definition newGPUTracker :: gpuTracker where
  "newGPUTracker = \<lparr>gpusAllocated = Map.empty, cpusAllocated = Map.empty, memAllocated = Map.empty\<rparr>"

text \<open>\<open>m[node] += x\<close>, and \<open>m[node] -= x\<close> followed by the deletion of an entry that is not positive.\<close>

definition counter_add :: "(string \<rightharpoonup> int) \<Rightarrow> string \<Rightarrow> int \<Rightarrow> (string \<rightharpoonup> int)" where
  "counter_add m node x = m(node \<mapsto> i64 (get_or 0 m node + x))"

definition counter_sub :: "(string \<rightharpoonup> int) \<Rightarrow> string \<Rightarrow> int \<Rightarrow> (string \<rightharpoonup> int)" where
  "counter_sub m node x =
     (let m1 = m(node \<mapsto> i64 (get_or 0 m node - x))
      in if get_or 0 m1 node \<le> 0 then m1(node := None) else m1)"

definition Allocate :: "gpuTracker \<Rightarrow> string \<Rightarrow> int \<Rightarrow> int \<Rightarrow> int \<Rightarrow> gpuTracker" where
  "Allocate gt node gpus cpus memMB =
     gt\<lparr>gpusAllocated := counter_add (gpusAllocated gt) node gpus,
        cpusAllocated := counter_add (cpusAllocated gt) node cpus,
        memAllocated := counter_add (memAllocated gt) node memMB\<rparr>"

definition Release :: "gpuTracker \<Rightarrow> string \<Rightarrow> int \<Rightarrow> int \<Rightarrow> int \<Rightarrow> gpuTracker" where
  "Release gt node gpus cpus memMB =
     gt\<lparr>gpusAllocated := counter_sub (gpusAllocated gt) node gpus,
        cpusAllocated := counter_sub (cpusAllocated gt) node cpus,
        memAllocated := counter_sub (memAllocated gt) node memMB\<rparr>"

definition AvailableGPUs :: "gpuTracker \<Rightarrow> string \<Rightarrow> int \<Rightarrow> int" where
  "AvailableGPUs gt node tot = i64 (tot - get_or 0 (gpusAllocated gt) node)"

definition AvailableCPUs :: "gpuTracker \<Rightarrow> string \<Rightarrow> int \<Rightarrow> int" where
  "AvailableCPUs gt node tot = i64 (tot - get_or 0 (cpusAllocated gt) node)"

definition AvailableMemory :: "gpuTracker \<Rightarrow> string \<Rightarrow> int \<Rightarrow> int" where
  "AvailableMemory gt node tot = i64 (tot - get_or 0 (memAllocated gt) node)"

subsection \<open>Outstanding allocations\<close>

text \<open>An allocation: the node and the three amounts.\<close>

record alloc =
  aNode :: string
  aGPUs :: int
  aCPUs :: int
  aMem :: int

definition sum_on :: "(alloc \<Rightarrow> int) \<Rightarrow> alloc multiset \<Rightarrow> string \<Rightarrow> int" where
  "sum_on amt L node = (\<Sum>a\<in>#L. if aNode a = node then amt a else 0)"

lemma sum_on_empty [simp]: "sum_on amt {#} node = 0"
  by (simp add: sum_on_def)

lemma sum_on_add [simp]:
  "sum_on amt (add_mset a L) node = (if aNode a = node then amt a else 0) + sum_on amt L node"
  by (simp add: sum_on_def)

lemma sum_on_diff:
  "a \<in># L \<Longrightarrow> sum_on amt (L - {#a#}) node = sum_on amt L node - (if aNode a = node then amt a else 0)"
  by (metis add_diff_cancel_left' insert_DiffM sum_on_add)

lemma sum_on_nonneg: "(\<And>a. a \<in># L \<Longrightarrow> 0 \<le> amt a) \<Longrightarrow> 0 \<le> sum_on amt L node"
  by (induction L) auto

text \<open>Every amount is non-negative and no node's total leaves the 64-bit range.\<close>

definition sane :: "(alloc \<Rightarrow> int) \<Rightarrow> alloc multiset \<Rightarrow> bool" where
  "sane amt L \<longleftrightarrow> (\<forall>a\<in>#L. 0 \<le> amt a) \<and> (\<forall>node. in_i64 (sum_on amt L node))"

lemma sane_diff:
  assumes "sane amt L"
  shows "sane amt (L - {#a#})"
proof (cases "a \<in># L")
  case True
  have nonneg: "\<And>b. b \<in># L - {#a#} \<Longrightarrow> 0 \<le> amt b"
    using assms by (auto simp: sane_def dest: in_diffD)
  have "in_i64 (sum_on amt (L - {#a#}) node)" for node
  proof (rule in_i64_between [of 0 "sum_on amt L node"])
    show "sum_on amt (L - {#a#}) node \<le> sum_on amt L node"
      using assms True by (auto simp: sum_on_diff sane_def)
    show "0 \<le> sum_on amt (L - {#a#}) node" using nonneg by (rule sum_on_nonneg)
  qed (use assms in \<open>auto simp: sane_def\<close>)
  then show ?thesis using nonneg by (auto simp: sane_def)
qed (use assms in \<open>simp add: diff_single_trivial\<close>)

locale ledger =
  fixes read :: "'t \<Rightarrow> string \<Rightarrow> int"
    and alloc :: "'t \<Rightarrow> alloc \<Rightarrow> 't"
    and release :: "'t \<Rightarrow> alloc \<Rightarrow> 't"
    and amt :: "alloc \<Rightarrow> int"
  assumes read_alloc: "read (alloc t a) node = (if node = aNode a then i64 (read t node + amt a) else read t node)"
    and read_release: "read (release t a) node =
          (if node = aNode a then max 0 (i64 (read t node - amt a)) else read t node)"
begin

text \<open>The counter holds the sum of the outstanding amounts of every node.\<close>

lemma alloc_tracks:
  assumes "\<And>node. read t node = sum_on amt L node" "sane amt (add_mset a L)"
  shows "read (alloc t a) node = sum_on amt (add_mset a L) node"
proof -
  have "in_i64 (sum_on amt (add_mset a L) (aNode a))" using assms(2) unfolding sane_def by blast
  then show ?thesis using assms(1) by (auto simp: read_alloc add.commute)
qed

lemma release_tracks:
  assumes "\<And>node. read t node = sum_on amt L node" "sane amt L" "a \<in># L"
  shows "read (release t a) node = sum_on amt (L - {#a#}) node"
proof -
  have s: "sane amt (L - {#a#})" using assms(2) by (rule sane_diff)
  then have "0 \<le> sum_on amt (L - {#a#}) (aNode a)"
    by (intro sum_on_nonneg) (auto simp: sane_def)
  moreover have "in_i64 (sum_on amt (L - {#a#}) (aNode a))"
    using s unfolding sane_def by blast
  ultimately show ?thesis using assms(1,3) by (auto simp: read_release sum_on_diff)
qed

text \<open>A second release of the same amount makes the counter fall short of the sum.\<close>

lemma double_release_short:
  assumes "\<And>node. read t node = sum_on amt L node" "sane amt L" "b \<in># L" "aNode b = aNode a"
    "0 < amt a" "in_i64 (amt a)" "0 < amt b"
  shows "read (release t a) (aNode a) < sum_on amt L (aNode a)"
proof -
  have nonneg: "0 \<le> sum_on amt (L - {#b#}) (aNode a)"
    using sane_diff [OF assms(2), of b] by (intro sum_on_nonneg) (auto simp: sane_def)
  then have pos: "0 < sum_on amt L (aNode a)"
    using sum_on_diff [OF assms(3), of amt "aNode a"] assms(4,7) by simp
  have "in_i64 (sum_on amt L (aNode a))" using assms(2) unfolding sane_def by blast
  then have "in_i64 (sum_on amt L (aNode a) - amt a)"
    using pos assms(5,6) by (simp add: in_i64_def)
  then show ?thesis using pos assms(1,5) by (simp add: read_release)
qed

end

subsection \<open>The three counters of the tracker\<close>

definition used_gpus :: "gpuTracker \<Rightarrow> string \<Rightarrow> int" where
  "used_gpus gt node = get_or 0 (gpusAllocated gt) node"

definition used_cpus :: "gpuTracker \<Rightarrow> string \<Rightarrow> int" where
  "used_cpus gt node = get_or 0 (cpusAllocated gt) node"

definition used_mem :: "gpuTracker \<Rightarrow> string \<Rightarrow> int" where
  "used_mem gt node = get_or 0 (memAllocated gt) node"

lemmas used_defs = used_gpus_def used_cpus_def used_mem_def

definition allocate :: "gpuTracker \<Rightarrow> alloc \<Rightarrow> gpuTracker" where
  "allocate gt a = Allocate gt (aNode a) (aGPUs a) (aCPUs a) (aMem a)"

definition release :: "gpuTracker \<Rightarrow> alloc \<Rightarrow> gpuTracker" where
  "release gt a = Release gt (aNode a) (aGPUs a) (aCPUs a) (aMem a)"

lemma get_or_counter_add [simp]:
  "get_or 0 (counter_add m node x) n = (if n = node then i64 (get_or 0 m node + x) else get_or 0 m n)"
  by (simp add: counter_add_def)

lemma get_or_counter_sub [simp]:
  "get_or 0 (counter_sub m node x) n =
     (if n = node then max 0 (i64 (get_or 0 m node - x)) else get_or 0 m n)"
  by (auto simp: counter_sub_def Let_def)

interpretation gpus: ledger used_gpus allocate release aGPUs
  by unfold_locales (auto simp: used_defs allocate_def release_def Allocate_def Release_def)

interpretation cpus: ledger used_cpus allocate release aCPUs
  by unfold_locales (auto simp: used_defs allocate_def release_def Allocate_def Release_def)

interpretation memory: ledger used_mem allocate release aMem
  by unfold_locales (auto simp: used_defs allocate_def release_def Allocate_def Release_def)

text \<open>The tracker holds, for every node and resource, the sum of the outstanding allocations.\<close>

definition tracks :: "gpuTracker \<Rightarrow> alloc multiset \<Rightarrow> bool" where
  "tracks gt L \<longleftrightarrow> (\<forall>node. used_gpus gt node = sum_on aGPUs L node \<and>
     used_cpus gt node = sum_on aCPUs L node \<and> used_mem gt node = sum_on aMem L node)"

definition sane_ledger :: "alloc multiset \<Rightarrow> bool" where
  "sane_ledger L \<longleftrightarrow> sane aGPUs L \<and> sane aCPUs L \<and> sane aMem L"

lemma tracks_new: "tracks newGPUTracker {#}"
  by (simp add: tracks_def used_defs newGPUTracker_def)

lemma tracks_allocate: "tracks gt L \<Longrightarrow> sane_ledger (add_mset a L) \<Longrightarrow> tracks (allocate gt a) (add_mset a L)"
  unfolding tracks_def sane_ledger_def
  using gpus.alloc_tracks cpus.alloc_tracks memory.alloc_tracks by blast

lemma tracks_release: "tracks gt L \<Longrightarrow> sane_ledger L \<Longrightarrow> a \<in># L \<Longrightarrow> tracks (release gt a) (L - {#a#})"
  unfolding tracks_def sane_ledger_def
  using gpus.release_tracks cpus.release_tracks memory.release_tracks by blast

lemma sane_ledger_diff: "sane_ledger L \<Longrightarrow> sane_ledger (L - {#a#})"
  by (simp add: sane_ledger_def sane_diff)

text \<open>Releasing what was just allocated leaves every counter as it was, when none was negative.\<close>

definition counters_ok :: "gpuTracker \<Rightarrow> bool" where
  "counters_ok gt \<longleftrightarrow> (\<forall>node. \<forall>c\<in>{used_gpus gt node, used_cpus gt node, used_mem gt node}. 0 \<le> c \<and> in_i64 c)"

definition same_use :: "gpuTracker \<Rightarrow> gpuTracker \<Rightarrow> bool" where
  "same_use gt gt' \<longleftrightarrow> used_gpus gt' = used_gpus gt \<and> used_cpus gt' = used_cpus gt \<and> used_mem gt' = used_mem gt"

lemma release_undoes_allocate:
  assumes "counters_ok gt"
  shows "same_use gt (Release (Allocate gt n g c mb) n g c mb)"
  using assms by (simp add: same_use_def counters_ok_def used_defs Allocate_def Release_def fun_eq_iff i64_undo)

subsection \<open>Properties\<close>

text \<open>Trackers reached by allocations, and by releases of allocations still outstanding.\<close>

inductive ledger_run :: "gpuTracker \<Rightarrow> alloc multiset \<Rightarrow> bool" where
  new: "ledger_run newGPUTracker {#}"
| allocated: "ledger_run gt L \<Longrightarrow> sane_ledger (add_mset a L) \<Longrightarrow> ledger_run (allocate gt a) (add_mset a L)"
| released: "ledger_run gt L \<Longrightarrow> a \<in># L \<Longrightarrow> ledger_run (release gt a) (L - {#a#})"

lemma ledger_run_tracks: "ledger_run gt L \<Longrightarrow> tracks gt L \<and> sane_ledger L"
  by (induction rule: ledger_run.induct)
    (auto simp: tracks_new tracks_allocate tracks_release sane_ledger_diff,
     auto simp: sane_ledger_def sane_def)


definition sample_alloc :: alloc where
  "sample_alloc = \<lparr>aNode = ''n'', aGPUs = 2, aCPUs = 4, aMem = 1024\<rparr>"

lemma sample_ledger: "ledger_run (allocate newGPUTracker sample_alloc) {#sample_alloc#}"
  by (rule ledger_run.allocated [OF ledger_run.new])
    (auto simp: sane_ledger_def sane_def sample_alloc_def in_i64_def)


text \<open>
  A release that matches no outstanding allocation makes the tracker forget one that is
  still in use: the counter of the node then lies below the sum of its outstanding
  allocations. \<open>ReportResult\<close> releases for every report that names a job with a worker
  node, also when the allocation was already released by a cancellation.
\<close>

theorem double_release_underestimates:
  assumes "ledger_run gt L" "b \<in># L" "aNode b = aNode a" "0 < aGPUs a" "in_i64 (aGPUs a)" "0 < aGPUs b"
  shows "used_gpus (release gt a) (aNode a) < sum_on aGPUs L (aNode a)"
  using ledger_run_tracks [OF assms(1)] assms(2-)
  by (intro gpus.double_release_short [of gt L b]) (auto simp: tracks_def sane_ledger_def)

theorem double_release_underestimates_witness:
  "used_gpus (release (allocate newGPUTracker sample_alloc) sample_alloc) ''n'' < sum_on aGPUs {#sample_alloc#} ''n''"
  using double_release_underestimates [OF sample_ledger, of sample_alloc sample_alloc]
  by (simp add: sample_alloc_def in_i64_def)

end
