(* ===== verification/Float64.thy ===== *)
theory Float64
  imports Complex_Main
begin

text \<open>
  Go's \<open>float64\<close> as far as the scheduler uses it: finite, non-negative quantities
  (resource usage, durations) under addition, multiplication and division. A value is
  the rational it denotes; every operation computes the exact result and rounds it to
  the nearest representable number, ties to even, as IEEE 754 prescribes. Infinities,
  NaN and the overflow beyond \<open>2 ^ 1024\<close> are left out: a usage would have to grow past
  ten to the three hundredth power of seconds.
\<close>

subsection \<open>Binary logarithms\<close>

fun ilog2 :: "nat \<Rightarrow> nat" where
  "ilog2 n = (if n < 2 then 0 else Suc (ilog2 (n div 2)))"

declare ilog2.simps [simp del]

lemma ilog2_bounds: "0 < n \<Longrightarrow> 2 ^ ilog2 n \<le> n \<and> n < 2 ^ Suc (ilog2 n)"
proof (induction n rule: ilog2.induct)
  case (1 n)
  show ?case
  proof (cases "n < 2")
    case True
    with 1 show ?thesis by (simp add: ilog2.simps)
  next
    case False
    with 1 have "2 ^ ilog2 (n div 2) \<le> n div 2 \<and> n div 2 < 2 ^ Suc (ilog2 (n div 2))" by simp
    with False show ?thesis by (simp add: ilog2.simps [of n]) linarith
  qed
qed

definition flog2 :: "rat \<Rightarrow> int" where
  "flog2 q = (let (a, b) = quotient_of q; k = int (ilog2 (nat a)) - int (ilog2 (nat b))
              in if 2 powi k \<le> q then k else k - 1)"

lemma flog2_bounds:
  assumes "0 < q"
  shows "2 powi flog2 q \<le> q \<and> q < 2 powi (flog2 q + 1)"
proof -
  obtain a b where ab: "quotient_of q = (a, b)" by fastforce
  have b: "0 < b" and q: "q = of_int a / of_int b"
    using quotient_of_denom_pos [OF ab] quotient_of_div [OF ab] by auto
  have a: "0 < a" using assms b by (simp add: q zero_less_divide_iff)
  let ?i = "ilog2 (nat a)" and ?j = "ilog2 (nat b)"
  let ?k = "int ?i - int ?j"
  have up: "(of_nat m :: rat) < 2 * 2 ^ ilog2 m" and lo: "2 ^ ilog2 m \<le> (of_nat m :: rat)" if "0 < m" for m
  proof -
    have "(of_nat m :: rat) < of_nat (2 ^ Suc (ilog2 m))" "of_nat (2 ^ ilog2 m) \<le> (of_nat m :: rat)"
      using ilog2_bounds [OF that] by (simp_all only: of_nat_less_iff of_nat_le_iff)
    then show "(of_nat m :: rat) < 2 * 2 ^ ilog2 m" "2 ^ ilog2 m \<le> (of_nat m :: rat)" by simp_all
  qed
  have A: "2 ^ ?i \<le> (of_int a :: rat)" "(of_int a :: rat) < 2 * 2 ^ ?i"
    using up [of "nat a"] lo [of "nat a"] a by (simp_all add: of_nat_nat)
  have B: "2 ^ ?j \<le> (of_int b :: rat)" "(of_int b :: rat) < 2 * 2 ^ ?j"
    using up [of "nat b"] lo [of "nat b"] b by (simp_all add: of_nat_nat)
  have pk: "(2 :: rat) powi ?k = 2 ^ ?i / 2 ^ ?j" by (simp add: power_int_diff)
  have "q < 2 powi (?k + 1)"
  proof -
    have "q \<le> of_int a / 2 ^ ?j" unfolding q using a b B(1) by (intro divide_left_mono) auto
    also have "\<dots> < 2 * 2 ^ ?i / 2 ^ ?j" using A(2) by (intro divide_strict_right_mono) auto
    finally show ?thesis by (simp add: power_int_add pk mult.commute)
  qed
  moreover have "2 powi (?k - 1) \<le> q"
  proof -
    have "2 ^ ?i / (2 * 2 ^ ?j) \<le> of_int a / (2 * 2 ^ ?j :: rat)" using A(1) by (intro divide_right_mono) auto
    also have "\<dots> \<le> q" unfolding q using a b B(2) by (intro divide_left_mono) auto
    finally show ?thesis using pk by (simp add: power_int_diff)
  qed
  ultimately show ?thesis
    by (auto simp: flog2_def ab Let_def)
qed

lemma powi2_mono: "m \<le> n \<Longrightarrow> (2 :: rat) powi m \<le> 2 powi n"
  by (rule power_int_increasing) auto

lemma powi2_less_iff: "(2 :: rat) powi m < 2 powi n \<longleftrightarrow> m < n"
  by (metis linorder_not_less one_less_numeral_iff power_int_strict_increasing powi2_mono semiring_norm(76))

lemma flog2_less: "0 < x \<Longrightarrow> x < 2 powi n \<Longrightarrow> flog2 x < n"
  using flog2_bounds [of x] powi2_less_iff [of "flog2 x" n] by (meson le_less_trans)

lemma flog2_mono:
  assumes "0 < x" "x \<le> y"
  shows "flog2 x \<le> flog2 y"
proof -
  have "x < 2 powi (flog2 y + 1)" using flog2_bounds [of y] assms by simp
  then show ?thesis using flog2_less [OF assms(1)] by fastforce
qed

subsection \<open>Rounding\<close>

text \<open>To the nearest integer, ties to even.\<close>

definition rne :: "rat \<Rightarrow> int" where
  "rne x = (let f = \<lfloor>x\<rfloor>; d = x - of_int f
            in if d < 1 / 2 then f else if 1 / 2 < d then f + 1 else if even f then f else f + 1)"

lemma rne_int [simp]: "rne (of_int n) = n"
  by (simp add: rne_def)

lemma rne_floor: "\<lfloor>x\<rfloor> \<le> rne x \<and> rne x \<le> \<lfloor>x\<rfloor> + 1"
  by (simp add: rne_def Let_def)

lemma rne_mono:
  assumes "x \<le> y"
  shows "rne x \<le> rne y"
proof (cases "\<lfloor>x\<rfloor> = \<lfloor>y\<rfloor>")
  case True
  then show ?thesis using assms by (simp add: rne_def Let_def)
next
  case False
  then have "\<lfloor>x\<rfloor> + 1 \<le> \<lfloor>y\<rfloor>" using floor_mono [OF assms] by linarith
  then show ?thesis using rne_floor [of x] rne_floor [of y] by linarith
qed

text \<open>The exponent of the last place of a \<open>float64\<close> near \<open>x\<close>.\<close>

definition ulp_exp :: "rat \<Rightarrow> int" where
  "ulp_exp x = max (flog2 \<bar>x\<bar> - 52) (- 1074)"

definition f64 :: "rat \<Rightarrow> rat" where
  "f64 x = (if x = 0 then 0
            else let e = ulp_exp x in of_int (rne (x / 2 powi e)) * 2 powi e)"

text \<open>The representable non-negative numbers.\<close>

definition is_f64 :: "rat \<Rightarrow> bool" where
  "is_f64 x \<longleftrightarrow> (\<exists>m e. x = of_int m * 2 powi e \<and> 0 \<le> m \<and> m < 2 ^ 53 \<and> - 1074 \<le> e)"

lemma f64_0 [simp]: "f64 0 = 0"
  by (simp add: f64_def)

lemma powi2_pos [simp]: "0 < (2 :: rat) powi e"
  by simp

lemma f64_nonneg: "0 \<le> x \<Longrightarrow> 0 \<le> f64 x"
  using rne_mono [of 0 "x / 2 powi ulp_exp x"] rne_int [of 0]
  by (auto simp: f64_def Let_def)

text \<open>A multiple of the unit in the last place of \<open>x\<close> is a bound of the rounding of \<open>x\<close>.\<close>

lemma f64_le_multiple:
  assumes "0 < x" "x \<le> of_int n * 2 powi ulp_exp x"
  shows "f64 x \<le> of_int n * 2 powi ulp_exp x"
proof -
  have "x / 2 powi ulp_exp x \<le> of_int n" using assms by (simp add: pos_divide_le_eq)
  then have "rne (x / 2 powi ulp_exp x) \<le> n" using rne_mono rne_int by metis
  then show ?thesis using assms(1) by (simp add: f64_def Let_def)
qed

lemma f64_ge_multiple:
  assumes "0 < x" "of_int n * 2 powi ulp_exp x \<le> x"
  shows "of_int n * 2 powi ulp_exp x \<le> f64 x"
proof -
  have "of_int n \<le> x / 2 powi ulp_exp x" using assms by (simp add: pos_le_divide_eq)
  then have "n \<le> rne (x / 2 powi ulp_exp x)" using rne_mono rne_int by metis
  then show ?thesis using assms(1) by (simp add: f64_def Let_def)
qed

lemma powi2_multiple: "e \<le> n \<Longrightarrow> (2 :: rat) powi n = of_int (2 ^ nat (n - e)) * 2 powi e"
proof -
  assume "e \<le> n"
  then have "(2 :: rat) powi (n - e) = 2 ^ nat (n - e)" by (simp add: power_int_def)
  moreover have "(2 :: rat) powi n = 2 powi (n - e) * 2 powi e" by (simp flip: power_int_add)
  ultimately show ?thesis by simp
qed

lemma f64_mono:
  assumes "0 \<le> x" "x \<le> y"
  shows "f64 x \<le> f64 y"
proof (cases "x = 0")
  case True
  then show ?thesis using assms f64_nonneg by simp
next
  case False
  then have x: "0 < x" and y: "0 < y" using assms by auto
  have le: "flog2 x \<le> flog2 y" by (rule flog2_mono [OF x assms(2)])
  show ?thesis
  proof (cases "ulp_exp x = ulp_exp y")
    case True
    have "rne (x / 2 powi ulp_exp y) \<le> rne (y / 2 powi ulp_exp y)"
      using assms(2) by (intro rne_mono divide_right_mono) auto
    then show ?thesis using x y True by (simp add: f64_def Let_def)
  next
    case False
    let ?b = "2 powi flog2 y :: rat"
    have xy: "flog2 x < flog2 y" "ulp_exp y = flog2 y - 52" "ulp_exp x \<le> flog2 y"
      using le False x y by (auto simp: ulp_exp_def)
    have b: "?b \<le> y" using flog2_bounds [OF y] by simp
    have "x < 2 powi (flog2 x + 1)" using flog2_bounds [OF x] by simp
    also have "\<dots> \<le> ?b" using xy(1) by (intro powi2_mono) simp
    finally have "f64 x \<le> ?b"
      using f64_le_multiple [OF x] powi2_multiple [OF xy(3)] by (metis less_imp_le)
    also have "?b \<le> f64 y"
      using f64_ge_multiple [OF y] powi2_multiple [of "ulp_exp y" "flog2 y"] b xy(2) by (metis diff_le_eq add_increasing2 order_refl zero_le_numeral)
    finally show ?thesis .
  qed
qed

lemma f64_fixed:
  assumes "is_f64 x"
  shows "f64 x = x"
proof (cases "x = 0")
  case False
  obtain m e where x: "x = of_int m * 2 powi e" "0 \<le> m" "m < 2 ^ 53" "- 1074 \<le> e"
    using assms by (auto simp: is_f64_def)
  have pos: "0 < x" using False x(1,2) by (auto simp: zero_less_mult_iff)
  have "x < 2 ^ 53 * 2 powi e"
  proof -
    have "(of_int m :: rat) < of_int (2 ^ 53)" using x(3) by (simp only: of_int_less_iff)
    then show ?thesis unfolding x(1) by (intro mult_strict_right_mono) auto
  qed
  also have "2 ^ 53 * 2 powi e = (2 :: rat) powi (53 + e)" by (simp add: power_int_add)
  finally have "flog2 x < 53 + e" using pos by (rule flog2_less [rotated])
  then have "ulp_exp x \<le> e" using pos x(4) by (simp add: ulp_exp_def)
  then have "x = of_int (m * 2 ^ nat (e - ulp_exp x)) * 2 powi ulp_exp x"
    unfolding x(1) using powi2_multiple [of "ulp_exp x" e] x(1) by simp
  then have "x / 2 powi ulp_exp x = of_int (m * 2 ^ nat (e - ulp_exp x))"
    by (metis nonzero_mult_div_cancel_right powi2_pos less_irrefl)
  then have "of_int (rne (x / 2 powi ulp_exp x)) * 2 powi ulp_exp x = x"
    using rne_int by (metis nonzero_eq_divide_eq powi2_pos less_irrefl)
  then show ?thesis using False by (simp add: f64_def Let_def)
qed simp

lemma is_f64_carry:
  assumes "- 1074 \<le> e"
  shows "is_f64 (of_int (2 ^ 53) * 2 powi e)"
proof -
  have "(2 :: rat) powi (e + 1) = 2 powi e * 2" by (simp add: power_int_add)
  then have "of_int (2 ^ 53) * 2 powi e = of_int (2 ^ 52) * (2 :: rat) powi (e + 1)" by simp
  moreover have "(0 :: int) \<le> 2 ^ 52" "(2 :: int) ^ 52 < 2 ^ 53" "- 1074 \<le> e + 1" using assms by simp_all
  ultimately show ?thesis unfolding is_f64_def by blast
qed

lemma is_f64_f64:
  assumes "0 \<le> x"
  shows "is_f64 (f64 x)"
proof (cases "x = 0")
  case True
  then show ?thesis unfolding is_f64_def by (intro exI [of _ 0]) auto
next
  case False
  let ?e = "ulp_exp x" and ?m = "rne (x / 2 powi ulp_exp x)"
  have x: "0 < x" using False assms by simp
  have f: "f64 x = of_int ?m * 2 powi ?e" using False by (simp add: f64_def Let_def)
  have "x < 2 powi (flog2 x + 1)" using flog2_bounds [OF x] by simp
  also have "\<dots> \<le> 2 powi (53 + ?e)" using x by (intro powi2_mono) (simp add: ulp_exp_def)
  finally have "x \<le> of_int (2 ^ 53) * 2 powi ?e" by (simp add: power_int_add)
  then have "x / 2 powi ?e \<le> of_int (2 ^ 53)" by (simp add: pos_divide_le_eq)
  then have hi: "?m \<le> 2 ^ 53" using rne_mono rne_int by metis
  have lo: "0 \<le> ?m" using rne_mono [of 0 "x / 2 powi ?e"] x rne_int [of 0] by simp
  have e: "- 1074 \<le> ?e" by (simp add: ulp_exp_def)
  show ?thesis
  proof (cases "?m = 2 ^ 53")
    case True
    then have "f64 x = of_int (2 ^ 53) * 2 powi ?e" using f by metis
    then show ?thesis using is_f64_carry [OF e] by metis
  next
    case False
    then show ?thesis using f hi lo e unfolding is_f64_def by (intro exI [of _ ?m] exI [of _ ?e]) auto
  qed
qed

lemma f64_idem [simp]: "0 \<le> x \<Longrightarrow> f64 (f64 x) = f64 x"
  by (simp add: f64_fixed is_f64_f64)

text \<open>Counts below \<open>2 ^ 53\<close> are exact.\<close>

lemma is_f64_of_int: "0 \<le> n \<Longrightarrow> n < 2 ^ 53 \<Longrightarrow> is_f64 (of_int n)"
  unfolding is_f64_def by (intro exI [of _ n] exI [of _ 0]) auto

lemma is_f64_numeral: "(numeral k :: int) < 2 ^ 53 \<Longrightarrow> is_f64 (numeral k)"
  using is_f64_of_int [of "numeral k"] by simp

subsection \<open>Conversions\<close>

text \<open>
  \<open>int(x)\<close> truncates. A value outside the 64-bit range converts to the smallest integer,
  which is what the amd64 instruction yields; the language leaves that case open.
\<close>

definition f64_to_int :: "rat \<Rightarrow> int" where
  "f64_to_int x = (let n = (if 0 \<le> x then \<lfloor>x\<rfloor> else \<lceil>x\<rceil>)
                   in if - (2 ^ 63) \<le> n \<and> n < 2 ^ 63 then n else - (2 ^ 63))"

text \<open>
  \<open>Duration.Seconds()\<close>: whole seconds and the remaining nanoseconds (Go's division
  truncates), converted separately and added.
\<close>

definition duration_Seconds :: "int \<Rightarrow> rat" where
  "duration_Seconds d =
     (let sec = sgn d * (\<bar>d\<bar> div 1000000000); nsec = sgn d * (\<bar>d\<bar> mod 1000000000)
      in f64 (f64 (of_int sec) + f64 (f64 (of_int nsec) / 1000000000)))"

lemma duration_Seconds_nonneg:
  assumes "0 \<le> d"
  shows "0 \<le> duration_Seconds d"
proof -
  have sgn: "0 \<le> sgn d" using assms by (simp add: sgn_if)
  have "0 \<le> sgn d * (\<bar>d\<bar> div 1000000000)" "0 \<le> sgn d * (\<bar>d\<bar> mod 1000000000)"
    by (intro mult_nonneg_nonneg sgn; simp add: pos_imp_zdiv_nonneg_iff)+
  then have "0 \<le> f64 (of_int (sgn d * (\<bar>d\<bar> div 1000000000)))" "0 \<le> f64 (of_int (sgn d * (\<bar>d\<bar> mod 1000000000)))"
    by (intro f64_nonneg; simp only: of_int_0_le_iff)+
  then have "0 \<le> f64 (f64 (of_int (sgn d * (\<bar>d\<bar> mod 1000000000))) / 1000000000)"
    by (intro f64_nonneg [of "_ / _"] divide_nonneg_nonneg) (assumption, simp)
  with \<open>0 \<le> f64 (of_int (sgn d * (\<bar>d\<bar> div 1000000000)))\<close> show ?thesis
    unfolding duration_Seconds_def Let_def
    by (intro f64_nonneg [of "_ + _"] add_nonneg_nonneg)
qed

text \<open>A whole number of seconds is exact.\<close>

lemma duration_Seconds_whole:
  assumes "0 \<le> s" "s < 2 ^ 53"
  shows "duration_Seconds (s * 1000000000) = of_int s"
proof -
  have "sgn (s * 1000000000) * (\<bar>s * 1000000000\<bar> div 1000000000) = s"
    using assms(1) by (simp add: sgn_if abs_mult)
  moreover have "\<bar>s * 1000000000\<bar> mod 1000000000 = 0" by (simp add: abs_mult)
  ultimately show ?thesis
    using f64_fixed [OF is_f64_of_int [OF assms]] by (simp add: duration_Seconds_def)
qed

end
