(* ===== verification/Fairshare.thy ===== *)
theory Fairshare
  imports Float64 Tasch_Prelude
begin

text \<open>
  \<open>FairshareCalculator\<close> of \<open>pkg/scheduler/queue.go\<close>: usage per user in \<open>float64\<close>, the
  priority penalty computed from it, and its periodic decay.
\<close>

record FairshareCalculator =
  UserUsage :: "string \<rightharpoonup> rat"

definition NewFairshareCalculator :: FairshareCalculator where
  "NewFairshareCalculator = \<lparr>UserUsage = Map.empty\<rparr>"

definition RecordUsage :: "FairshareCalculator \<Rightarrow> string \<Rightarrow> rat \<Rightarrow> FairshareCalculator" where
  "RecordUsage fc user units =
     fc\<lparr>UserUsage := (UserUsage fc)(user \<mapsto> f64 (get_or 0 (UserUsage fc) user + units))\<rparr>"

definition CalculatePenalty :: "FairshareCalculator \<Rightarrow> string \<Rightarrow> int" where
  "CalculatePenalty fc user =
     (case UserUsage fc user of None \<Rightarrow> 0 | Some usage \<Rightarrow> f64_to_int (f64 (usage / 100)))"

text \<open>The range visits every user once, so the order of the visit has no effect.\<close>

definition DecayUsage :: "FairshareCalculator \<Rightarrow> rat \<Rightarrow> FairshareCalculator" where
  "DecayUsage fc factor =
     fc\<lparr>UserUsage := (\<lambda>user. map_option (\<lambda>usage. f64 (usage * factor)) (UserUsage fc user))\<rparr>"

text \<open>The decay factor of the master's minute ticker, \<open>0.95\<close> as a \<open>float64\<close>.\<close>

definition decay_factor :: rat where
  "decay_factor = f64 (95 / 100)"

subsection \<open>Properties\<close>

text \<open>Usages are non-negative and representable.\<close>

definition usage_ok :: "FairshareCalculator \<Rightarrow> bool" where
  "usage_ok fc \<longleftrightarrow> (\<forall>user u. UserUsage fc user = Some u \<longrightarrow> 0 \<le> u \<and> f64 u = u)"

lemma usage_ok_new: "usage_ok NewFairshareCalculator"
  by (simp add: usage_ok_def NewFairshareCalculator_def)

lemma usage_ok_get: "usage_ok fc \<Longrightarrow> 0 \<le> get_or 0 (UserUsage fc) user"
  by (simp add: usage_ok_def get_or_def split: option.split)

lemma usage_ok_record: "usage_ok fc \<Longrightarrow> 0 \<le> units \<Longrightarrow> usage_ok (RecordUsage fc user units)"
  using usage_ok_get [of fc user] by (auto simp: usage_ok_def RecordUsage_def f64_nonneg)

lemma usage_ok_decay: "usage_ok fc \<Longrightarrow> 0 \<le> factor \<Longrightarrow> usage_ok (DecayUsage fc factor)"
  by (auto simp: usage_ok_def DecayUsage_def f64_nonneg)

text \<open>The usage of a user never shrinks when usage is recorded and never grows in a decay.\<close>

lemma record_grows:
  assumes "usage_ok fc" "0 \<le> units"
  shows "get_or 0 (UserUsage fc) u \<le> get_or 0 (UserUsage (RecordUsage fc user units)) u"
proof -
  have fix_: "f64 (get_or 0 (UserUsage fc) user) = get_or 0 (UserUsage fc) user"
    using assms(1) by (auto simp: usage_ok_def get_or_def split: option.split)
  have "f64 (get_or 0 (UserUsage fc) user) \<le> f64 (get_or 0 (UserUsage fc) user + units)"
    using assms usage_ok_get by (intro f64_mono) auto
  then show ?thesis using fix_ by (simp add: RecordUsage_def)
qed

lemma decay_shrinks:
  assumes "usage_ok fc" "0 \<le> factor" "factor \<le> 1"
  shows "get_or 0 (UserUsage (DecayUsage fc factor)) u \<le> get_or 0 (UserUsage fc) u"
proof (cases "UserUsage fc u")
  case (Some x)
  then have x: "0 \<le> x" "f64 x = x" using assms(1) by (auto simp: usage_ok_def)
  then have "f64 (x * factor) \<le> f64 x"
    using assms by (intro f64_mono) (auto intro: mult_left_le)
  then show ?thesis using Some x by (simp add: DecayUsage_def)
qed (simp add: DecayUsage_def)

text \<open>Below \<open>2 ^ 63\<close> hundreds, more usage means at least as high a penalty.\<close>

lemma f64_to_int_mono:
  assumes "0 \<le> x" "x \<le> y" "y < 2 ^ 63"
  shows "0 \<le> f64_to_int x \<and> f64_to_int x \<le> f64_to_int y"
proof -
  have "\<lfloor>x\<rfloor> \<le> \<lfloor>y\<rfloor>" "\<lfloor>y\<rfloor> < 2 ^ 63" "0 \<le> \<lfloor>x\<rfloor>"
    using assms by (auto simp: floor_mono floor_less_iff)
  then show ?thesis using assms by (auto simp: f64_to_int_def Let_def)
qed

lemma penalty_eq: "CalculatePenalty fc user = f64_to_int (f64 (get_or 0 (UserUsage fc) user / 100))"
  by (simp add: CalculatePenalty_def f64_to_int_def split: option.split)

lemma penalty_mono:
  assumes "0 \<le> get_or 0 (UserUsage fc) u" "get_or 0 (UserUsage fc) u \<le> get_or 0 (UserUsage fd) v"
    "f64 (get_or 0 (UserUsage fd) v / 100) < 2 ^ 63"
  shows "0 \<le> CalculatePenalty fc u \<and> CalculatePenalty fc u \<le> CalculatePenalty fd v"
  unfolding penalty_eq using assms
  by (intro f64_to_int_mono f64_nonneg f64_mono divide_right_mono) auto

lemma decay_factor_range: "0 \<le> decay_factor \<and> decay_factor \<le> 1"
proof -
  have "f64 (95 / 100) \<le> f64 1" by (rule f64_mono) simp_all
  moreover have "f64 1 = 1" using f64_fixed [OF is_f64_of_int [of 1]] by simp
  ultimately show ?thesis by (simp add: decay_factor_def f64_nonneg)
qed

text \<open>
  C10. Fair share, in the arithmetic of \<open>float64\<close>: recording usage for a user never lowers
  anybody's penalty, the periodic decay never raises one, penalties are never negative,
  and a user without usage has none. (The bound keeps the penalty in the integer range.)
\<close>

theorem fairshare_monotone:
  assumes "usage_ok fc" "0 \<le> units"
    and "f64 (get_or 0 (UserUsage (RecordUsage fc user units)) u / 100) < 2 ^ 63"
  shows "CalculatePenalty fc u \<le> CalculatePenalty (RecordUsage fc user units) u \<and>
    CalculatePenalty (DecayUsage fc decay_factor) u \<le> CalculatePenalty fc u \<and>
    0 \<le> CalculatePenalty fc u \<and> 0 \<le> CalculatePenalty (DecayUsage fc decay_factor) u \<and>
    (UserUsage fc u = None \<longrightarrow> CalculatePenalty fc u = 0) \<and> usage_ok (RecordUsage fc user units)"
proof -
  note g = record_grows [OF assms(1,2), of u user] usage_ok_get [OF assms(1), of u]
  have le: "f64 (get_or 0 (UserUsage fc) u / 100) \<le> f64 (get_or 0 (UserUsage (RecordUsage fc user units)) u / 100)"
    using g by (intro f64_mono divide_right_mono) auto
  have d: "0 \<le> get_or 0 (UserUsage (DecayUsage fc decay_factor)) u"
    using usage_ok_get usage_ok_decay [OF assms(1)] decay_factor_range by blast
  show ?thesis
    using penalty_mono [OF g(2,1) assms(3)] usage_ok_record [OF assms(1,2)]
      penalty_mono [OF d decay_shrinks [OF assms(1)]] decay_factor_range le assms(3)
    by (auto simp: CalculatePenalty_def)
qed

theorem fairshare_monotone_witness:
  "CalculatePenalty NewFairshareCalculator ''u'' \<le> CalculatePenalty (RecordUsage NewFairshareCalculator ''u'' 500) ''u''"
proof -
  have "f64 500 = 500" "f64 5 = 5"
    using f64_fixed [OF is_f64_of_int [of 500]] f64_fixed [OF is_f64_of_int [of 5]] by simp_all
  then show ?thesis
    using fairshare_monotone [OF usage_ok_new, of 500 "''u''" "''u''"]
    by (simp add: RecordUsage_def NewFairshareCalculator_def)
qed

end
