(* ===== verification/Go_Strings.thy ===== *)
theory Go_Strings
  imports Tasch_Prelude
begin

text \<open>
  Strings. A Go string is a sequence of bytes and so is an Isabelle \<open>string\<close>. This theory
  holds what the program uses of packages \<open>strings\<close> and \<open>strconv\<close>, its two fixed regular
  expressions, and the helpers \<open>parseCELRequirement\<close> and \<open>truncate\<close> of
  \<open>internal/daemon/master.go\<close>.
\<close>

subsection \<open>Package strings\<close>

definition HasPrefix :: "string \<Rightarrow> string \<Rightarrow> bool" where
  "HasPrefix s p \<longleftrightarrow> take (length p) s = p"

fun Contains :: "string \<Rightarrow> string \<Rightarrow> bool" where
  "Contains [] p = (p = [])"
| "Contains (c # s) p = (HasPrefix (c # s) p \<or> Contains s p)"

fun Join :: "string list \<Rightarrow> string \<Rightarrow> string" where
  "Join [] sep = []"
| "Join [x] sep = x"
| "Join (x # y # xs) sep = x @ sep @ Join (y # xs) sep"

text \<open>\<open>ToUpper\<close> on ASCII bytes; other bytes are kept.\<close>

definition upper_char :: "char \<Rightarrow> char" where
  "upper_char c = (let n = (of_char c :: nat) in if 97 \<le> n \<and> n \<le> 122 then char_of (n - 32) else c)"

definition ToUpper :: "string \<Rightarrow> string" where
  "ToUpper s = map upper_char s"

lemma HasPrefix_append [simp]: "HasPrefix (p @ s) p"
  by (simp add: HasPrefix_def)

lemma HasPrefix_iff: "HasPrefix s p \<longleftrightarrow> (\<exists>r. s = p @ r)"
  by (metis HasPrefix_append HasPrefix_def append_take_drop_id)

lemma Contains_iff: "Contains s p \<longleftrightarrow> (\<exists>a b. s = a @ p @ b)"
proof (induction s)
  case (Cons c s)
  have "(\<exists>a b. c # s = a @ p @ b) \<longleftrightarrow> (\<exists>r. c # s = p @ r) \<or> (\<exists>a b. s = a @ p @ b)"
    by (metis append_Cons append_Nil neq_Nil_conv list.inject)
  then show ?case using Cons by (simp add: HasPrefix_iff)
qed simp

subsection \<open>Package strconv\<close>

definition digit :: "nat \<Rightarrow> char" where
  "digit d = char_of (48 + d)"

definition is_digit :: "char \<Rightarrow> bool" where
  "is_digit c \<longleftrightarrow> 48 \<le> (of_char c :: nat) \<and> (of_char c :: nat) \<le> 57"

definition digit_val :: "char \<Rightarrow> int" where
  "digit_val c = int (of_char c) - 48"

fun digits_of :: "nat \<Rightarrow> string" where
  "digits_of n = (if n < 10 then [digit n] else digits_of (n div 10) @ [digit (n mod 10)])"

declare digits_of.simps [simp del]

definition Itoa :: "int \<Rightarrow> string" where
  "Itoa x = (if x < 0 then CHR ''-'' # digits_of (nat (- x)) else digits_of (nat x))"

datatype NumError = ErrSyntax | ErrRange

text \<open>The loop of \<open>ParseUint\<close> with its two overflow tests, in base ten.\<close>

fun ParseUint_loop :: "int \<Rightarrow> string \<Rightarrow> NumError + int" where
  "ParseUint_loop n [] = Inr n"
| "ParseUint_loop n (c # cs) =
     (if \<not> is_digit c then Inl ErrSyntax
      else if 1844674407370955162 \<le> n then Inl ErrRange
      else let n1 = n * 10 + digit_val c
           in if 2 ^ 64 - 1 < n1 then Inl ErrRange else ParseUint_loop n1 cs)"

text \<open>The sign and the range test of \<open>ParseInt\<close>.\<close>

definition with_sign :: "bool \<Rightarrow> NumError + int \<Rightarrow> int \<times> NumError option" where
  "with_sign neg r =
     (case r of
        Inl ErrSyntax \<Rightarrow> (0, Some ErrSyntax)
      | Inl ErrRange \<Rightarrow> (if neg then (- (2 ^ 63), Some ErrRange) else (2 ^ 63 - 1, Some ErrRange))
      | Inr un \<Rightarrow>
          if \<not> neg \<and> 2 ^ 63 \<le> un then (2 ^ 63 - 1, Some ErrRange)
          else if neg \<and> 2 ^ 63 < un then (- (2 ^ 63), Some ErrRange)
          else (if neg then - un else un, None))"

definition Atoi :: "string \<Rightarrow> int \<times> NumError option" where
  "Atoi s =
     (let neg = (case s of c # _ \<Rightarrow> c = CHR ''-'' | [] \<Rightarrow> False);
          body = (case s of c # r \<Rightarrow> if c = CHR ''-'' \<or> c = CHR ''+'' then r else s | [] \<Rightarrow> s)
      in if body = [] then (0, Some ErrSyntax)
         else with_sign neg (ParseUint_loop 0 body))"

lemma of_char_digit [simp]: "d < 10 \<Longrightarrow> (of_char (digit d) :: nat) = 48 + d"
  by (simp add: digit_def of_char_of)

lemma is_digit_digit [simp]: "d < 10 \<Longrightarrow> is_digit (digit d)"
  by (simp add: is_digit_def)

lemma digit_val_digit [simp]: "d < 10 \<Longrightarrow> digit_val (digit d) = int d"
  by (simp add: digit_val_def)

lemma digit_val_range: "is_digit c \<Longrightarrow> 0 \<le> digit_val c \<and> digit_val c \<le> 9"
  by (simp add: is_digit_def digit_val_def)

lemma digits_of_digits: "c \<in> set (digits_of n) \<Longrightarrow> is_digit c"
proof (induction n rule: digits_of.induct)
  case (1 n)
  then show ?case using digits_of.simps [of n] by (auto split: if_splits)
qed

lemma digits_of_ne [simp]: "digits_of n \<noteq> []"
  by (simp add: digits_of.simps)

lemma ParseUint_nonneg: "ParseUint_loop n cs = Inr m \<Longrightarrow> 0 \<le> n \<Longrightarrow> 0 \<le> m"
proof (induction n cs rule: ParseUint_loop.induct)
  case (2 n c cs)
  then show ?case using digit_val_range [of c] by (auto simp: Let_def split: if_splits)
qed simp

lemma Atoi_range: "in_i64 (fst (Atoi s))"
proof -
  have "in_i64 (fst (with_sign neg (ParseUint_loop 0 body)))" for neg body
    using ParseUint_nonneg [of 0 body]
    by (fastforce simp: with_sign_def in_i64_def split: sum.splits NumError.splits)
  then show ?thesis by (auto simp: Atoi_def Let_def)
qed

text \<open>A string of digits reads as a non-negative number, the largest integer when it overflows.\<close>

lemma Atoi_digits_nonneg:
  assumes "\<forall>c\<in>set ds. is_digit c"
  shows "0 \<le> fst (Atoi ds)"
proof -
  have "0 \<le> fst (with_sign False (ParseUint_loop 0 ds))"
    using ParseUint_nonneg [of 0 ds] by (auto simp: with_sign_def split: sum.splits NumError.splits)
  moreover have "c \<noteq> CHR ''-'' \<and> c \<noteq> CHR ''+''" if "ds = c # r" for c r
    using assms that by (auto simp: is_digit_def)
  ultimately show ?thesis by (auto simp: Atoi_def Let_def split: list.splits)
qed

text \<open>Reading back what was printed.\<close>

lemma ParseUint_append:
  "ParseUint_loop n (xs @ ys) = (case ParseUint_loop n xs of Inl e \<Rightarrow> Inl e | Inr m \<Rightarrow> ParseUint_loop m ys)"
  by (induction n xs rule: ParseUint_loop.induct) (auto simp: Let_def)

lemma ParseUint_digits: "int n < 2 ^ 64 \<Longrightarrow> ParseUint_loop 0 (digits_of n) = Inr (int n)"
proof (induction n rule: digits_of.induct)
  case (1 n)
  show ?case
  proof (cases "n < 10")
    case True
    then show ?thesis by (simp add: digits_of.simps)
  next
    case False
    have "n div 10 < 1844674407370955162" using 1(2) by simp
    then have "int (n div 10) < 1844674407370955162" by linarith
    moreover have "int (n div 10) * 10 + int (n mod 10) = int n"
      by (metis div_mult_mod_eq of_nat_add of_nat_mult of_nat_numeral)
    ultimately show ?thesis
      using 1 False by (subst digits_of.simps) (simp add: ParseUint_append Let_def)
  qed
qed

lemma Atoi_Itoa:
  assumes "in_i64 x"
  shows "Atoi (Itoa x) = (x, None)"
proof (cases "x < 0")
  case True
  then have "ParseUint_loop 0 (digits_of (nat (- x))) = Inr (- x)"
    using ParseUint_digits [of "nat (- x)"] assms by (simp add: in_i64_def)
  then show ?thesis using True assms by (simp add: Atoi_def Itoa_def with_sign_def in_i64_def Let_def)
next
  case False
  then have p: "ParseUint_loop 0 (digits_of (nat x)) = Inr x"
    using ParseUint_digits [of "nat x"] assms by (simp add: in_i64_def)
  obtain c r where c: "digits_of (nat x) = c # r" by (cases "digits_of (nat x)") auto
  then have "is_digit c" using digits_of_digits [of c "nat x"] by simp
  then have "c \<noteq> CHR ''-''" "c \<noteq> CHR ''+''" by (auto simp: is_digit_def)
  then show ?thesis using False assms p c by (simp add: Atoi_def Itoa_def with_sign_def in_i64_def Let_def)
qed

text \<open>\<open>Duration.String\<close>: hours, minutes and seconds, or the largest unit below a second.\<close>

definition pad_digits :: "nat \<Rightarrow> nat \<Rightarrow> string" where
  "pad_digits n v = (let ds = digits_of v in replicate (n - length ds) (CHR ''0'') @ ds)"

text \<open>\<open>v\<close> divided by \<open>10 ^ prec\<close>, with a fraction whose trailing zeros are dropped.\<close>

definition fmt_frac :: "nat \<Rightarrow> nat \<Rightarrow> string" where
  "fmt_frac v prec =
     (let fr = rev (dropWhile (\<lambda>c. c = CHR ''0'') (rev (pad_digits prec (v mod 10 ^ prec))))
      in if fr = [] then [] else CHR ''.'' # fr)"

definition duration_String :: "Duration \<Rightarrow> string" where
  "duration_String d =
     (let u = nat \<bar>d\<bar>; sign = (if d < 0 then ''-'' else []) in
      if u = 0 then ''0s''
      else if u < 1000 then sign @ digits_of u @ ''ns''
      else if u < 1000000 then sign @ digits_of (u div 1000) @ fmt_frac u 3 @ [CHR 0xC2, CHR 0xB5, CHR ''s'']
      else if u < 1000000000 then sign @ digits_of (u div 1000000) @ fmt_frac u 6 @ ''ms''
      else let secs = u div 1000000000;
               s = digits_of (secs mod 60) @ fmt_frac u 9 @ ''s'';
               m = digits_of (secs div 60 mod 60) @ ''m'';
               h = digits_of (secs div 3600) @ ''h''
           in sign @ (if 3600 \<le> secs then h @ m @ s else if 60 \<le> secs then m @ s else s))"

subsection \<open>Resource amounts in a requirement expression\<close>

text \<open>
  The regular expressions \<open>name\s*(?:>=|==|>)\s*(\d+)\<close> of \<open>parseCELRequirement\<close>. At a given
  position there is at most one way to match: blanks are no operator and no digit, and
  after \<open>>\<close> the character \<open>=\<close> is no digit. The search takes the leftmost position and the
  submatch is the longest run of digits.
\<close>

definition is_space :: "char \<Rightarrow> bool" where
  "is_space c \<longleftrightarrow> of_char c \<in> {9, 10, 12, 13, 32 :: nat}"

definition strip_op :: "string \<Rightarrow> string option" where
  "strip_op s =
     (if HasPrefix s ''>='' then Some (drop 2 s) else if HasPrefix s ''=='' then Some (drop 2 s)
      else if HasPrefix s ''>'' then Some (drop 1 s) else None)"

definition match_here :: "string \<Rightarrow> string \<Rightarrow> string option" where
  "match_here name s =
     (if \<not> HasPrefix s name then None
      else case strip_op (dropWhile is_space (drop (length name) s)) of
          None \<Rightarrow> None
        | Some r \<Rightarrow> let ds = takeWhile is_digit (dropWhile is_space r)
                    in if ds = [] then None else Some ds)"

fun FindStringSubmatch :: "string \<Rightarrow> string \<Rightarrow> string option" where
  "FindStringSubmatch name [] = match_here name []"
| "FindStringSubmatch name (c # s) =
     (case match_here name (c # s) of Some ds \<Rightarrow> Some ds | None \<Rightarrow> FindStringSubmatch name s)"

definition parseCELRequirement :: "string \<Rightarrow> int \<times> int" where
  "parseCELRequirement celStr =
     (let cpus = (case FindStringSubmatch ''cpu_cores'' celStr of
                    Some ds \<Rightarrow> fst (Atoi ds) | None \<Rightarrow> 0);
          mem = (case FindStringSubmatch ''total_memory_mb'' celStr of
                    Some ds \<Rightarrow> fst (Atoi ds) | None \<Rightarrow> 0)
      in (cpus, mem))"

definition truncate :: "string \<Rightarrow> nat \<Rightarrow> string" where
  "truncate s maxLen = (if length s \<le> maxLen then s else take maxLen s @ ''...'')"

lemma truncate_length: "length (truncate s n) \<le> n + 3"
  by (simp add: truncate_def)

text \<open>The declarative reading of a match.\<close>

definition req_match :: "string \<Rightarrow> string \<Rightarrow> string \<Rightarrow> bool" where
  "req_match name s ds \<longleftrightarrow>
     (\<exists>w1 op w2 post. s = name @ w1 @ op @ w2 @ ds @ post \<and> (\<forall>c\<in>set (w1 @ w2). is_space c) \<and>
        op \<in> {''>='', ''=='', ''>''} \<and> ds \<noteq> [] \<and> (\<forall>c\<in>set ds. is_digit c) \<and>
        (\<forall>c r. post = c # r \<longrightarrow> \<not> is_digit c))"

lemma strip_op_iff:
  "strip_op s = Some r \<longleftrightarrow> s = ''>='' @ r \<or> s = ''=='' @ r \<or> s = ''>'' @ r \<and> (\<forall>r'. r \<noteq> CHR ''='' # r')"
  by (cases s; cases "tl s") (auto simp: strip_op_def HasPrefix_def)

lemma dropWhile_prefix:
  "(\<forall>c\<in>set w. P c) \<Longrightarrow> (\<And>c r. s = c # r \<Longrightarrow> \<not> P c) \<Longrightarrow> dropWhile P (w @ s) = s"
  by (induction w) (cases s; auto)+

lemma takeWhile_prefix:
  "(\<forall>c\<in>set w. P c) \<Longrightarrow> (\<And>c r. s = c # r \<Longrightarrow> \<not> P c) \<Longrightarrow> takeWhile P (w @ s) = w"
  by (induction w) (cases s; auto)+

lemma digit_not_space: "is_digit c \<Longrightarrow> \<not> is_space c"
  by (auto simp: is_digit_def is_space_def)

lemma match_here_iff: "match_here name s = Some ds \<longleftrightarrow> req_match name s ds"
proof
  assume m: "match_here name s = Some ds"
  define t where "t = drop (length name) s"
  have s: "s = name @ t" using m by (auto simp: match_here_def t_def HasPrefix_def split: if_splits) (metis append_take_drop_id)
  obtain r where r: "strip_op (dropWhile is_space t) = Some r"
    "ds = takeWhile is_digit (dropWhile is_space r)" "ds \<noteq> []"
    using m by (auto simp: match_here_def t_def Let_def split: if_splits option.splits)
  obtain op where op: "dropWhile is_space t = op @ r" "op \<in> {''>='', ''=='', ''>''}"
    using r(1) unfolding strip_op_iff by blast
  have "s = name @ takeWhile is_space t @ op @ takeWhile is_space r @ ds @ dropWhile is_digit (dropWhile is_space r)"
    using s op(1) r(2) by (metis append.assoc takeWhile_dropWhile_id)
  moreover have "\<forall>c\<in>set (takeWhile is_space t @ takeWhile is_space r). is_space c" "\<forall>c\<in>set ds. is_digit c"
    by (auto simp: r(2) dest: set_takeWhileD)
  moreover have "\<not> is_digit c" if "dropWhile is_digit (dropWhile is_space r) = c # q" for c q
    using that by (metis hd_dropWhile list.distinct(1) list.sel(1))
  ultimately show "req_match name s ds" using op(2) r(3) unfolding req_match_def by blast
next
  assume "req_match name s ds"
  then obtain w1 op w2 post where s: "s = name @ w1 @ op @ w2 @ ds @ post"
    and ws: "\<forall>c\<in>set w1. is_space c" "\<forall>c\<in>set w2. is_space c" and op: "op \<in> {''>='', ''=='', ''>''}"
    and ds: "ds \<noteq> []" "\<forall>c\<in>set ds. is_digit c" and post': "\<forall>c r. post = c # r \<longrightarrow> \<not> is_digit c"
    unfolding req_match_def set_append ball_Un by blast
  have post: "\<And>c r. post = c # r \<Longrightarrow> \<not> is_digit c" using post' by blast
  have head: "\<not> is_space c" if "ds @ post = c # r" for c r
    using that ds digit_not_space by (cases ds) auto
  have d1: "dropWhile is_space (w1 @ op @ w2 @ ds @ post) = op @ w2 @ ds @ post"
    using ws(1) op by (intro dropWhile_prefix) (auto simp: is_space_def)
  have d2: "dropWhile is_space (w2 @ ds @ post) = ds @ post"
    using ws(2) head by (intro dropWhile_prefix)
  have "c \<noteq> CHR ''=''" if "w2 @ ds @ post = c # r" for c r
    using that ws(2) ds by (cases w2; cases ds) (auto simp: is_space_def is_digit_def)
  then have "strip_op (op @ w2 @ ds @ post) = Some (w2 @ ds @ post)"
    using op unfolding strip_op_iff by fastforce
  then show "match_here name s = Some ds"
    using d1 d2 ds(1) takeWhile_prefix [OF ds(2) post] by (simp add: s match_here_def)
qed

lemma FindStringSubmatch_iff:
  "FindStringSubmatch name s = Some ds \<longleftrightarrow>
     (\<exists>i\<le>length s. req_match name (drop i s) ds \<and> (\<forall>k<i. \<nexists>ds'. req_match name (drop k s) ds'))"
proof (induction s)
  case Nil
  then show ?case by (simp add: match_here_iff)
next
  case (Cons c s)
  show ?case
  proof (cases "match_here name (c # s)")
    case None
    then have no: "\<nexists>ds'. req_match name (c # s) ds'" by (metis match_here_iff option.distinct(1))
    have "(\<exists>i\<le>length (c # s). req_match name (drop i (c # s)) ds \<and> (\<forall>k<i. \<nexists>ds'. req_match name (drop k (c # s)) ds'))
        \<longleftrightarrow> (\<exists>i\<le>length s. req_match name (drop i s) ds \<and> (\<forall>k<i. \<nexists>ds'. req_match name (drop k s) ds'))"
      (is "(\<exists>i\<le>_. ?P i) \<longleftrightarrow> (\<exists>i\<le>_. ?Q i)")
    proof
      assume "\<exists>i\<le>length (c # s). ?P i"
      then obtain i where "i \<le> length (c # s)" "?P i" by blast
      with no show "\<exists>i\<le>length s. ?Q i" by (cases i) (auto intro!: exI [of _ "i - 1"], metis Suc_less_eq drop_Suc_Cons)
    next
      assume "\<exists>i\<le>length s. ?Q i"
      then obtain i where "i \<le> length s" "?Q i" by blast
      with no show "\<exists>i\<le>length (c # s). ?P i"
        by (intro exI [of _ "Suc i"]) (auto simp: less_Suc_eq_0_disj)
    qed
    then show ?thesis using None Cons by simp
  next
    case (Some ds0)
    then have m: "req_match name (c # s) ds0" by (simp add: match_here_iff)
    have uniq: "req_match name (c # s) ds' \<longleftrightarrow> ds' = ds0" for ds'
      unfolding match_here_iff [symmetric] using Some by auto
    have "(\<exists>i\<le>length (c # s). req_match name (drop i (c # s)) ds \<and> (\<forall>k<i. \<nexists>ds'. req_match name (drop k (c # s)) ds'))
        \<longleftrightarrow> ds0 = ds"
    proof
      assume "\<exists>i\<le>length (c # s). req_match name (drop i (c # s)) ds \<and> (\<forall>k<i. \<nexists>ds'. req_match name (drop k (c # s)) ds')"
      then obtain i where "req_match name (drop i (c # s)) ds" "\<forall>k<i. \<nexists>ds'. req_match name (drop k (c # s)) ds'" by blast
      with m show "ds0 = ds" by (cases i) (use uniq in auto)
    next
      assume "ds0 = ds"
      with m show "\<exists>i\<le>length (c # s). req_match name (drop i (c # s)) ds \<and> (\<forall>k<i. \<nexists>ds'. req_match name (drop k (c # s)) ds')"
        by (intro exI [of _ 0]) simp
    qed
    then show ?thesis using Some by simp
  qed
qed

text \<open>A run of digits in front of a name that starts with a letter is skipped.\<close>

lemma FindStringSubmatch_skip:
  "(\<forall>c\<in>set ds. is_digit c) \<Longrightarrow> \<not> is_digit n \<Longrightarrow>
     FindStringSubmatch (n # name) (ds @ s) = FindStringSubmatch (n # name) s"
  by (induction ds) (auto simp: match_here_def HasPrefix_def)

text \<open>A number that ends the expression or is followed by something else than a digit.\<close>

lemma match_here_number:
  "\<forall>c\<in>set ds. is_digit c \<Longrightarrow> ds \<noteq> [] \<Longrightarrow> \<forall>c r. s = c # r \<longrightarrow> \<not> is_digit c \<Longrightarrow>
     match_here name (name @ '' >= '' @ ds @ s) = Some ds"
  unfolding match_here_iff req_match_def
  by (intro exI [of _ "'' ''"] exI [of _ "''>=''"] exI [of _ s]) (auto simp: is_space_def)

lemma match_here_other: "\<not> HasPrefix s name \<Longrightarrow> match_here name s = None"
  by (simp add: match_here_def)

lemma submatch_digits:
  assumes "FindStringSubmatch name s = Some ds"
  shows "\<forall>c\<in>set ds. is_digit c"
  using assms unfolding FindStringSubmatch_iff req_match_def by blast

subsection \<open>Properties\<close>

text \<open>
  The amounts read from a requirement expression are the ones written in it: for an
  expression that asks for \<open>n\<close> cores and \<open>m\<close> megabytes, \<open>parseCELRequirement\<close> returns
  exactly \<open>n\<close> and \<open>m\<close>, for all 64-bit non-negative amounts.
\<close>

theorem parseCEL_roundtrip:
  assumes "0 \<le> n" "n < 2 ^ 63" "0 \<le> m" "m < 2 ^ 63"
  shows "parseCELRequirement (''ad.cpu_cores >= '' @ Itoa n @ '' && ad.total_memory_mb >= '' @ Itoa m) = (n, m)"
proof -
  have d: "\<forall>c\<in>set (Itoa x). is_digit c" "Itoa x \<noteq> []" "fst (Atoi (Itoa x)) = x" if "0 \<le> x" "x < 2 ^ 63" for x
    using that digits_of_digits Atoi_Itoa [of x] by (auto simp: Itoa_def in_i64_def)
  have c: "FindStringSubmatch ''cpu_cores'' (''ad.cpu_cores >= '' @ Itoa n @ s) = Some (Itoa n)"
    if "\<forall>c r. s = c # r \<longrightarrow> \<not> is_digit c" for s
    using match_here_number [OF d(1,2) [OF assms(1,2)] that, of "''cpu_cores''"]
    by (simp add: match_here_other HasPrefix_def)
  have e: "FindStringSubmatch ''total_memory_mb'' (''total_memory_mb >= '' @ Itoa m) = Some (Itoa m)"
    using match_here_number [OF d(1,2) [OF assms(3,4)], of "[]" "''total_memory_mb''"] by simp
  have "FindStringSubmatch ''total_memory_mb'' (''ad.cpu_cores >= '' @ Itoa n @ '' && ad.total_memory_mb >= '' @ Itoa m)
     = FindStringSubmatch ''total_memory_mb'' (Itoa n @ '' && ad.total_memory_mb >= '' @ Itoa m)"
    by (simp add: match_here_other HasPrefix_def)
  also have "\<dots> = FindStringSubmatch ''total_memory_mb'' ('' && ad.total_memory_mb >= '' @ Itoa m)"
    by (rule FindStringSubmatch_skip [OF d(1) [OF assms(1,2)]]) (simp add: is_digit_def)
  also have "\<dots> = Some (Itoa m)"
    using e by (simp add: match_here_other HasPrefix_def)
  finally show ?thesis
    using c [of "'' && ad.total_memory_mb >= '' @ Itoa m"] d(3) [OF assms(1,2)] d(3) [OF assms(3,4)]
    by (simp add: parseCELRequirement_def is_digit_def)
qed
theorem parseCEL_roundtrip_witness:
  "parseCELRequirement (''ad.cpu_cores >= '' @ Itoa 8 @ '' && ad.total_memory_mb >= '' @ Itoa 16384) = (8, 16384)"
  using parseCEL_roundtrip [of 8 16384] by simp

text \<open>
  Whatever the requirement expression, the reserved amounts are non-negative 64-bit
  integers: an amount too large for an integer is reserved as the largest one, and a
  comparison that does not match the pattern reserves nothing.
\<close>

theorem parseCEL_bounds: "0 \<le> fst (parseCELRequirement s) \<and> in_i64 (fst (parseCELRequirement s)) \<and>
    0 \<le> snd (parseCELRequirement s) \<and> in_i64 (snd (parseCELRequirement s))"
proof -
  have "0 \<le> x \<and> in_i64 x" if "x = (case FindStringSubmatch name s of Some ds \<Rightarrow> fst (Atoi ds) | None \<Rightarrow> 0)" for x name
    using that submatch_digits [of name s] Atoi_digits_nonneg Atoi_range by (cases "FindStringSubmatch name s") auto
  then show ?thesis by (auto simp: parseCELRequirement_def)
qed

end
