(* ===== verification/Json.thy ===== *)
theory Json
  imports Go_Strings Float64
begin

text \<open>
  What the program uses of \<open>encoding/json\<close>: decoding a text into a
  \<open>map[string]interface{}\<close> (the class ads) and into small structs. The scanner of the Go
  package is a state machine with a stack of open containers, and so is the parser here;
  it is total, since every step consumes a token. A syntax error anywhere leaves the
  target untouched; a value that does not fit its target (a number beyond the range of
  \<open>float64\<close>, a field of another type) is recorded as an error while the rest is decoded.
\<close>

subsection \<open>Tokens\<close>

datatype tok = TLBrace | TRBrace | TLBrack | TRBrack | TColon | TComma
  | TNull | TTrue | TFalse | TNum string | TStr string

definition json_space :: "char \<Rightarrow> bool" where
  "json_space c \<longleftrightarrow> of_char c \<in> {9, 10, 13, 32 :: nat}"

definition hex_val :: "char \<Rightarrow> nat option" where
  "hex_val c = (let n = (of_char c :: nat) in
     if 48 \<le> n \<and> n \<le> 57 then Some (n - 48) else if 97 \<le> n \<and> n \<le> 102 then Some (n - 87)
     else if 65 \<le> n \<and> n \<le> 70 then Some (n - 55) else None)"

definition hex4 :: "char \<Rightarrow> char \<Rightarrow> char \<Rightarrow> char \<Rightarrow> nat option" where
  "hex4 a b c d = (case (hex_val a, hex_val b, hex_val c, hex_val d) of
     (Some w, Some x, Some y, Some z) \<Rightarrow> Some (((w * 16 + x) * 16 + y) * 16 + z) | _ \<Rightarrow> None)"

text \<open>The UTF-8 encoding of a code point; a surrogate is replaced by \<open>U+FFFD\<close>.\<close>

definition utf8 :: "nat \<Rightarrow> string" where
  "utf8 r = (if r < 128 then [char_of r]
     else if r < 2048 then [char_of (192 + r div 64), char_of (128 + r mod 64)]
     else if 55296 \<le> r \<and> r < 57344 then [char_of (239 :: nat), char_of (191 :: nat), char_of (189 :: nat)]
     else if r < 65536 then [char_of (224 + r div 4096), char_of (128 + r div 64 mod 64), char_of (128 + r mod 64)]
     else [char_of (240 + r div 262144), char_of (128 + r div 4096 mod 64), char_of (128 + r div 64 mod 64), char_of (128 + r mod 64)])"

text \<open>The length of a well-formed UTF-8 sequence at the front, \<open>0\<close> when there is none.\<close>

definition cont_byte :: "nat \<Rightarrow> bool" where
  "cont_byte n \<longleftrightarrow> 128 \<le> n \<and> n \<le> 191"

definition rune_len :: "string \<Rightarrow> nat" where
  "rune_len s =
     (let b = (\<lambda>i. if i < length s then of_char (s ! i) else (0 :: nat)); b0 = b 0; b1 = b 1 in
      if 194 \<le> b0 \<and> b0 \<le> 223 \<and> cont_byte b1 then 2
      else if 224 \<le> b0 \<and> b0 \<le> 239 \<and> cont_byte b1 \<and> cont_byte (b 2) \<and>
        (b0 = 224 \<longrightarrow> 160 \<le> b1) \<and> (b0 = 237 \<longrightarrow> b1 \<le> 159) then 3
      else if 240 \<le> b0 \<and> b0 \<le> 244 \<and> cont_byte b1 \<and> cont_byte (b 2) \<and> cont_byte (b 3) \<and>
        (b0 = 240 \<longrightarrow> 144 \<le> b1) \<and> (b0 = 244 \<longrightarrow> b1 \<le> 143) then 4
      else 0)"

text \<open>
  The bytes between the quotes, and the string they denote. A surrogate pair written as
  two escapes is one code point, a lone surrogate and an ill-formed byte become \<open>U+FFFD\<close>.
\<close>

fun str_body :: "string \<Rightarrow> (string \<times> string) option" where
  "str_body [] = None"
| "str_body (c # s) =
     (if c = CHR 0x22 then Some ([], s)
      else if c = CHR 0x5C
      then (case s of [] \<Rightarrow> None | d # s' \<Rightarrow> map_option (\<lambda>(r, t). (c # d # r, t)) (str_body s'))
      else map_option (\<lambda>(r, t). (c # r, t)) (str_body s))"

definition escape_char :: "char \<Rightarrow> char option" where
  "escape_char c =
     (if c = CHR 0x22 \<or> c = CHR 0x5C \<or> c = CHR ''/'' then Some c
      else if c = CHR ''b'' then Some (CHR 0x08) else if c = CHR ''f'' then Some (CHR 0x0C)
      else if c = CHR ''n'' then Some (CHR 0x0A) else if c = CHR ''r'' then Some (CHR 0x0D)
      else if c = CHR ''t'' then Some (CHR 0x09) else None)"

definition low_surrogate :: "string \<Rightarrow> nat option" where
  "low_surrogate s =
     (case s of x # u # a # b # c # d # _ \<Rightarrow>
        if x = CHR 0x5C \<and> u = CHR ''u''
        then (case hex4 a b c d of Some r \<Rightarrow> if 56320 \<le> r \<and> r < 57344 then Some r else None | None \<Rightarrow> None)
        else None
      | _ \<Rightarrow> None)"

function unquote :: "string \<Rightarrow> string option" where
  "unquote s =
     (case s of
        [] \<Rightarrow> Some []
      | c # s1 \<Rightarrow>
          if (of_char c :: nat) < 32 then None
          else if c = CHR 0x5C then
            (case s1 of
               [] \<Rightarrow> None
             | e # s2 \<Rightarrow>
                 if e = CHR ''u'' then
                   (case s2 of a # b # x # y # s3 \<Rightarrow>
                      (case hex4 a b x y of
                         None \<Rightarrow> None
                       | Some r \<Rightarrow>
                           if 55296 \<le> r \<and> r < 56320 then
                             (case low_surrogate s3 of
                                Some l \<Rightarrow> map_option (append (utf8 (65536 + (r - 55296) * 1024 + (l - 56320)))) (unquote (drop 6 s3))
                              | None \<Rightarrow> map_option (append (utf8 r)) (unquote s3))
                           else map_option (append (utf8 r)) (unquote s3))
                    | _ \<Rightarrow> None)
                 else (case escape_char e of
                         None \<Rightarrow> None | Some d \<Rightarrow> map_option (Cons d) (unquote s2)))
          else if (of_char c :: nat) < 128 then map_option (Cons c) (unquote s1)
          else let n = rune_len s
               in if n = 0 then map_option (append (utf8 65533)) (unquote s1)
                  else map_option (append (take n s)) (unquote (drop n s)))"
  by auto
termination by (relation "measure length") (auto simp: rune_len_def)

text \<open>Numbers: the grammar of RFC 8259 and the rational a literal denotes.\<close>

definition num_char :: "char \<Rightarrow> bool" where
  "num_char c \<longleftrightarrow> is_digit c \<or> c \<in> {CHR ''-'', CHR ''+'', CHR ''.'', CHR ''e'', CHR ''E''}"

definition digits_val :: "string \<Rightarrow> int" where
  "digits_val ds = foldl (\<lambda>n c. n * 10 + digit_val c) 0 ds"

definition exponent_of :: "string \<Rightarrow> int option" where
  "exponent_of s =
     (case s of
        [] \<Rightarrow> Some 0
      | c # r \<Rightarrow>
          if c \<noteq> CHR ''e'' \<and> c \<noteq> CHR ''E'' then None
          else let neg = (r \<noteq> [] \<and> hd r = CHR ''-''); ds = (if r \<noteq> [] \<and> (hd r = CHR ''-'' \<or> hd r = CHR ''+'') then tl r else r)
               in if ds = [] \<or> \<not> list_all is_digit ds then None
                  else Some (if neg then - digits_val ds else digits_val ds))"

definition number_of :: "string \<Rightarrow> rat option" where
  "number_of s =
     (let neg = (s \<noteq> [] \<and> hd s = CHR ''-''); s1 = (if neg then tl s else s);
          ip = takeWhile is_digit s1; s2 = dropWhile is_digit s1;
          dot = (s2 \<noteq> [] \<and> hd s2 = CHR ''.'');
          fp = (if dot then takeWhile is_digit (tl s2) else []);
          s3 = (if dot then dropWhile is_digit (tl s2) else s2)
      in if ip = [] \<or> (hd ip = CHR ''0'' \<and> tl ip \<noteq> []) \<or> (dot \<and> fp = []) then None
         else case exponent_of s3 of
             None \<Rightarrow> None
           | Some e \<Rightarrow> let v = of_int (digits_val (ip @ fp)) * 10 powi (e - int (length fp))
                       in Some (if neg then - v else v))"

definition number_val :: "string \<Rightarrow> rat" where
  "number_val s = (case number_of s of Some q \<Rightarrow> q | None \<Rightarrow> 0)"

definition next_tok :: "string \<Rightarrow> (tok \<times> string) option" where
  "next_tok s =
     (case dropWhile json_space s of
        [] \<Rightarrow> None
      | c # r \<Rightarrow>
          if c = CHR 0x7B then Some (TLBrace, r) else if c = CHR 0x7D then Some (TRBrace, r)
          else if c = CHR ''['' then Some (TLBrack, r) else if c = CHR '']'' then Some (TRBrack, r)
          else if c = CHR '':'' then Some (TColon, r) else if c = CHR '','' then Some (TComma, r)
          else if c = CHR 0x22 then
            (case str_body r of
               None \<Rightarrow> None
             | Some (raw, t) \<Rightarrow> map_option (\<lambda>v. (TStr v, t)) (unquote raw))
          else if num_char c then
            (if number_of (takeWhile num_char (c # r)) = None then None
                  else Some (TNum (takeWhile num_char (c # r)), dropWhile num_char (c # r)))
          else if HasPrefix (c # r) ''null'' then Some (TNull, drop 4 (c # r))
          else if HasPrefix (c # r) ''true'' then Some (TTrue, drop 4 (c # r))
          else if HasPrefix (c # r) ''false'' then Some (TFalse, drop 5 (c # r))
          else None)"

lemma str_body_shorter: "str_body s = Some (r, t) \<Longrightarrow> length t < length s"
proof (induction s arbitrary: r t rule: str_body.induct)
  case (2 c s)
  then show ?case by (fastforce split: if_splits list.splits)
qed simp

lemma next_tok_shorter:
  assumes "next_tok s = Some (t, r)"
  shows "length r < length s"
proof -
  obtain c q where q: "dropWhile json_space s = c # q"
    using assms by (auto simp: next_tok_def split: list.splits)
  have "length (c # q) \<le> length s" unfolding q [symmetric] by (rule length_dropWhile_le)
  moreover have "length r \<le> length q"
    using assms q length_dropWhile_le [of num_char q]
    by (auto simp: next_tok_def dest!: str_body_shorter split: if_splits option.splits)
  ultimately show ?thesis by simp
qed

subsection \<open>Values\<close>

text \<open>A number keeps its literal, which its target decides how to read.\<close>

datatype json = JNull | JBool bool | JNumber string | JString string
  | JArray "json list" | JObject "(string \<times> json) list"

text \<open>Open containers, innermost first, and what may come next.\<close>

datatype frame = InArray "json list" | InObject "(string \<times> json) list" | InField "(string \<times> json) list" string

datatype pstate = NeedValue | NeedValueOrClose | NeedKeyOrClose | NeedKey | NeedColon string | HaveValue json

definition maxNestingDepth :: nat where "maxNestingDepth = 10000"

definition open_container :: "frame list \<Rightarrow> frame \<Rightarrow> pstate \<Rightarrow> (frame list \<times> pstate) option" where
  "open_container st f ps = (if length st < maxNestingDepth then Some (f # st, ps) else None)"

definition value_start :: "frame list \<Rightarrow> tok \<Rightarrow> (frame list \<times> pstate) option" where
  "value_start st t =
     (case t of
        TLBrace \<Rightarrow> open_container st (InObject []) NeedKeyOrClose
      | TLBrack \<Rightarrow> open_container st (InArray []) NeedValueOrClose
      | TNull \<Rightarrow> Some (st, HaveValue JNull)
      | TTrue \<Rightarrow> Some (st, HaveValue (JBool True))
      | TFalse \<Rightarrow> Some (st, HaveValue (JBool False))
      | TNum v \<Rightarrow> Some (st, HaveValue (JNumber v))
      | TStr v \<Rightarrow> Some (st, HaveValue (JString v))
      | _ \<Rightarrow> None)"

definition after_value :: "frame list \<Rightarrow> json \<Rightarrow> tok \<Rightarrow> (frame list \<times> pstate) option" where
  "after_value st v t =
     (case st of
        InArray vs # st' \<Rightarrow>
          if t = TComma then Some (InArray (vs @ [v]) # st', NeedValue)
          else if t = TRBrack then Some (st', HaveValue (JArray (vs @ [v]))) else None
      | InField fs k # st' \<Rightarrow>
          if t = TComma then Some (InObject (fs @ [(k, v)]) # st', NeedKey)
          else if t = TRBrace then Some (st', HaveValue (JObject (fs @ [(k, v)]))) else None
      | _ \<Rightarrow> None)"

definition key_start :: "frame list \<Rightarrow> tok \<Rightarrow> (frame list \<times> pstate) option" where
  "key_start st t = (case t of TStr k \<Rightarrow> Some (st, NeedColon k) | _ \<Rightarrow> None)"

definition json_step :: "frame list \<Rightarrow> pstate \<Rightarrow> tok \<Rightarrow> (frame list \<times> pstate) option" where
  "json_step st ps t =
     (case ps of
        NeedValue \<Rightarrow> value_start st t
      | NeedValueOrClose \<Rightarrow> if t = TRBrack then Some (tl st, HaveValue (JArray [])) else value_start st t
      | NeedKeyOrClose \<Rightarrow> if t = TRBrace then Some (tl st, HaveValue (JObject [])) else key_start st t
      | NeedKey \<Rightarrow> key_start st t
      | NeedColon k \<Rightarrow>
          (case st of InObject fs # st' \<Rightarrow> if t = TColon then Some (InField fs k # st', NeedValue) else None
            | _ \<Rightarrow> None)
      | HaveValue v \<Rightarrow> after_value st v t)"

text \<open>One value from the front of a text, with the rest.\<close>

function json_run :: "frame list \<Rightarrow> pstate \<Rightarrow> string \<Rightarrow> (json \<times> string) option" where
  "json_run st ps s =
     (case (st, ps) of
        ([], HaveValue v) \<Rightarrow> Some (v, s)
      | _ \<Rightarrow>
          (case next_tok s of
             None \<Rightarrow> None
           | Some (t, r) \<Rightarrow>
               (case json_step st ps t of None \<Rightarrow> None | Some (st', ps') \<Rightarrow> json_run st' ps' r)))"
  by auto
termination
  by (relation "measure (\<lambda>(_, _, s). length s)") (auto dest: next_tok_shorter)

declare json_run.simps [simp del] unquote.simps [simp del]

definition json_prefix :: "string \<Rightarrow> (json \<times> string) option" where
  "json_prefix s = json_run [] NeedValue s"

definition json_text :: "string \<Rightarrow> json option" where
  "json_text s =
     (case json_prefix s of
        None \<Rightarrow> None
      | Some (v, r) \<Rightarrow> if dropWhile json_space r = [] then Some v else None)"

subsection \<open>Decoding into interfaces\<close>

datatype iface = INil | IBool bool | IFloat rat | IString string
  | ISlice "iface list" | IMap "string \<rightharpoonup> iface"

definition max_float_bound :: rat where
  "max_float_bound = 2 ^ 1024"

text \<open>The decoded value, and whether an error was recorded on the way.\<close>

fun interface_of :: "json \<Rightarrow> iface \<times> bool" where
  "interface_of JNull = (INil, False)"
| "interface_of (JBool b) = (IBool b, False)"
| "interface_of (JNumber lit) =
     (let q = f64 (number_val lit) in if max_float_bound \<le> \<bar>q\<bar> then (INil, True) else (IFloat q, False))"
| "interface_of (JString s) = (IString s, False)"
| "interface_of (JArray vs) =
     (let rs = map interface_of vs in (ISlice (map fst rs), list_ex snd rs))"
| "interface_of (JObject fs) =
     (let rs = map (\<lambda>(k, v). (k, interface_of v)) fs
      in (IMap (map_of (rev (map (\<lambda>(k, r). (k, fst r)) rs))), list_ex (\<lambda>(k, r). snd r) rs))"

text \<open>\<open>json.Unmarshal\<close> into a nil \<open>map[string]interface{}\<close>: the map, and whether it returned an error.\<close>

definition Unmarshal_map :: "string \<Rightarrow> (string \<rightharpoonup> iface) \<times> bool" where
  "Unmarshal_map s =
     (case json_text s of
        None \<Rightarrow> (Map.empty, True)
      | Some v \<Rightarrow>
          (case interface_of v of
             (IMap m, err) \<Rightarrow> (m, err)
           | (INil, err) \<Rightarrow> (Map.empty, err)
           | _ \<Rightarrow> (Map.empty, True)))"

text \<open>The type assertions \<open>ad[key].(float64)\<close> and \<open>ad[key].(string)\<close>, with the zero value on failure.\<close>

definition as_float :: "(string \<rightharpoonup> iface) \<Rightarrow> string \<Rightarrow> rat" where
  "as_float ad key = (case ad key of Some (IFloat x) \<Rightarrow> x | _ \<Rightarrow> 0)"

definition as_string :: "(string \<rightharpoonup> iface) \<Rightarrow> string \<Rightarrow> string option" where
  "as_string ad key = (case ad key of Some (IString x) \<Rightarrow> Some x | _ \<Rightarrow> None)"

end
