(* ===== verification/Matchmaker.thy ===== *)
theory Matchmaker
  imports Json
begin

text \<open>
  \<open>pkg/matchmaker/evaluator.go\<close>: requirement expressions are compiled once, cached and
  evaluated against class ads. The expression language (package \<open>cel-go\<close>) is third-party
  code: its three entry points are the fields of \<open>celEnv\<close>, an argument of every
  definition that uses them. The locale \<open>memo\<close> is the contract
  of a cache, over the keyed table of the prelude.
\<close>

datatype celval = CelBool bool | CelOther

record ('ast, 'prg) celEnv =
  celCompile :: "string \<Rightarrow> string + 'ast"
  celProgram :: "'ast \<Rightarrow> string + 'prg"
  celEval :: "'prg \<Rightarrow> (string \<rightharpoonup> iface) \<Rightarrow> string + celval"

record 'prg Evaluator =
  cache :: "string \<rightharpoonup> 'prg"

definition NewEvaluator :: "'prg Evaluator" where
  "NewEvaluator = \<lparr>cache = Map.empty\<rparr>"

datatype matchError = CompileError string | ProgramError string | AdError | NotBoolean

text \<open>The program of an expression: from the cache, or compiled and then cached.\<close>

definition program_of :: "('ast, 'prg) celEnv \<Rightarrow> 'prg Evaluator \<Rightarrow> string \<Rightarrow> (matchError + 'prg) \<times> 'prg Evaluator" where
  "program_of env e expression =
     (case cache e expression of
        Some prg \<Rightarrow> (Inr prg, e)
      | None \<Rightarrow>
          (case celCompile env expression of
             Inl msg \<Rightarrow> (Inl (CompileError msg), e)
           | Inr ast \<Rightarrow>
               (case celProgram env ast of
                  Inl msg \<Rightarrow> (Inl (ProgramError msg), e)
                | Inr prg \<Rightarrow> (Inr prg, e\<lparr>cache := (cache e)(expression \<mapsto> prg)\<rparr>))))"

definition eval_ad :: "('ast, 'prg) celEnv \<Rightarrow> 'prg \<Rightarrow> string \<Rightarrow> matchError + bool" where
  "eval_ad env prg adJSON =
     (case Unmarshal_map adJSON of (adMap, err) \<Rightarrow>
        if err then Inl AdError
        else case celEval env prg adMap of
            Inl _ \<Rightarrow> Inr False
          | Inr (CelBool b) \<Rightarrow> Inr b
          | Inr CelOther \<Rightarrow> Inl NotBoolean)"

definition Match :: "('ast, 'prg) celEnv \<Rightarrow> 'prg Evaluator \<Rightarrow> string \<Rightarrow> string \<Rightarrow> (matchError + bool) \<times> 'prg Evaluator" where
  "Match env e expression adJSON =
     (case program_of env e expression of
        (Inl err, e') \<Rightarrow> (Inl err, e')
      | (Inr prg, e') \<Rightarrow> (eval_ad env prg adJSON, e'))"

text \<open>The test every caller makes: no error and a match.\<close>

definition matches :: "matchError + bool \<Rightarrow> bool" where
  "matches r = (case r of Inl _ \<Rightarrow> False | Inr b \<Rightarrow> b)"

subsection \<open>Caching\<close>

definition coherent :: "('s \<Rightarrow> 'k \<Rightarrow> 'v option) \<Rightarrow> ('k \<Rightarrow> 'e + 'v) \<Rightarrow> 's \<Rightarrow> bool" where
  "coherent get compute s \<longleftrightarrow> (\<forall>k v. get s k = Some v \<longrightarrow> compute k = Inr v)"

definition memoised :: "('s \<Rightarrow> 'k \<Rightarrow> 'v option) \<Rightarrow> ('s \<Rightarrow> 'k \<Rightarrow> 'v \<Rightarrow> 's) \<Rightarrow> ('k \<Rightarrow> 'e + 'v) \<Rightarrow>
    's \<Rightarrow> 'k \<Rightarrow> ('e + 'v) \<times> 's" where
  "memoised get put compute s k =
     (case get s k of
        Some v \<Rightarrow> (Inr v, s)
      | None \<Rightarrow> (case compute k of Inl e \<Rightarrow> (Inl e, s) | Inr v \<Rightarrow> (Inr v, put s k v)))"

locale memo = kv_table get put
  for get :: "'s \<Rightarrow> 'k \<Rightarrow> 'v option" and put :: "'s \<Rightarrow> 'k \<Rightarrow> 'v \<Rightarrow> 's"
begin

lemma memoised_result: "coherent get compute s \<Longrightarrow> fst (memoised get put compute s k) = compute k"
  by (auto simp: coherent_def memoised_def split: option.splits sum.splits)

lemma memoised_coherent: "coherent get compute s \<Longrightarrow> coherent get compute (snd (memoised get put compute s k))"
  by (auto simp: coherent_def memoised_def get_put split: option.splits sum.splits if_splits)

lemma coherent_empty: "(\<And>k. get s k = None) \<Longrightarrow> coherent get compute s"
  by (simp add: coherent_def)

end

definition compiled :: "('ast, 'prg) celEnv \<Rightarrow> string \<Rightarrow> matchError + 'prg" where
  "compiled env expression =
     (case celCompile env expression of
        Inl msg \<Rightarrow> Inl (CompileError msg)
      | Inr ast \<Rightarrow> (case celProgram env ast of Inl msg \<Rightarrow> Inl (ProgramError msg) | Inr prg \<Rightarrow> Inr prg))"

definition put_program :: "'prg Evaluator \<Rightarrow> string \<Rightarrow> 'prg \<Rightarrow> 'prg Evaluator" where
  "put_program e x prg = e\<lparr>cache := (cache e)(x \<mapsto> prg)\<rparr>"

interpretation prog: memo cache put_program
  by unfold_locales (simp add: put_program_def)

lemma program_of_memoised: "program_of env e x = memoised cache put_program (compiled env) e x"
  by (auto simp: program_of_def memoised_def compiled_def put_program_def split: option.splits sum.splits)

text \<open>What an expression and an ad determine, whatever the cache holds.\<close>

definition match_spec :: "('ast, 'prg) celEnv \<Rightarrow> string \<Rightarrow> string \<Rightarrow> matchError + bool" where
  "match_spec env expression adJSON =
     (case compiled env expression of Inl err \<Rightarrow> Inl err | Inr prg \<Rightarrow> eval_ad env prg adJSON)"

definition cache_ok :: "('ast, 'prg) celEnv \<Rightarrow> 'prg Evaluator \<Rightarrow> bool" where
  "cache_ok env e \<longleftrightarrow> coherent cache (compiled env) e"

lemma cache_ok_new: "cache_ok env NewEvaluator"
  by (simp add: cache_ok_def NewEvaluator_def prog.coherent_empty)

lemma Match_spec:
  assumes "cache_ok env e"
  shows "fst (Match env e x ad) = match_spec env x ad" "cache_ok env (snd (Match env e x ad))"
  using prog.memoised_result [of "compiled env" e x] prog.memoised_coherent [of "compiled env" e x] assms
  by (auto simp: Match_def match_spec_def cache_ok_def program_of_memoised split: prod.splits sum.splits)

text \<open>
  C11. Caching compiled requirement expressions is invisible: after any sequence of matches
  on a new evaluator, \<open>Match\<close> answers exactly what compiling and evaluating afresh would.
\<close>

theorem Match_cache_transparent:
  "fst (Match env (foldl (\<lambda>e (x, ad). snd (Match env e x ad)) NewEvaluator qs) expression adJSON)
     = match_spec env expression adJSON"
proof -
  have "cache_ok env (foldl (\<lambda>e (x, ad). snd (Match env e x ad)) e qs)" if "cache_ok env e" for e
    using that by (induction qs arbitrary: e) (auto simp: Match_spec(2))
  then show ?thesis using cache_ok_new Match_spec(1) by blast
qed

end
