(* ===== verification/Config.thy ===== *)
theory Config
  imports Go_Strings
begin

text \<open>
  Configuration: \<open>internal/config/config.go\<close> (defaults, paths, environment overrides) and
  the non-interactive wizard of \<open>internal/setup/setup.go\<close>. The file system and the process
  environment are arguments: which paths exist, the home directory, the variables. YAML
  is third-party code; what decoding a text over the defaults gives is an argument of
  \<open>LoadConfig\<close>.
\<close>

record PortConfig =
  portGossip :: int
  portGRPC :: int
  portZMQ :: int
  portMetrics :: int

record TLSConfig =
  tlsEnabled :: bool
  tlsCertFile :: string
  tlsKeyFile :: string
  tlsCAFile :: string

record Config =
  cfgRole :: string
  cfgNodeName :: string
  cfgMasterAddr :: string
  cfgPorts :: PortConfig
  cfgMaxQueueSize :: int
  cfgMaxRetries :: int
  cfgDrainTimeout :: int
  cfgTLS :: TLSConfig

definition DefaultConfig :: Config where
  "DefaultConfig =
     \<lparr>cfgRole = ''both'', cfgNodeName = [], cfgMasterAddr = ''127.0.0.1'',
      cfgPorts = \<lparr>portGossip = 7946, portGRPC = 50051, portZMQ = 5555, portMetrics = 9090\<rparr>,
      cfgMaxQueueSize = 10000, cfgMaxRetries = 3, cfgDrainTimeout = 60,
      cfgTLS = \<lparr>tlsEnabled = False, tlsCertFile = [], tlsKeyFile = [], tlsCAFile = []\<rparr>\<rparr>"

subsection \<open>Paths\<close>

text \<open>\<open>filepath.Join\<close> of a clean absolute home directory and fixed names.\<close>

definition under_home :: "string \<Rightarrow> string \<Rightarrow> string" where
  "under_home home name = home @ ''/.tasch/'' @ name"

definition DefaultPath :: "bool \<Rightarrow> string option \<Rightarrow> string" where
  "DefaultPath etcExists home =
     (if etcExists then ''/etc/tasch/config.yaml''
      else case home of None \<Rightarrow> ''config.yaml'' | Some h \<Rightarrow> under_home h ''config.yaml'')"

definition StorePath :: "bool \<Rightarrow> string option \<Rightarrow> string" where
  "StorePath varIsDir home =
     (if varIsDir then ''/var/lib/tasch/tasch.db''
      else case home of None \<Rightarrow> ''tasch.db'' | Some h \<Rightarrow> under_home h ''tasch.db'')"

definition PidPath :: "bool \<Rightarrow> string option \<Rightarrow> string" where
  "PidPath varIsDir home =
     (if varIsDir then ''/var/lib/tasch/tasch.pid''
      else case home of None \<Rightarrow> ''tasch.pid'' | Some h \<Rightarrow> under_home h ''tasch.pid'')"

definition GRPCAddr :: "Config \<Rightarrow> string" where
  "GRPCAddr c = cfgMasterAddr c @ '':'' @ Itoa (portGRPC (cfgPorts c))"

subsection \<open>Loading and overriding\<close>

datatype config_error = CannotRead | InvalidConfig | MasterAddrRequired

definition LoadConfig :: "string option \<Rightarrow> (string \<Rightarrow> Config \<Rightarrow> Config option) \<Rightarrow> config_error + Config" where
  "LoadConfig contents yamlDecode =
     (case contents of
        None \<Rightarrow> Inl CannotRead
      | Some bytes \<Rightarrow> (case yamlDecode bytes DefaultConfig of None \<Rightarrow> Inl InvalidConfig | Some cfg \<Rightarrow> Inr cfg))"

text \<open>What \<open>SaveConfig\<close> leaves in the file, given the text YAML has for the configuration, and whether it succeeds.\<close>

definition SaveConfig :: "bool \<Rightarrow> (Config \<Rightarrow> string option) \<Rightarrow> bool \<Rightarrow> string option \<Rightarrow> Config \<Rightarrow> bool \<times> string option" where
  "SaveConfig dir_ok yamlEncode write_ok contents cfg =
     (if \<not> dir_ok then (False, contents)
      else case yamlEncode cfg of
          None \<Rightarrow> (False, contents)
        | Some bytes \<Rightarrow> if write_ok then (True, Some bytes) else (False, contents))"

lemma save_load_config:
  assumes "\<And>c bytes d. yamlEncode c = Some bytes \<Longrightarrow> yamlDecode bytes d = Some c"
    and "SaveConfig dir_ok yamlEncode write_ok contents cfg = (True, contents')"
  shows "LoadConfig contents' yamlDecode = Inr cfg"
proof -
  obtain bytes where "yamlEncode cfg = Some bytes" "contents' = Some bytes"
    using assms(2) by (cases "yamlEncode cfg") (auto simp: SaveConfig_def split: if_splits)
  then show ?thesis using assms(1) by (simp add: LoadConfig_def)
qed

text \<open>
  \<open>fmt.Sscanf(v, "%d", &x)\<close>: an optional sign and a run of digits; blanks before the number
  are skipped, whatever follows the number is left unread, and when there is no number or
  it does not fit \<open>x\<close> keeps its value. (Digit separators are taken to be absent.)
\<close>

definition Sscanf_d :: "string \<Rightarrow> int \<Rightarrow> int" where
  "Sscanf_d v x =
     (let s = dropWhile (\<lambda>c. c = CHR '' '' \<or> c = CHR 0x09) v;
          sign = (case s of c # _ \<Rightarrow> if c = CHR ''-'' \<or> c = CHR ''+'' then [c] else [] | [] \<Rightarrow> []);
          tok = sign @ takeWhile is_digit (drop (length sign) s)
      in case Atoi tok of (n, None) \<Rightarrow> n | (_, Some _) \<Rightarrow> x)"

definition override_port :: "(string \<Rightarrow> string) \<Rightarrow> string \<Rightarrow> int \<Rightarrow> int" where
  "override_port env name x = (if env name \<noteq> [] then Sscanf_d (env name) x else x)"

definition ApplyEnvOverrides :: "(string \<Rightarrow> string) \<Rightarrow> Config \<Rightarrow> Config" where
  "ApplyEnvOverrides env c =
     (let c1 = (if env ''TASCH_MASTER_ADDR'' \<noteq> [] then c\<lparr>cfgMasterAddr := env ''TASCH_MASTER_ADDR''\<rparr> else c);
          p = cfgPorts c1
      in c1\<lparr>cfgPorts := p\<lparr>portGossip := override_port env ''TASCH_GOSSIP_PORT'' (portGossip p),
                          portGRPC := override_port env ''TASCH_GRPC_PORT'' (portGRPC p),
                          portZMQ := override_port env ''TASCH_ZMQ_PORT'' (portZMQ p),
                          portMetrics := override_port env ''TASCH_METRICS_PORT'' (portMetrics p)\<rparr>\<rparr>)"

text \<open>\<open>loadConfig\<close> of \<open>cmd/tasch/main.go\<close>.\<close>

definition loadConfig :: "string option \<Rightarrow> (string \<Rightarrow> Config \<Rightarrow> Config option) \<Rightarrow> (string \<Rightarrow> string) \<Rightarrow> Config" where
  "loadConfig contents yamlDecode env =
     ApplyEnvOverrides env (case LoadConfig contents yamlDecode of Inl _ \<Rightarrow> DefaultConfig | Inr cfg \<Rightarrow> cfg)"

subsection \<open>The non-interactive wizard\<close>

definition RunNonInteractive :: "string \<Rightarrow> string \<Rightarrow> string \<Rightarrow> string \<Rightarrow> string \<Rightarrow> int \<Rightarrow> int \<Rightarrow> int \<Rightarrow> config_error + Config" where
  "RunNonInteractive hostname localIP role nodeName masterAddr gossipPort grpcPort zmqPort =
     (let c0 = DefaultConfig;
          c1 = (if role \<noteq> [] then c0\<lparr>cfgRole := role\<rparr> else c0);
          c2 = (if nodeName \<noteq> [] then c1\<lparr>cfgNodeName := nodeName\<rparr> else c1\<lparr>cfgNodeName := hostname\<rparr>);
          c3 = (if masterAddr \<noteq> [] then c2\<lparr>cfgMasterAddr := masterAddr\<rparr>
                else if cfgRole c2 \<noteq> ''worker'' then c2\<lparr>cfgMasterAddr := localIP\<rparr> else c2);
          c4 = (if 0 < gossipPort then c3\<lparr>cfgPorts := (cfgPorts c3)\<lparr>portGossip := gossipPort\<rparr>\<rparr> else c3);
          c5 = (if 0 < grpcPort then c4\<lparr>cfgPorts := (cfgPorts c4)\<lparr>portGRPC := grpcPort\<rparr>\<rparr> else c4);
          c6 = (if 0 < zmqPort then c5\<lparr>cfgPorts := (cfgPorts c5)\<lparr>portZMQ := zmqPort\<rparr>\<rparr> else c5)
      in if cfgRole c6 = ''worker'' \<and> cfgMasterAddr c6 = [] then Inl MasterAddrRequired else Inr c6)"

text \<open>
  The check that a worker is given a master address never fires: whatever the flags,
  the wizard returns a configuration, and a worker set up without an address is
  configured for the default \<open>127.0.0.1\<close> instead of being refused.
\<close>

theorem worker_address_check_is_dead:
  "RunNonInteractive hostname localIP role nodeName masterAddr gp rp zp \<noteq> Inl MasterAddrRequired \<and>
   (\<exists>cfg. RunNonInteractive hostname localIP ''worker'' nodeName [] gp rp zp = Inr cfg \<and>
      cfgMasterAddr cfg = ''127.0.0.1'')"
proof -
  have a: "RunNonInteractive hostname localIP role nodeName masterAddr gp rp zp \<noteq> Inl MasterAddrRequired"
    by (simp add: RunNonInteractive_def DefaultConfig_def Let_def)
  have b: "\<exists>cfg. RunNonInteractive hostname localIP ''worker'' nodeName [] gp rp zp = Inr cfg \<and>
      cfgMasterAddr cfg = ''127.0.0.1''"
    by (simp add: RunNonInteractive_def DefaultConfig_def Let_def)
  show ?thesis using a b by blast
qed

text \<open>
  Environment overrides: without \<open>TASCH_*\<close> variables the configuration is unchanged, and
  a port variable that holds a printed integer sets exactly that port.
\<close>

theorem env_overrides:
  assumes "in_i64 n"
  shows "ApplyEnvOverrides (\<lambda>_. []) c = c \<and>
    ApplyEnvOverrides ((\<lambda>_. [])(''TASCH_GRPC_PORT'' := Itoa n)) c =
      c\<lparr>cfgPorts := (cfgPorts c)\<lparr>portGRPC := n\<rparr>\<rparr>"
proof -
  have [simp]: "Itoa n \<noteq> []" by (simp add: Itoa_def)
  have d: "takeWhile is_digit (digits_of m) = digits_of m" for m
    using digits_of_digits by (simp add: takeWhile_eq_all_conv)
  have "Sscanf_d (Itoa n) x = n" for x
  proof (cases "n < 0")
    case True
    then show ?thesis using Atoi_Itoa [OF assms] by (simp add: Sscanf_d_def Itoa_def Let_def d)
  next
    case False
    obtain c r where c: "digits_of (nat n) = c # r" by (cases "digits_of (nat n)") auto
    then have "is_digit c" using digits_of_digits [of c "nat n"] by simp
    then have "c \<noteq> CHR '' ''" "c \<noteq> CHR 0x09" "c \<noteq> CHR ''-''" "c \<noteq> CHR ''+''"
      by (auto simp: is_digit_def)
    then show ?thesis
      using Atoi_Itoa [OF assms] c False \<open>is_digit c\<close> d [of "nat n", unfolded c]
      by (simp add: Sscanf_d_def Itoa_def Let_def del: takeWhile_eq_all_conv)
  qed
  then show ?thesis by (simp add: ApplyEnvOverrides_def override_port_def Let_def)
qed

theorem env_overrides_witness:
  "ApplyEnvOverrides ((\<lambda>_. [])(''TASCH_GRPC_PORT'' := Itoa 6000)) DefaultConfig =
     DefaultConfig\<lparr>cfgPorts := (cfgPorts DefaultConfig)\<lparr>portGRPC := 6000\<rparr>\<rparr>"
  using env_overrides [of 6000 DefaultConfig] by (simp add: in_i64_def)

end
