(* ===== verification/Log_Store.thy ===== *)
theory Log_Store
  imports Tasch_Prelude "HOL-Library.Sublist"
begin

text \<open>
  The log store and its live streams (\<open>appendLog\<close>, \<open>StreamLogs\<close> of
  \<open>internal/daemon/master.go\<close>). A Go channel is a number; \<open>buffers\<close> gives the entries it
  holds. A send to a full channel (64 entries) takes the \<open>default\<close> branch of the
  \<open>select\<close> and drops the entry. \<open>StreamLogs\<close> is split at its lock boundaries: replay,
  subscription, one delivery, and the deferred clean-up.
\<close>

record LogMessage =
  Timestamp :: int
  Level :: string
  Message :: string
  JobId :: string

record logs =
  logStore :: "string \<rightharpoonup> LogMessage list"
  logChannels :: "string \<rightharpoonup> nat list"
  buffers :: "nat \<Rightarrow> LogMessage list"
  next_chan :: nat

definition empty_logs :: logs where
  "empty_logs = \<lparr>logStore = Map.empty, logChannels = Map.empty, buffers = (\<lambda>_. []), next_chan = 0\<rparr>"

definition chan_capacity :: nat where "chan_capacity = 64"

definition try_send :: "LogMessage \<Rightarrow> (nat \<Rightarrow> LogMessage list) \<Rightarrow> nat \<Rightarrow> (nat \<Rightarrow> LogMessage list)" where
  "try_send entry b ch = (if length (b ch) < chan_capacity then b(ch := b ch @ [entry]) else b)"

definition log_entry :: "Time \<Rightarrow> string \<Rightarrow> string \<Rightarrow> string \<Rightarrow> LogMessage" where
  "log_entry now jobID level msg =
     \<lparr>Timestamp = time_UnixMilli now, Level = level, Message = msg, JobId = jobID\<rparr>"

definition appendLog :: "Time \<Rightarrow> string \<Rightarrow> string \<Rightarrow> string \<Rightarrow> logs \<Rightarrow> logs" where
  "appendLog now jobID level msg L =
     (let entry = log_entry now jobID level msg;
          L1 = L\<lparr>logStore := (logStore L)(jobID \<mapsto> get_or [] (logStore L) jobID @ [entry])\<rparr>
      in L1\<lparr>buffers := foldl (try_send entry) (buffers L1) (get_or [] (logChannels L1) jobID)\<rparr>)"

text \<open>The replay; \<open>fails\<close> is the number of sends after which the client's stream breaks.\<close>

definition stream_replay :: "nat option \<Rightarrow> logs \<Rightarrow> string \<Rightarrow> LogMessage list \<times> bool" where
  "stream_replay fails L jobID =
     (let entries = get_or [] (logStore L) jobID
      in case fails of
          None \<Rightarrow> (entries, False)
        | Some n \<Rightarrow> if n < length entries then (take n entries, True) else (entries, False))"

definition stream_subscribe :: "logs \<Rightarrow> string \<Rightarrow> nat \<times> logs" where
  "stream_subscribe L jobID =
     (let ch = next_chan L
      in (ch, L\<lparr>buffers := (buffers L)(ch := []), next_chan := Suc ch,
               logChannels := (logChannels L)(jobID \<mapsto> get_or [] (logChannels L) jobID @ [ch])\<rparr>))"

definition stream_recv :: "logs \<Rightarrow> nat \<Rightarrow> LogMessage option \<times> logs" where
  "stream_recv L ch =
     (case buffers L ch of
        [] \<Rightarrow> (None, L)
      | entry # rest \<Rightarrow> (Some entry, L\<lparr>buffers := (buffers L)(ch := rest)\<rparr>))"

definition stream_close :: "logs \<Rightarrow> string \<Rightarrow> nat \<Rightarrow> logs" where
  "stream_close L jobID ch =
     L\<lparr>logChannels := (logChannels L)(jobID \<mapsto> remove1 ch (get_or [] (logChannels L) jobID))\<rparr>"

subsection \<open>Streams\<close>

datatype log_event = Append Time string string string | Recv nat | Open string | Close string nat

fun log_step :: "logs \<Rightarrow> log_event \<Rightarrow> logs" where
  "log_step L (Append now jobID level msg) = appendLog now jobID level msg L"
| "log_step L (Recv ch) = snd (stream_recv L ch)"
| "log_step L (Open jobID) = snd (stream_subscribe L jobID)"
| "log_step L (Close jobID ch) = stream_close L jobID ch"

text \<open>What channel \<open>ch\<close> delivers during a sequence of events.\<close>

fun delivered :: "nat \<Rightarrow> logs \<Rightarrow> log_event list \<Rightarrow> LogMessage list" where
  "delivered ch L [] = []"
| "delivered ch L (e # es) =
     (case e of Recv c \<Rightarrow> (if c = ch then (case fst (stream_recv L c) of None \<Rightarrow> [] | Some m \<Rightarrow> [m]) else []) | _ \<Rightarrow> [])
     @ delivered ch (log_step L e) es"

fun appended :: "string \<Rightarrow> log_event list \<Rightarrow> LogMessage list" where
  "appended jobID [] = []"
| "appended jobID (e # es) =
     (case e of Append now j level msg \<Rightarrow> (if j = jobID then [log_entry now j level msg] else []) | _ \<Rightarrow> [])
     @ appended jobID es"

text \<open>Channel \<open>ch\<close> is subscribed to \<open>jobID\<close>, once, and to nothing else.\<close>

definition subscribed :: "logs \<Rightarrow> string \<Rightarrow> nat \<Rightarrow> bool" where
  "subscribed L jobID ch \<longleftrightarrow> ch < next_chan L \<and> count_list (get_or [] (logChannels L) jobID) ch = 1 \<and>
     (\<forall>j. j \<noteq> jobID \<longrightarrow> ch \<notin> set (get_or [] (logChannels L) j))"

lemma foldl_try_send:
  "count_list chs ch \<le> 1 \<Longrightarrow> foldl (try_send e) b chs ch =
     (if ch \<in> set chs \<and> length (b ch) < chan_capacity then b ch @ [e] else b ch)"
proof (induction chs arbitrary: b)
  case (Cons c chs)
  show ?case
  proof (cases "c = ch")
    case True
    then have "count_list chs ch = 0" using Cons.prems by simp
    then have "ch \<notin> set chs" by (simp add: count_list_0_iff)
    then show ?thesis using Cons True by (simp add: try_send_def)
  next
    case False
    then show ?thesis using Cons by (auto simp: try_send_def)
  qed
qed simp

lemma subscribed_count:
  assumes "subscribed L jobID ch"
  shows "count_list (get_or [] (logChannels L) j) ch = (if j = jobID then 1 else 0)"
    and "ch \<in> set (get_or [] (logChannels L) j) \<longleftrightarrow> j = jobID"
proof -
  show c: "count_list (get_or [] (logChannels L) j) ch = (if j = jobID then 1 else 0)"
    using assms by (auto simp: subscribed_def count_list_0_iff)
  show "ch \<in> set (get_or [] (logChannels L) j) \<longleftrightarrow> j = jobID"
    using c by (metis count_list_0_iff zero_neq_one)
qed

lemma buffers_append:
  assumes "subscribed L jobID ch"
  shows "buffers (appendLog now j level msg L) ch =
    (if j = jobID \<and> length (buffers L ch) < chan_capacity then buffers L ch @ [log_entry now j level msg] else buffers L ch)"
proof -
  have "count_list (get_or [] (logChannels L) j) ch \<le> 1" "ch \<in> set (get_or [] (logChannels L) j) \<longleftrightarrow> j = jobID"
    using subscribed_count [OF assms, of j] by (simp_all split: if_splits)
  then show ?thesis
    by (simp add: appendLog_def Let_def foldl_try_send)
qed

lemma subscribed_step:
  assumes "subscribed L jobID ch" "e \<noteq> Close jobID ch"
  shows "subscribed (log_step L e) jobID ch"
proof (cases e)
  case (Append now j level msg)
  then show ?thesis using assms by (simp add: subscribed_def appendLog_def Let_def)
next
  case (Recv c)
  then show ?thesis using assms by (simp add: subscribed_def stream_recv_def split: list.split)
next
  case (Open j)
  then show ?thesis using assms by (auto simp: subscribed_def stream_subscribe_def Let_def)
next
  case (Close j c)
  have "count_list (remove1 c xs) ch = count_list xs ch" if "c \<noteq> ch" for xs
    using that by (induction xs) auto
  then show ?thesis using assms Close
    by (auto simp: subscribed_def stream_close_def dest: notin_set_remove1)
qed



end
