(* ===== verification/Master_State.thy ===== *)
theory Master_State
  imports Store Scheduler_Steps Circuit_Breaker Resource_Tracker Fairshare Matchmaker Log_Store Config
begin

text \<open>
  The master's state (\<open>schedulerServer\<close> of \<open>internal/daemon/master.go\<close>) and the messages it
  publishes (\<open>pkg/messaging/payload.go\<close>). A published message is kept as the payload whose
  JSON text is sent; a cluster member is the part of \<open>memberlist.Node\<close> the master reads.
  \<open>srv_timers\<close> holds the pending retry goroutines, each with the instant its timer fires.
  The calls on the metrics' collectors are output only; theory \<open>Metrics\<close> adds them.

  The requests are those of the generated package \<open>api/v1\<close>; an \<open>int32\<close> field is a
  \<open>32 word\<close>, and \<open>sint\<close> is the conversion to \<open>int\<close>.
\<close>

record DispatchPayload =
  TargetNode :: string
  JobID :: string
  pCommand :: string
  pWalltimeSeconds :: int
  Action :: string
  pEnvVars :: "(string \<rightharpoonup> string) option"

definition cancel_payload :: "string \<Rightarrow> string \<Rightarrow> DispatchPayload" where
  "cancel_payload node jobID =
     \<lparr>TargetNode = node, JobID = jobID, pCommand = [], pWalltimeSeconds = 0, Action = ''cancel'', pEnvVars = None\<rparr>"

record Node =
  Name :: string
  Meta :: string
  Addr :: string

record 'prg schedulerServer =
  srv_queue :: GlobalScheduler
  srv_eval :: "'prg Evaluator"
  srv_sent :: "DispatchPayload list"
  srv_fairshare :: FairshareCalculator
  srv_store :: "Store option"
  srv_cfg :: Config
  srv_draining :: bool
  srv_cb :: circuitBreaker
  srv_tracker :: gpuTracker
  srv_pending :: "string \<rightharpoonup> Time"
  srv_logs :: logs
  srv_timers :: "(Time \<times> string) list"

datatype grpc_error = Unavailable string | ResourceExhausted string | Internal string

definition srv_log :: "Time \<Rightarrow> string \<Rightarrow> string \<Rightarrow> string \<Rightarrow> 'prg schedulerServer \<Rightarrow> 'prg schedulerServer" where
  "srv_log now jobID level msg srv = srv\<lparr>srv_logs := appendLog now jobID level msg (srv_logs srv)\<rparr>"

definition publish :: "DispatchPayload \<Rightarrow> 'prg schedulerServer \<Rightarrow> 'prg schedulerServer" where
  "publish p srv = srv\<lparr>srv_sent := srv_sent srv @ [p]\<rparr>"

definition release_job :: "string \<Rightarrow> Job \<Rightarrow> 'prg schedulerServer \<Rightarrow> 'prg schedulerServer" where
  "release_job node job srv =
     srv\<lparr>srv_tracker := Release (srv_tracker srv) node (GPUsRequired job) (CPUsRequired job) (MemoryRequiredMB job)\<rparr>"

lemma srv_log_sel [simp, frame]:
  "srv_queue (srv_log now j l m srv) = srv_queue srv" "srv_eval (srv_log now j l m srv) = srv_eval srv"
  "srv_sent (srv_log now j l m srv) = srv_sent srv" "srv_fairshare (srv_log now j l m srv) = srv_fairshare srv"
  "srv_store (srv_log now j l m srv) = srv_store srv" "srv_cfg (srv_log now j l m srv) = srv_cfg srv"
  "srv_draining (srv_log now j l m srv) = srv_draining srv" "srv_cb (srv_log now j l m srv) = srv_cb srv"
  "srv_tracker (srv_log now j l m srv) = srv_tracker srv" "srv_pending (srv_log now j l m srv) = srv_pending srv"
  "srv_timers (srv_log now j l m srv) = srv_timers srv"
  by (simp_all add: srv_log_def)

lemma publish_sel [simp, frame]:
  "srv_queue (publish p srv) = srv_queue srv" "srv_eval (publish p srv) = srv_eval srv"
  "srv_sent (publish p srv) = srv_sent srv @ [p]" "srv_fairshare (publish p srv) = srv_fairshare srv"
  "srv_store (publish p srv) = srv_store srv" "srv_cfg (publish p srv) = srv_cfg srv"
  "srv_draining (publish p srv) = srv_draining srv" "srv_cb (publish p srv) = srv_cb srv"
  "srv_tracker (publish p srv) = srv_tracker srv" "srv_pending (publish p srv) = srv_pending srv"
  "srv_timers (publish p srv) = srv_timers srv" "srv_logs (publish p srv) = srv_logs srv"
  by (simp_all add: publish_def)

lemma release_job_sel [simp, frame]:
  "srv_queue (release_job n j srv) = srv_queue srv" "srv_eval (release_job n j srv) = srv_eval srv"
  "srv_sent (release_job n j srv) = srv_sent srv" "srv_fairshare (release_job n j srv) = srv_fairshare srv"
  "srv_store (release_job n j srv) = srv_store srv" "srv_cfg (release_job n j srv) = srv_cfg srv"
  "srv_draining (release_job n j srv) = srv_draining srv" "srv_cb (release_job n j srv) = srv_cb srv"
  "srv_pending (release_job n j srv) = srv_pending srv" "srv_timers (release_job n j srv) = srv_timers srv"
  "srv_tracker (release_job n j srv) =
     Release (srv_tracker srv) n (GPUsRequired j) (CPUsRequired j) (MemoryRequiredMB j)"
  by (simp_all add: release_job_def)

subsection \<open>Runs of scheduler operations\<close>

text \<open>
  What a handler does to the scheduler is a sequence of its methods. \<open>qsteps\<close> relates two
  scheduler states between which there is such a sequence, every step allowed; without the
  flag no step enters a new job.
\<close>

inductive qsteps :: "bool \<Rightarrow> GlobalScheduler \<Rightarrow> GlobalScheduler \<Rightarrow> bool" for adm :: bool where
  none: "qsteps adm g g"
| more: "qsteps adm f g \<Longrightarrow> allowed g op \<Longrightarrow> adm \<or> (\<forall>j. op \<noteq> OpEnqueue j) \<Longrightarrow> qsteps adm f (exec op g)"

lemma qsteps_trans: "qsteps adm g h \<Longrightarrow> qsteps adm f g \<Longrightarrow> qsteps adm f h"
  by (induction rule: qsteps.induct) (auto intro: qsteps.intros)

lemma qsteps_inv: "qsteps adm f g \<Longrightarrow> gs_inv f \<Longrightarrow> gs_inv g"
  by (induction rule: qsteps.induct) (auto simp: exec_inv)

lemma qsteps_reach: "qsteps adm f g \<Longrightarrow> reach f \<Longrightarrow> reach g"
  by (induction rule: qsteps.induct) (auto intro: reach.intros)

lemma qsteps_weaken: "qsteps False f g \<Longrightarrow> qsteps adm f g"
  by (induction rule: qsteps.induct) (auto intro: qsteps.intros)

lemma qsteps_Cancel: "qsteps adm f g \<Longrightarrow> qsteps adm f (snd (snd (Cancel now g jid)))"
  using qsteps.more [of adm f g "OpCancel now jid"] by simp

lemma qsteps_Completed: "qsteps adm f g \<Longrightarrow> qsteps adm f (MarkCompleted now g jid ok out err)"
  using qsteps.more [of adm f g "OpCompleted now jid ok out err"] by simp

lemma qsteps_Running: "qsteps adm f g \<Longrightarrow> jid \<notin># waiting g \<Longrightarrow> qsteps adm f (MarkRunning now g jid node)"
  using qsteps.more [of adm f g "OpRunning now jid node"] by simp

lemma qsteps_RequeueRunning: "qsteps adm f g \<Longrightarrow> qsteps adm f (snd (snd (RequeueRunningJob g jid)))"
  using qsteps.more [of adm f g "OpRequeueRunning jid"] by simp

lemma qsteps_GroupState: "qsteps adm f g \<Longrightarrow> qsteps adm f (SetGroupState g gid st)"
  using qsteps.more [of adm f g "OpGroupState gid st"] by simp

lemma qsteps_Register: "qsteps adm f g \<Longrightarrow> qsteps adm f (RegisterGroup g gr)"
  using qsteps.more [of adm f g "OpRegister gr"] by simp

lemma qsteps_Dequeue: "qsteps adm f g \<Longrightarrow> qsteps adm f (snd (Dequeue g))"
  using qsteps.more [of adm f g OpDequeue] by simp

lemma qsteps_Remove: "qsteps adm f g \<Longrightarrow> qsteps adm f (snd (RemoveByID g jid))"
  using qsteps.more [of adm f g "OpRemove jid"] by simp

lemmas qsteps_intros = qsteps.none qsteps_Cancel qsteps_Completed qsteps_RequeueRunning qsteps_GroupState
  qsteps_Register qsteps_Dequeue qsteps_Remove

end
