(* ===== verification/Master_Dispatch.thy ===== *)
theory Master_Dispatch
  imports Master_State
begin

text \<open>
  Dispatching (\<open>internal/daemon/master.go\<close>, section Scheduling): the resource test, the
  placement of gangs, the dispatch of one job, and one tick of \<open>dispatchLoop\<close>. A tick runs
  at one instant \<open>now\<close> and sees one list of cluster members; \<open>env\<close> is the expression
  language. A Go panic is the result \<open>None\<close>.
\<close>

subsection \<open>Resources of a member\<close>

definition nodeGPUCount :: "string \<Rightarrow> int" where
  "nodeGPUCount meta =
     (case Unmarshal_map meta of (ad, err) \<Rightarrow> if err then 0 else f64_to_int (as_float ad ''gpu_count''))"

definition nodeMatchesGPU :: "string \<Rightarrow> int \<Rightarrow> bool" where
  "nodeMatchesGPU meta gpusRequired = (gpusRequired \<le> 0 \<or> gpusRequired \<le> nodeGPUCount meta)"

definition member_ad :: "Node \<Rightarrow> string \<rightharpoonup> iface" where
  "member_ad member = (if Meta member = [] then Map.empty else fst (Unmarshal_map (Meta member)))"

definition canDispatchResources :: "gpuTracker \<Rightarrow> Node \<Rightarrow> Job \<Rightarrow> bool" where
  "canDispatchResources gt member job =
     (let ad = member_ad member;
          gpus = f64_to_int (as_float ad ''gpu_count'');
          cpus = f64_to_int (as_float ad ''cpu_cores'');
          memMB = f64_to_int (as_float ad ''total_memory_mb'')
      in if 0 < GPUsRequired job \<and>
            (gpus < GPUsRequired job \<or> AvailableGPUs gt (Name member) gpus < GPUsRequired job) then False
         else if 0 < CPUsRequired job \<and>
            (cpus < CPUsRequired job \<or> AvailableCPUs gt (Name member) cpus < CPUsRequired job) then False
         else if 0 < MemoryRequiredMB job \<and>
            (memMB < MemoryRequiredMB job \<or> AvailableMemory gt (Name member) memMB < MemoryRequiredMB job) then False
         else True)"

text \<open>The tests both placement loops make on one member, in the code's order.\<close>

definition try_member :: "('ast, 'prg) celEnv \<Rightarrow> Time \<Rightarrow> 'prg schedulerServer \<Rightarrow> Node \<Rightarrow> Job \<Rightarrow>
    bool \<times> 'prg schedulerServer" where
  "try_member env now srv member job =
     (if Meta member = [] then (False, srv)
      else let (blocked, cb) = IsBlocked now (srv_cb srv) (Name member);
               srv1 = srv\<lparr>srv_cb := cb\<rparr>
           in if blocked then (False, srv1)
              else if \<not> canDispatchResources (srv_tracker srv1) member job then (False, srv1)
              else let (r, e) = Match env (srv_eval srv1) (Requirement job) (Meta member)
                   in (matches r, srv1\<lparr>srv_eval := e\<rparr>))"

subsection \<open>Dispatch of one job\<close>

definition gpuDevices :: "int \<Rightarrow> string" where
  "gpuDevices n = Join (map (\<lambda>i. Itoa (int i)) [0..<nat n]) '',''"

definition set_default :: "string \<Rightarrow> string \<Rightarrow> (string \<rightharpoonup> string) \<Rightarrow> (string \<rightharpoonup> string)" where
  "set_default k v m = (case m k of None \<Rightarrow> m(k \<mapsto> v) | Some _ \<Rightarrow> m)"

text \<open>The device variables, by the vendor of the node's GPUs.\<close>

definition gpu_env :: "string \<Rightarrow> int \<Rightarrow> (string \<rightharpoonup> string) \<Rightarrow> (string \<rightharpoonup> string)" where
  "gpu_env vendor n envVars =
     (let gpuEnvVar = (if vendor = ''amd'' then ''HIP_VISIBLE_DEVICES'' else ''CUDA_VISIBLE_DEVICES'')
      in if vendor = ''intel''
         then let val = ''level_zero:'' @ gpuDevices n
              in set_default ''SYCL_DEVICE_FILTER'' val (set_default ''ONEAPI_DEVICE_SELECTOR'' val envVars)
         else if vendor = ''apple'' then set_default ''METAL_DEVICE_INDEX'' (gpuDevices n) envVars
         else set_default gpuEnvVar (gpuDevices n) envVars)"

fun node_vendor :: "string \<Rightarrow> Node list \<Rightarrow> string" where
  "node_vendor nodeName [] = []"
| "node_vendor nodeName (member # ms) =
     (if Name member = nodeName \<and> Meta member \<noteq> []
      then case Unmarshal_map (Meta member) of (ad, err) \<Rightarrow>
             if err then [] else (case as_string ad ''gpu_vendor'' of Some v \<Rightarrow> v | None \<Rightarrow> [])
      else node_vendor nodeName ms)"

definition dispatchJob :: "Time \<Rightarrow> Node list \<Rightarrow> 'prg schedulerServer \<Rightarrow> Job \<Rightarrow> string \<Rightarrow> 'prg schedulerServer" where
  "dispatchJob now members srv job nodeName =
     (let srv1 = srv\<lparr>srv_queue := MarkRunning now (srv_queue srv) (ID job) nodeName\<rparr>;
          srv2 = srv1\<lparr>srv_pending := (srv_pending srv1)(ID job \<mapsto> now)\<rparr>;
          srv3 = srv2\<lparr>srv_tracker := Allocate (srv_tracker srv2) nodeName (GPUsRequired job) (CPUsRequired job) (MemoryRequiredMB job)\<rparr>;
          env0 = (case EnvVars job of None \<Rightarrow> Map.empty | Some m \<Rightarrow> m);
          envVars = (if 0 < GPUsRequired job then gpu_env (node_vendor nodeName members) (GPUsRequired job) env0 else env0);
          payload = \<lparr>TargetNode = nodeName, JobID = ID job, pCommand = Command job,
                     pWalltimeSeconds = WalltimeSeconds job, Action = ''execute'', pEnvVars = Some envVars\<rparr>;
          srv4 = publish payload srv3
      in srv_log now (ID job) ''INFO'' (''Dispatched to node '' @ nodeName) srv4)"

subsection \<open>Gangs\<close>

fun match_rank :: "('ast, 'prg) celEnv \<Rightarrow> Time \<Rightarrow> string list \<Rightarrow> Node list \<Rightarrow> 'prg schedulerServer \<Rightarrow> Job \<Rightarrow>
    Node option \<times> 'prg schedulerServer" where
  "match_rank env now usedNodes [] srv job = (None, srv)"
| "match_rank env now usedNodes (member # ms) srv job =
     (if Name member \<in> set usedNodes then match_rank env now usedNodes ms srv job
      else let (ok, srv1) = try_member env now srv member job
           in if ok then (Some member, srv1) else match_rank env now usedNodes ms srv1 job)"

fun match_group :: "('ast, 'prg) celEnv \<Rightarrow> Time \<Rightarrow> Node list \<Rightarrow> string list \<Rightarrow> Node list \<Rightarrow> 'prg schedulerServer \<Rightarrow>
    Job list \<Rightarrow> Node list option \<times> 'prg schedulerServer" where
  "match_group env now members usedNodes matched srv [] = (Some matched, srv)"
| "match_group env now members usedNodes matched srv (job # js) =
     (case match_rank env now usedNodes members srv job of
        (None, srv1) \<Rightarrow> (None, srv1)
      | (Some member, srv1) \<Rightarrow>
          match_group env now members (Name member # usedNodes) (matched @ [member]) srv1 js)"

fun dispatch_ranks :: "Time \<Rightarrow> Node list \<Rightarrow> string \<Rightarrow> 'prg schedulerServer \<Rightarrow> nat \<Rightarrow> (Job \<times> Node) list \<Rightarrow>
    'prg schedulerServer option" where
  "dispatch_ranks now members addr srv i [] = Some srv"
| "dispatch_ranks now members addr srv i ((job, member) # rest) =
     (case EnvVars job of
        None \<Rightarrow> None
      | Some e \<Rightarrow>
          let job' = job\<lparr>EnvVars := Some (e(''MASTER_ADDR'' \<mapsto> addr))\<rparr>;
              srv1 = srv\<lparr>srv_queue := snd (RemoveByID (srv_queue srv) (ID job'))\<rparr>;
              srv2 = dispatchJob now members srv1 job' (Name member);
              srv3 = srv_log now (ID job') ''INFO''
                       (''Gang-scheduled: rank '' @ Itoa (int i) @ '' '' @ [CHR 0xE2, CHR 0x86, CHR 0x92] @ '' ''
                        @ Name member @ '' (master='' @ addr @ '')'') srv2
          in dispatch_ranks now members addr srv3 (Suc i) rest)"

definition queued_ranks :: "GlobalScheduler \<Rightarrow> JobGroup \<Rightarrow> Job list" where
  "queued_ranks gs grp =
     concat (map (\<lambda>jid. case GetJob gs jid of
        (Some job, True) \<Rightarrow> if State job = StateQueued then [job] else [] | _ \<Rightarrow> []) (gJobIDs grp))"

definition tryDispatchGroup :: "('ast, 'prg) celEnv \<Rightarrow> Time \<Rightarrow> Node list \<Rightarrow> 'prg schedulerServer \<Rightarrow> JobGroup \<Rightarrow>
    'prg schedulerServer option" where
  "tryDispatchGroup env now members srv grp =
     (let queuedJobs = queued_ranks (srv_queue srv) grp
      in if int (length queuedJobs) \<noteq> gNumNodes grp then Some srv
         else case match_group env now members [] [] srv queuedJobs of
             (None, srv1) \<Rightarrow> Some srv1
           | (Some [], srv1) \<Rightarrow> None
           | (Some (m0 # ms), srv1) \<Rightarrow>
               (case dispatch_ranks now members (Addr m0) srv1 0 (zip queuedJobs (m0 # ms)) of
                  None \<Rightarrow> None
                | Some srv2 \<Rightarrow>
                    Some (srv2\<lparr>srv_queue := SetGroupState (srv_queue srv2) (gGroupID grp) ''RUNNING''\<rparr>)))"

definition gangTimeout :: Duration where "gangTimeout = 5 * Minute"

fun cancel_ranks :: "Time \<Rightarrow> string \<Rightarrow> 'prg schedulerServer \<Rightarrow> string list \<Rightarrow> 'prg schedulerServer" where
  "cancel_ranks now msg srv [] = srv"
| "cancel_ranks now msg srv (jid # jids) =
     cancel_ranks now msg
       (srv_log now jid ''ERROR'' msg (srv\<lparr>srv_queue := snd (snd (Cancel now (srv_queue srv) jid))\<rparr>)) jids"

fun gang_phase :: "('ast, 'prg) celEnv \<Rightarrow> Time \<Rightarrow> Node list \<Rightarrow> 'prg schedulerServer \<Rightarrow> JobGroup list \<Rightarrow>
    'prg schedulerServer option" where
  "gang_phase env now members srv [] = Some srv"
| "gang_phase env now members srv (g # gs) =
     (if gCreatedAt g \<noteq> zero_time \<and> gangTimeout < time_Sub now (gCreatedAt g)
      then let srv1 = cancel_ranks now (''Gang group timed out waiting for '' @ Itoa (gNumNodes g) @ '' nodes'') srv (gJobIDs g)
           in gang_phase env now members
                (srv1\<lparr>srv_queue := SetGroupState (srv_queue srv1) (gGroupID g) ''FAILED''\<rparr>) gs
      else case tryDispatchGroup env now members srv g of
          None \<Rightarrow> None
        | Some srv1 \<Rightarrow> gang_phase env now members srv1 gs)"

subsection \<open>Single jobs\<close>

fun select_node :: "('ast, 'prg) celEnv \<Rightarrow> Time \<Rightarrow> Node list \<Rightarrow> 'prg schedulerServer \<Rightarrow> Job \<Rightarrow>
    string \<times> 'prg schedulerServer" where
  "select_node env now [] srv job = ([], srv)"
| "select_node env now (member # ms) srv job =
     (let (ok, srv1) = try_member env now srv member job
      in if ok then (Name member, srv1) else select_node env now ms srv1 job)"

definition backfill_match :: "('ast, 'prg) celEnv \<Rightarrow> gpuTracker \<Rightarrow> Node \<Rightarrow> Job \<Rightarrow> 'prg Evaluator \<Rightarrow> bool \<times> 'prg Evaluator" where
  "backfill_match env gt member j e =
     (if GroupID j \<noteq> [] then (False, e)
      else if \<not> canDispatchResources gt member j then (False, e)
      else let (r, e') = Match env e (Requirement j) (Meta member) in (matches r, e'))"

fun backfill_phase :: "('ast, 'prg) celEnv \<Rightarrow> Time \<Rightarrow> Node list \<Rightarrow> Node list \<Rightarrow> 'prg schedulerServer \<Rightarrow>
    'prg schedulerServer" where
  "backfill_phase env now members [] srv = srv"
| "backfill_phase env now members (member # ms) srv =
     (if Meta member = [] then backfill_phase env now members ms srv
      else let (blocked, cb) = IsBlocked now (srv_cb srv) (Name member);
               srv1 = srv\<lparr>srv_cb := cb\<rparr>
           in if blocked then backfill_phase env now members ms srv1
              else let (r, q, e) = Backfill (backfill_match env (srv_tracker srv1) member) (srv_queue srv1) (srv_eval srv1);
                       srv2 = srv1\<lparr>srv_queue := q, srv_eval := e\<rparr>
                   in case r of
                        None \<Rightarrow> backfill_phase env now members ms srv2
                      | Some job \<Rightarrow>
                          dispatchJob now members
                            (srv_log now (ID job) ''INFO'' (''Backfilled onto '' @ Name member) srv2) job (Name member))"

definition single_phases :: "('ast, 'prg) celEnv \<Rightarrow> Time \<Rightarrow> Node list \<Rightarrow> 'prg schedulerServer \<Rightarrow> 'prg schedulerServer" where
  "single_phases env now members srv =
     (case Peek (srv_queue srv) of
        None \<Rightarrow> srv
      | Some topJob \<Rightarrow>
          if GroupID topJob \<noteq> [] then srv
          else let (selectedNode, srv1) = select_node env now members srv topJob
               in if selectedNode \<noteq> []
                  then (case Dequeue (srv_queue srv1) of
                          (None, q) \<Rightarrow> srv1\<lparr>srv_queue := q\<rparr>
                        | (Some job, q) \<Rightarrow> dispatchJob now members (srv1\<lparr>srv_queue := q\<rparr>) job selectedNode)
                  else backfill_phase env now members members srv1)"

text \<open>One tick; \<open>order\<close> is the order in which the table of groups is visited.\<close>

definition dispatch_tick :: "('ast, 'prg) celEnv \<Rightarrow> Time \<Rightarrow> Node list \<Rightarrow> string list \<Rightarrow> 'prg schedulerServer \<Rightarrow>
    'prg schedulerServer option" where
  "dispatch_tick env now members order srv =
     (case gang_phase env now members srv (PendingGroups order (srv_queue srv)) of
        None \<Rightarrow> None
      | Some srv1 \<Rightarrow> Some (single_phases env now members srv1))"

end
