(* ===== verification/Master_Placement.thy ===== *)
theory Master_Placement
  imports Master_Dispatch
begin

text \<open>
  Properties of dispatching: what placing a job on a member guarantees, that no tick
  oversubscribes a member, and that gangs are dispatched as a whole or not at all.
\<close>

subsection \<open>Placement only touches the breaker and the expression cache\<close>

definition core_eq :: "'prg schedulerServer \<Rightarrow> 'prg schedulerServer \<Rightarrow> bool" where
  "core_eq srv srv' \<longleftrightarrow> srv' = srv\<lparr>srv_cb := srv_cb srv', srv_eval := srv_eval srv'\<rparr>"

lemma core_eq_refl [simp]: "core_eq srv srv"
  by (simp add: core_eq_def)

lemma core_eq_trans: "core_eq a b \<Longrightarrow> core_eq b c \<Longrightarrow> core_eq a c"
  by (cases a; cases b; cases c; simp add: core_eq_def)

lemma core_eq_sel:
  assumes "core_eq srv srv'"
  shows "srv_queue srv' = srv_queue srv" "srv_sent srv' = srv_sent srv" "srv_tracker srv' = srv_tracker srv"
    "srv_pending srv' = srv_pending srv" "srv_timers srv' = srv_timers srv" "srv_logs srv' = srv_logs srv"
    "srv_store srv' = srv_store srv" "srv_fairshare srv' = srv_fairshare srv" "srv_cfg srv' = srv_cfg srv"
    "srv_draining srv' = srv_draining srv"
  using assms by (cases srv; cases srv'; simp add: core_eq_def)+

text \<open>At one instant, queries of the breaker do not change later answers.\<close>

definition cb_equiv :: "Time \<Rightarrow> circuitBreaker \<Rightarrow> circuitBreaker \<Rightarrow> bool" where
  "cb_equiv now cb cb' \<longleftrightarrow> (\<forall>n. fst (IsBlocked now cb' n) = fst (IsBlocked now cb n))"

lemma cb_equiv_refl [simp]: "cb_equiv now cb cb"
  by (simp add: cb_equiv_def)

lemma cb_equiv_query: "cb_equiv now cb cb' \<Longrightarrow> IsBlocked now cb' n = (b, cb'') \<Longrightarrow>
    b = fst (IsBlocked now cb n) \<and> cb_equiv now cb cb''"
  using IsBlocked_stable [of now cb' n] unfolding cb_equiv_def by (metis fst_conv snd_conv)

text \<open>The environment of a tick: coherent cache, breaker answers as at the start.\<close>

definition settled :: "('ast, 'prg) celEnv \<Rightarrow> Time \<Rightarrow> circuitBreaker \<Rightarrow> 'prg schedulerServer \<Rightarrow> bool" where
  "settled env now cb0 srv \<longleftrightarrow> cache_ok env (srv_eval srv) \<and> cb_equiv now cb0 (srv_cb srv)"

text \<open>What placing job \<open>j\<close> on \<open>member\<close> means, apart from the resources.\<close>

definition suits :: "('ast, 'prg) celEnv \<Rightarrow> Time \<Rightarrow> circuitBreaker \<Rightarrow> Node \<Rightarrow> Job \<Rightarrow> bool" where
  "suits env now cb0 member j \<longleftrightarrow> Meta member \<noteq> [] \<and> \<not> fst (IsBlocked now cb0 (Name member)) \<and>
     matches (match_spec env (Requirement j) (Meta member))"

lemma try_member_spec:
  assumes "try_member env now srv member job = (ok, srv')" "settled env now cb0 srv"
  shows "core_eq srv srv'" "settled env now cb0 srv'"
    "ok \<Longrightarrow> suits env now cb0 member job \<and> canDispatchResources (srv_tracker srv) member job"
proof -
  obtain b cb where q: "IsBlocked now (srv_cb srv) (Name member) = (b, cb)" by fastforce
  have c: "b = fst (IsBlocked now cb0 (Name member))" "cb_equiv now cb0 cb"
    using cb_equiv_query [OF _ q] assms(2) by (auto simp: settled_def)
  have d: "cb_equiv now cb0 (srv_cb srv)" using assms(2) by (simp add: settled_def)
  have e: "cache_ok env (srv_eval srv)" using assms(2) by (simp add: settled_def)
  have "core_eq srv srv' \<and> settled env now cb0 srv' \<and>
    (ok \<longrightarrow> suits env now cb0 member job \<and> canDispatchResources (srv_tracker srv) member job)"
  proof (cases "Meta member = [] \<or> b \<or> \<not> canDispatchResources (srv_tracker srv) member job")
    case True
    then show ?thesis using assms(1) c(2) d e q
      by (auto simp: try_member_def Let_def core_eq_def settled_def split: if_splits)
  next
    case False
    then show ?thesis
      using assms(1) c q Match_spec [OF e, of "Requirement job" "Meta member"]
      by (auto simp: try_member_def Let_def core_eq_def settled_def suits_def split: prod.splits)
  qed
  then show "core_eq srv srv'" "settled env now cb0 srv'"
    "ok \<Longrightarrow> suits env now cb0 member job \<and> canDispatchResources (srv_tracker srv) member job" by auto
qed

lemma match_rank_spec:
  assumes "match_rank env now used ms srv job = (r, srv')" "settled env now cb0 srv"
  shows "core_eq srv srv' \<and> settled env now cb0 srv' \<and>
    (\<forall>m. r = Some m \<longrightarrow> m \<in> set ms \<and> Name m \<notin> set used \<and> suits env now cb0 m job \<and>
       canDispatchResources (srv_tracker srv) m job)"
  using assms
proof (induction ms arbitrary: srv)
  case (Cons m ms)
  show ?case
  proof (cases "Name m \<in> set used")
    case True
    then show ?thesis using Cons by auto
  next
    case False
    obtain ok s1 where t: "try_member env now srv m job = (ok, s1)" by fastforce
    note s = try_member_spec [OF t Cons.prems(2)]
    show ?thesis
    proof (cases ok)
      case True
      then show ?thesis using Cons.prems(1) False t s by auto
    next
      case no: False
      then have "match_rank env now used ms s1 job = (r, srv')" using Cons.prems(1) False t by simp
      from Cons.IH [OF this s(2)] show ?thesis
        using s(1) core_eq_trans core_eq_sel(3) [OF s(1)] by auto
    qed
  qed
qed simp

lemma match_group_spec:
  assumes "match_group env now members used acc srv js = (r, srv')" "settled env now cb0 srv"
  shows "core_eq srv srv' \<and> settled env now cb0 srv' \<and>
    (\<forall>ms. r = Some ms \<longrightarrow> (\<exists>new. ms = acc @ new \<and> length new = length js \<and> set new \<subseteq> set members \<and>
       distinct (map Name new) \<and> set (map Name new) \<inter> set used = {} \<and>
       (\<forall>(j, m)\<in>set (zip js new). suits env now cb0 m j \<and> canDispatchResources (srv_tracker srv) m j)))"
  using assms
proof (induction js arbitrary: srv used acc)
  case (Cons j js)
  obtain r1 s1 where m: "match_rank env now used members srv j = (r1, s1)" by fastforce
  note s = match_rank_spec [OF m Cons.prems(2)]
  show ?case
  proof (cases r1)
    case None
    then show ?thesis using Cons.prems(1) m s by auto
  next
    case (Some mm)
    then have g: "match_group env now members (Name mm # used) (acc @ [mm]) s1 js = (r, srv')"
      using Cons.prems(1) m by simp
    have s1: "settled env now cb0 s1" "core_eq srv s1" using s by auto
    note ih = Cons.IH [OF g s1(1)]
    have "\<exists>new. ms = acc @ new \<and> length new = length (j # js) \<and> set new \<subseteq> set members \<and>
       distinct (map Name new) \<and> set (map Name new) \<inter> set used = {} \<and>
       (\<forall>(j, m)\<in>set (zip (j # js) new). suits env now cb0 m j \<and> canDispatchResources (srv_tracker srv) m j)"
      if ms: "r = Some ms" for ms
    proof -
      obtain new where "ms = (acc @ [mm]) @ new" "length new = length js" "set new \<subseteq> set members"
        "distinct (map Name new)" "set (map Name new) \<inter> set (Name mm # used) = {}"
        "\<forall>(j, m)\<in>set (zip js new). suits env now cb0 m j \<and> canDispatchResources (srv_tracker s1) m j"
        using ih [THEN conjunct2, THEN conjunct2, rule_format, OF ms] by (elim exE conjE)
      then show ?thesis
        using s Some core_eq_sel(3) [OF s1(2)] by (intro exI [of _ "mm # new"]) auto
    qed
    then show ?thesis using ih core_eq_trans s1(2) by blast
  qed
qed auto

lemma select_node_spec:
  assumes "select_node env now ms srv job = (n, srv')" "settled env now cb0 srv"
  shows "core_eq srv srv' \<and> settled env now cb0 srv' \<and>
    (n \<noteq> [] \<longrightarrow> (\<exists>m\<in>set ms. Name m = n \<and> suits env now cb0 m job \<and> canDispatchResources (srv_tracker srv) m job))"
  using assms
proof (induction ms arbitrary: srv)
  case (Cons m ms)
  obtain ok s1 where t: "try_member env now srv m job = (ok, s1)" by fastforce
  note s = try_member_spec [OF t Cons.prems(2)]
  show ?case
  proof (cases ok)
    case True
    then show ?thesis using Cons.prems(1) t s by auto
  next
    case False
    then have "select_node env now ms s1 job = (n, srv')" using Cons.prems(1) t by simp
    from Cons.IH [OF this s(2)] show ?thesis
      using s(1) core_eq_trans core_eq_sel(3) [OF s(1)] by auto
  qed
qed simp

subsection \<open>Capacities\<close>

definition cap_gpus :: "Node \<Rightarrow> int" where
  "cap_gpus m = f64_to_int (as_float (member_ad m) ''gpu_count'')"

definition cap_cpus :: "Node \<Rightarrow> int" where
  "cap_cpus m = f64_to_int (as_float (member_ad m) ''cpu_cores'')"

definition cap_mem :: "Node \<Rightarrow> int" where
  "cap_mem m = f64_to_int (as_float (member_ad m) ''total_memory_mb'')"

definition capped :: "gpuTracker \<Rightarrow> Node \<Rightarrow> bool" where
  "capped gt m \<longleftrightarrow>
     0 \<le> used_gpus gt (Name m) \<and> used_gpus gt (Name m) \<le> max 0 (cap_gpus m) \<and>
     0 \<le> used_cpus gt (Name m) \<and> used_cpus gt (Name m) \<le> max 0 (cap_cpus m) \<and>
     0 \<le> used_mem gt (Name m) \<and> used_mem gt (Name m) \<le> max 0 (cap_mem m)"

definition demand_ok :: "Job \<Rightarrow> bool" where
  "demand_ok j \<longleftrightarrow> 0 \<le> GPUsRequired j \<and> 0 \<le> CPUsRequired j \<and> 0 \<le> MemoryRequiredMB j"

lemma f64_to_int_i64: "in_i64 (f64_to_int x)"
  by (simp add: f64_to_int_def in_i64_def Let_def)

text \<open>One resource: when the test passes, the demand fits in what is left.\<close>

lemma fits:
  assumes used: "0 \<le> used" "used \<le> max 0 cap" and req: "0 \<le> req" and cap: "in_i64 cap"
    and test: "0 < req \<longrightarrow> \<not> (cap < req \<or> i64 (cap - used) < req)"
  shows "0 \<le> i64 (used + req) \<and> i64 (used + req) \<le> max 0 cap"
proof -
  have sum: "used + req \<le> max 0 cap"
  proof (cases "0 < req")
    case True
    then have t: "req \<le> cap" "req \<le> i64 (cap - used)" using test by auto
    have u: "used \<le> cap" using used(2) t(1) True by linarith
    have "in_i64 (cap - used)" by (rule in_i64_between [of 0 cap]) (use cap used(1) u in auto)
    then have "req \<le> cap - used" using t(2) by (simp only: i64_id)
    then show ?thesis by linarith
  next
    case False
    then show ?thesis using used(2) req by linarith
  qed
  have m: "in_i64 (max 0 cap)" using cap by (simp add: max_def)
  have "in_i64 (used + req)"
    by (rule in_i64_between [OF in_i64_small(1) m _ sum]) (use used(1) req in linarith)
  then have "i64 (used + req) = used + req" by (rule i64_id)
  then show ?thesis using used(1) req sum by linarith
qed

lemma used_allocate:
  "used_gpus (Allocate gt n a b c) k = (if k = n then i64 (used_gpus gt n + a) else used_gpus gt k)"
  "used_cpus (Allocate gt n a b c) k = (if k = n then i64 (used_cpus gt n + b) else used_cpus gt k)"
  "used_mem (Allocate gt n a b c) k = (if k = n then i64 (used_mem gt n + c) else used_mem gt k)"
  by (simp_all add: Allocate_def used_defs)

lemma canDispatch_fits:
  assumes "canDispatchResources gt m j"
  shows "0 < GPUsRequired j \<longrightarrow> \<not> (cap_gpus m < GPUsRequired j \<or> i64 (cap_gpus m - used_gpus gt (Name m)) < GPUsRequired j)"
    "0 < CPUsRequired j \<longrightarrow> \<not> (cap_cpus m < CPUsRequired j \<or> i64 (cap_cpus m - used_cpus gt (Name m)) < CPUsRequired j)"
    "0 < MemoryRequiredMB j \<longrightarrow> \<not> (cap_mem m < MemoryRequiredMB j \<or> i64 (cap_mem m - used_mem gt (Name m)) < MemoryRequiredMB j)"
  using assms by (auto simp: canDispatchResources_def Let_def cap_gpus_def cap_cpus_def cap_mem_def used_defs
      AvailableGPUs_def AvailableCPUs_def AvailableMemory_def split: if_splits)

lemma caps_i64: "in_i64 (cap_gpus m)" "in_i64 (cap_cpus m)" "in_i64 (cap_mem m)"
  by (simp_all only: cap_gpus_def cap_cpus_def cap_mem_def f64_to_int_i64)

lemma capped_allocate:
  assumes "capped gt m" "demand_ok j" "canDispatchResources gt m j"
  shows "capped (Allocate gt (Name m) (GPUsRequired j) (CPUsRequired j) (MemoryRequiredMB j)) m"
proof -
  have c: "0 \<le> used_gpus gt (Name m)" "used_gpus gt (Name m) \<le> max 0 (cap_gpus m)"
    "0 \<le> used_cpus gt (Name m)" "used_cpus gt (Name m) \<le> max 0 (cap_cpus m)"
    "0 \<le> used_mem gt (Name m)" "used_mem gt (Name m) \<le> max 0 (cap_mem m)"
    using assms(1) unfolding capped_def by blast+
  have d: "0 \<le> GPUsRequired j" "0 \<le> CPUsRequired j" "0 \<le> MemoryRequiredMB j"
    using assms(2) unfolding demand_ok_def by blast+
  note can = canDispatch_fits [OF assms(3)]
  show ?thesis
    unfolding capped_def used_allocate if_P [OF refl]
    using fits [OF c(1,2) d(1) caps_i64(1) can(1)] fits [OF c(3,4) d(2) caps_i64(2) can(2)]
      fits [OF c(5,6) d(3) caps_i64(3) can(3)]
    by blast
qed

lemma capped_allocate_other:
  "n \<noteq> Name m \<Longrightarrow> capped (Allocate gt n a b c) m = capped gt m"
  by (simp add: capped_def Allocate_def used_defs)

lemma canDispatch_frame:
  "n \<noteq> Name m \<Longrightarrow> canDispatchResources (Allocate gt n a b c) m j = canDispatchResources gt m j"
  by (simp add: canDispatchResources_def Let_def Allocate_def AvailableGPUs_def AvailableCPUs_def AvailableMemory_def)

lemma canDispatch_cong:
  "GPUsRequired j = GPUsRequired k \<Longrightarrow> CPUsRequired j = CPUsRequired k \<Longrightarrow> MemoryRequiredMB j = MemoryRequiredMB k \<Longrightarrow>
     canDispatchResources gt m j = canDispatchResources gt m k"
  by (simp add: canDispatchResources_def)

text \<open>All members: names are unique in a cluster.\<close>

definition all_capped :: "gpuTracker \<Rightarrow> Node list \<Rightarrow> bool" where
  "all_capped gt members \<longleftrightarrow> (\<forall>m\<in>set members. capped gt m)"

lemma all_capped_allocate:
  assumes "all_capped gt members" "distinct (map Name members)" "m \<in> set members" "demand_ok j"
    "canDispatchResources gt m j"
  shows "all_capped (Allocate gt (Name m) (GPUsRequired j) (CPUsRequired j) (MemoryRequiredMB j)) members"
  unfolding all_capped_def
proof
  fix k assume k: "k \<in> set members"
  show "capped (Allocate gt (Name m) (GPUsRequired j) (CPUsRequired j) (MemoryRequiredMB j)) k"
  proof (cases "k = m")
    case True
    then show ?thesis using assms capped_allocate by (auto simp: all_capped_def)
  next
    case False
    then have "Name m \<noteq> Name k" using assms(2,3) k by (auto simp: distinct_map dest: inj_onD)
    then show ?thesis using assms(1) k by (simp add: capped_allocate_other all_capped_def)
  qed
qed

end
