(* ===== verification/Master_Tick.thy ===== *)
theory Master_Tick
  imports Master_Placement
begin

text \<open>
  One tick of the dispatch loop: the invariant it keeps step by step, and the theorems
  about placement, capacity, gangs and panics that follow.
\<close>

subsection \<open>What never changes in a job\<close>

definition static :: "Job \<Rightarrow> Job" where
  "static j = j\<lparr>State := [], WorkerNode := [], StartTime := zero_time, EndTime := zero_time,
     Output := [], Error := [], RetryCount := 0, index := 0\<rparr>"

lemma static_sel:
  assumes "static j = static k"
  shows "Requirement j = Requirement k" "GPUsRequired j = GPUsRequired k" "CPUsRequired j = CPUsRequired k"
    "MemoryRequiredMB j = MemoryRequiredMB k" "GroupID j = GroupID k" "EnvVars j = EnvVars k" "ID j = ID k"
    "MaxRetries j = MaxRetries k" "WalltimeSeconds j = WalltimeSeconds k" "Command j = Command k"
  using assms by (cases j; cases k; simp add: static_def)+

lemma static_noidx [simp]: "static (noidx j) = static j"
  by (simp add: static_def noidx_def)

lemma static_steps [simp]:
  "static (j\<lparr>State := a\<rparr>) = static j" "static (j\<lparr>WorkerNode := n\<rparr>) = static j"
  "static (j\<lparr>StartTime := t\<rparr>) = static j" "static (cancelled now j) = static j"
  "static (requeued inc j) = static j" "static (finished now ok out err j) = static j"
  by (simp_all add: static_def cancelled_def requeued_def finished_def)

definition same_static :: "(string \<rightharpoonup> Job) \<Rightarrow> (string \<rightharpoonup> Job) \<Rightarrow> bool" where
  "same_static T T' \<longleftrightarrow> (\<forall>jid. map_option static (T' jid) = map_option static (T jid))"

lemma same_static_refl [simp]: "same_static T T"
  by (simp add: same_static_def)

lemma same_static_trans: "same_static T U \<Longrightarrow> same_static U V \<Longrightarrow> same_static T V"
  by (simp add: same_static_def)

lemma same_staticD: "same_static T T' \<Longrightarrow> T' jid = Some j' \<Longrightarrow> \<exists>j. T jid = Some j \<and> static j = static j'"
  by (simp add: same_static_def) (metis map_option_eq_Some)

lemma spec_step_static:
  assumes "spec_step n op s t" "\<And>j. op \<noteq> OpEnqueue j"
  shows "same_static (fst s) (fst t)"
  using assms by (cases rule: spec_step.cases) (auto simp: same_static_def)

lemma exec_static:
  assumes "gs_inv gs" "allowed gs op" "\<And>j. op \<noteq> OpEnqueue j"
  shows "same_static (table gs) (table (exec op gs))"
  using spec_step_static [OF exec_refines_spec [OF assms(1,2)] assms(3)] by (simp add: abs_of_def)

subsection \<open>The invariant of a tick\<close>

definition placed_well :: "('ast, 'prg) celEnv \<Rightarrow> Time \<Rightarrow> Node list \<Rightarrow> circuitBreaker \<Rightarrow> (string \<rightharpoonup> Job) \<Rightarrow> DispatchPayload \<Rightarrow> bool" where
  "placed_well env now members cb0 T0 p \<longleftrightarrow>
     Action p = ''execute'' \<and>
     (\<exists>m j. m \<in> set members \<and> TargetNode p = Name m \<and> T0 (JobID p) = Some j \<and> suits env now cb0 m j)"

definition tick_ok :: "bool \<Rightarrow> ('ast, 'prg) celEnv \<Rightarrow> Time \<Rightarrow> Node list \<Rightarrow> circuitBreaker \<Rightarrow> GlobalScheduler \<Rightarrow>
    DispatchPayload list \<Rightarrow> 'prg schedulerServer \<Rightarrow> bool" where
  "tick_ok c env now members cb0 gs0 sent0 srv \<longleftrightarrow>
     gs_inv (srv_queue srv) \<and> qsteps False gs0 (srv_queue srv) \<and> settled env now cb0 srv \<and>
     (c \<longrightarrow> all_capped (srv_tracker srv) members) \<and> same_static (table gs0) (table (srv_queue srv)) \<and>
     (\<exists>new. srv_sent srv = sent0 @ new \<and> (\<forall>p\<in>set new. placed_well env now members cb0 (table gs0) p))"

lemma tick_ok_core:
  "tick_ok c env now members cb0 gs0 sent0 srv \<Longrightarrow> core_eq srv srv' \<Longrightarrow> settled env now cb0 srv' \<Longrightarrow>
     tick_ok c env now members cb0 gs0 sent0 srv'"
  by (simp add: tick_ok_def core_eq_sel)

lemma settled_log [simp]: "settled env now cb0 (srv_log t j l m srv) = settled env now cb0 srv"
  by (simp add: settled_def)

lemma settled_queue [simp]: "settled env now cb0 (srv\<lparr>srv_queue := q\<rparr>) = settled env now cb0 srv"
  by (simp add: settled_def)

lemma tick_ok_log [simp]:
  "tick_ok c env now members cb0 gs0 sent0 (srv_log t j l m srv) = tick_ok c env now members cb0 gs0 sent0 srv"
  by (simp add: tick_ok_def)

text \<open>A scheduler operation other than the entry of a new job.\<close>

lemma tick_ok_exec:
  assumes ok: "tick_ok c env now members cb0 gs0 sent0 srv" and op: "allowed (srv_queue srv) op" "\<And>j. op \<noteq> OpEnqueue j"
  shows "tick_ok c env now members cb0 gs0 sent0 (srv\<lparr>srv_queue := exec op (srv_queue srv)\<rparr>)"
proof -
  have "gs_inv (srv_queue srv)" using ok by (simp add: tick_ok_def)
  then show ?thesis
    using ok exec_inv [OF _ op(1)] exec_static [OF _ op] same_static_trans qsteps.more [OF _ op(1)] op(2)
    by (auto simp: tick_ok_def)
qed

lemma dispatchJob_sel [simp]:
  "srv_queue (dispatchJob now members srv job n) = MarkRunning now (srv_queue srv) (ID job) n"
  "srv_tracker (dispatchJob now members srv job n) =
     Allocate (srv_tracker srv) n (GPUsRequired job) (CPUsRequired job) (MemoryRequiredMB job)"
  "srv_cb (dispatchJob now members srv job n) = srv_cb srv" "srv_eval (dispatchJob now members srv job n) = srv_eval srv"
  "srv_pending (dispatchJob now members srv job n) = (srv_pending srv)(ID job \<mapsto> now)"
  "srv_timers (dispatchJob now members srv job n) = srv_timers srv"
  "srv_store (dispatchJob now members srv job n) = srv_store srv"
  by (simp_all add: dispatchJob_def Let_def)

lemma dispatchJob_sent:
  "\<exists>e. srv_sent (dispatchJob now members srv job n) = srv_sent srv @
     [\<lparr>TargetNode = n, JobID = ID job, pCommand = Command job, pWalltimeSeconds = WalltimeSeconds job,
       Action = ''execute'', pEnvVars = Some e\<rparr>]"
  by (simp add: dispatchJob_def Let_def)

lemma tick_ok_dispatch:
  assumes ok: "tick_ok c env now members cb0 gs0 sent0 srv" and names: "c \<longrightarrow> distinct (map Name members)"
    and m: "m \<in> set members" "suits env now cb0 m job" "canDispatchResources (srv_tracker srv) m job"
    and job: "table gs0 (ID job) = Some j0" "Requirement j0 = Requirement job" "c \<longrightarrow> demand_ok job"
    and w: "ID job \<notin># waiting (srv_queue srv)"
  shows "tick_ok c env now members cb0 gs0 sent0 (dispatchJob now members srv job (Name m))"
proof -
  have q: "tick_ok c env now members cb0 gs0 sent0
      (srv\<lparr>srv_queue := exec (OpRunning now (ID job) (Name m)) (srv_queue srv)\<rparr>)"
    by (rule tick_ok_exec [OF ok]) (use w in simp_all)
  have cap: "c \<longrightarrow> all_capped (Allocate (srv_tracker srv) (Name m) (GPUsRequired job) (CPUsRequired job) (MemoryRequiredMB job)) members"
    using all_capped_allocate ok names m job by (auto simp: tick_ok_def)
  obtain e where s: "srv_sent (dispatchJob now members srv job (Name m)) = srv_sent srv @
     [\<lparr>TargetNode = Name m, JobID = ID job, pCommand = Command job, pWalltimeSeconds = WalltimeSeconds job,
       Action = ''execute'', pEnvVars = Some e\<rparr>]" (is "_ = _ @ [?p]")
    using dispatchJob_sent by blast
  have "placed_well env now members cb0 (table gs0) ?p"
    using m(1,2) job(1,2) by (auto simp: placed_well_def suits_def)
  then show ?thesis
    using q cap s ok by (auto simp: tick_ok_def settled_def)
qed

subsection \<open>Single jobs\<close>

text \<open>The capacity part, under the flag \<open>c\<close>, is what needs demands that are not negative.\<close>

definition demands :: "bool \<Rightarrow> (string \<rightharpoonup> Job) \<Rightarrow> bool" where
  "demands c T \<longleftrightarrow> (c \<longrightarrow> (\<forall>jid j. T jid = Some j \<longrightarrow> demand_ok j))"

lemma demandsD: "demands c T \<Longrightarrow> T jid = Some j \<Longrightarrow> c \<longrightarrow> demand_ok j"
  by (simp add: demands_def)

lemma demand_static: "static j = static k \<Longrightarrow> demand_ok j = demand_ok k"
  unfolding demand_ok_def by (metis static_sel(2,3,4))

lemma noidx_static: "noidx j = noidx k \<Longrightarrow> static j = static k"
  by (metis static_noidx)

lemma suits_static: "static j = static k \<Longrightarrow> suits env now cb0 m j = suits env now cb0 m k"
  unfolding suits_def by (metis static_sel(1))

lemma canDispatch_static: "static j = static k \<Longrightarrow> canDispatchResources gt m j = canDispatchResources gt m k"
  by (rule canDispatch_cong) (blast dest: static_sel)+

text \<open>Dispatching a job just taken out of the queue.\<close>

lemma tick_ok_taken:
  assumes ok: "tick_ok c env now members cb0 gs0 sent0 srv" and names: "c \<longrightarrow> distinct (map Name members)"
    and demand: "demands c (table gs0)"
    and m: "m \<in> set members" "suits env now cb0 m job" "canDispatchResources (srv_tracker srv) m job"
    and t: "table (srv_queue srv) (ID job) = Some (noidx job)" and w: "ID job \<notin># waiting (srv_queue srv)"
  shows "tick_ok c env now members cb0 gs0 sent0 (dispatchJob now members srv job (Name m))"
proof -
  have "same_static (table gs0) (table (srv_queue srv))" using ok by (simp add: tick_ok_def)
  then obtain j0 where j0: "table gs0 (ID job) = Some j0" "static j0 = static job"
    using same_staticD [of "table gs0" "table (srv_queue srv)", OF _ t] by auto
  show ?thesis
    by (rule tick_ok_dispatch [OF ok names m j0(1) _ _ w])
      (use static_sel(1) [OF j0(2)] demandsD [OF demand j0(1)] demand_static [OF j0(2)] in auto)
qed

lemma not_waiting_after:
  assumes "gs_inv g" "waiting g = add_mset jid (waiting g')"
  shows "jid \<notin># waiting g'"
proof -
  have "Suc (count (waiting g') jid) \<le> 1" using count_waiting [OF assms(1), of jid] assms(2) by simp
  then show ?thesis by (simp add: count_eq_zero_iff)
qed

text \<open>A stateful callback acts on the queue like the test for the job it accepts.\<close>

lemma Backfill_as_exec:
  assumes inv: "gs_inv gs" and b: "Backfill m gs e = (Some j, gs', e')"
  shows "\<exists>P. gs' = exec (OpBackfill P) gs"
proof -
  have eq: "backfill_loop mm gs 0 (queue gs) ee =
     (case match_run mm (map (mem gs) (queue gs)) ee of
        (None, e') \<Rightarrow> (None, gs, e')
      | (Some k, e') \<Rightarrow> let g = fst (heap_Remove JobQueue_heap gs k) in (Some (mem g (queue gs ! k)), g, e'))"
    for mm :: "Job \<Rightarrow> 'b \<Rightarrow> bool \<times> 'b" and ee
    using backfill_loop_eq [of mm gs 0 "queue gs" ee] by (simp only: add_0)
  obtain i where i: "i < length (queue gs)" "fst (match_run m (map (mem gs) (queue gs)) e) = Some i"
    using Backfill_spec(3) [OF inv b refl] by blast
  have g': "gs' = fst (heap_Remove JobQueue_heap gs i)"
    using b i(2) eq [of m e] by (auto simp: Backfill_def Let_def split: prod.splits)
  let ?P = "\<lambda>j. ID j = ID (mem gs (queue gs ! i))"
  have "find_index (\<lambda>j. ?P (noidx j)) (map (mem gs) (queue gs)) = Some i"
  proof (cases "find_index (\<lambda>j. ?P (noidx j)) (map (mem gs) (queue gs))")
    case None
    then show ?thesis using i(1) by (auto simp: find_index_None)
  next
    case (Some k)
    then have k: "k < length (queue gs)" "ID (mem gs (queue gs ! k)) = ID (mem gs (queue gs ! i))"
      using find_index_Some [OF Some] by auto
    then have "queue gs ! k = queue gs ! i"
      using gs_invD(8) [OF inv] i(1) by (metis nth_mem option.inject)
    then have "k = i" using gs_invD(3) [OF inv] k(1) i(1) by (simp add: nth_eq_iff_index_eq)
    then show ?thesis using Some by simp
  qed
  then have "fst (match_run (\<lambda>j e. (?P (noidx j), e)) (map (mem gs) (queue gs)) ()) = Some i"
    by (simp only: match_run_pure)
  then have "exec (OpBackfill ?P) gs = gs'"
    using eq [of "\<lambda>j e. (?P (noidx j), e)" "()"] g'
    by (auto simp: Backfill_def Let_def split: prod.splits)
  then show ?thesis by blast
qed

lemma match_run_accept:
  assumes "fst (match_run m js e) = Some i" "P e" "\<And>j e. P e \<Longrightarrow> P (snd (m j e))"
  shows "\<exists>ek. P ek \<and> fst (m (js ! i) ek)"
  using assms(1,2)
proof (induction js arbitrary: e i)
  case (Cons j js)
  show ?case
  proof (cases "fst (m j e)")
    case True
    then have "i = 0" using Cons.prems(1) by (auto simp: Let_def split: prod.splits)
    then show ?thesis using True Cons.prems(2) by auto
  next
    case False
    then obtain k where "i = Suc k" "fst (match_run m js (snd (m j e))) = Some k"
      using Cons.prems(1) by (auto simp: Let_def split: prod.splits)
    then show ?thesis using Cons.IH [of "snd (m j e)" k] assms(3) [OF Cons.prems(2)] by auto
  qed
qed simp

lemma match_run_state: "P e \<Longrightarrow> (\<And>j e. P e \<Longrightarrow> P (snd (m j e))) \<Longrightarrow> P (snd (match_run m js e))"
proof (induction js arbitrary: e)
  case (Cons j js)
  have "P (snd (match_run m js (snd (m j e))))" by (rule Cons.IH) (use Cons.prems in auto)
  then show ?case using Cons.prems(2) [OF Cons.prems(1), of j] by (auto simp: Let_def split: prod.splits)
qed simp

lemma backfill_match_spec:
  assumes "cache_ok env e"
  shows "cache_ok env (snd (backfill_match env gt m j e))"
    and "fst (backfill_match env gt m j e) \<longleftrightarrow>
      GroupID j = [] \<and> canDispatchResources gt m j \<and> matches (match_spec env (Requirement j) (Meta m))"
  using Match_spec [OF assms, of "Requirement j" "Meta m"] assms
  by (auto simp: backfill_match_def Let_def split: prod.splits)

text \<open>What \<open>Backfill\<close> hands out for a member.\<close>

lemma backfill_taken:
  assumes inv: "gs_inv gs" and c: "cache_ok env e"
    and b: "Backfill (backfill_match env gt m) gs e = (r, gs', e')"
  shows "cache_ok env e'"
    and "r = None \<Longrightarrow> gs' = gs"
    and "r = Some j \<Longrightarrow> GroupID j = [] \<and> canDispatchResources gt m j \<and>
       matches (match_spec env (Requirement j) (Meta m)) \<and> table gs (ID j) = Some (noidx j) \<and>
       table gs' = table gs \<and> ID j \<in># waiting gs \<and> ID j \<notin># waiting gs' \<and> (\<exists>P. gs' = exec (OpBackfill P) gs)"
proof -
  note bs = Backfill_spec [OF inv b]
  show "cache_ok env e'"
    unfolding bs(1) by (rule match_run_state [of "cache_ok env"]) (use c backfill_match_spec(1) in auto)
  show "r = None \<Longrightarrow> gs' = gs" using bs(2) by blast
  assume r: "r = Some j"
  obtain i where i: "i < length (queue gs)"
    "fst (match_run (backfill_match env gt m) (map (mem gs) (queue gs)) e) = Some i"
    "noidx j = noidx (mem gs (queue gs ! i))" "same_jobs gs gs'" "table gs (ID j) = Some (noidx j)"
    "waiting gs = add_mset (ID j) (waiting gs')"
    using bs(3) [OF r] by blast
  obtain ek where ek: "cache_ok env ek" "fst (backfill_match env gt m (map (mem gs) (queue gs) ! i) ek)"
    using match_run_accept [where P = "cache_ok env", OF i(2) c] backfill_match_spec(1) by blast
  have st: "static j = static (mem gs (queue gs ! i))" using i(3) by (rule noidx_static)
  have "GroupID j = [] \<and> canDispatchResources gt m j \<and> matches (match_spec env (Requirement j) (Meta m))"
    using ek(2) i(1) backfill_match_spec(2) [OF ek(1)] static_sel(1,5) [OF st] canDispatch_static [OF st]
    by (simp add: nth_map)
  then show "GroupID j = [] \<and> canDispatchResources gt m j \<and>
       matches (match_spec env (Requirement j) (Meta m)) \<and> table gs (ID j) = Some (noidx j) \<and>
       table gs' = table gs \<and> ID j \<in># waiting gs \<and> ID j \<notin># waiting gs' \<and> (\<exists>P. gs' = exec (OpBackfill P) gs)"
    using i(5,6) table_same_jobs [OF i(4)] not_waiting_after [OF inv i(6)]
      Backfill_as_exec [OF inv b [unfolded r]] by auto
qed

text \<open>Setting the queue after a removal keeps the invariant.\<close>

lemma tick_ok_set_queue:
  "tick_ok c env now members cb0 gs0 sent0 srv \<Longrightarrow> q = exec op (srv_queue srv) \<Longrightarrow> allowed (srv_queue srv) op \<Longrightarrow>
     (\<And>j. op \<noteq> OpEnqueue j) \<Longrightarrow> tick_ok c env now members cb0 gs0 sent0 (srv\<lparr>srv_queue := q\<rparr>)"
  using tick_ok_exec by blast

lemma tick_ok_place:
  "tick_ok c env now members cb0 gs0 sent0 srv \<Longrightarrow> cb_equiv now cb0 cb \<Longrightarrow> cache_ok env e \<Longrightarrow>
     tick_ok c env now members cb0 gs0 sent0 (srv\<lparr>srv_cb := cb, srv_eval := e\<rparr>)"
  by (simp add: tick_ok_def settled_def)

lemma backfill_phase_ok:
  assumes "tick_ok c env now members cb0 gs0 sent0 srv" "c \<longrightarrow> distinct (map Name members)" "set ms \<subseteq> set members"
    "demands c (table gs0)"
  shows "tick_ok c env now members cb0 gs0 sent0 (backfill_phase env now members ms srv)"
  using assms(1,3)
proof (induction ms arbitrary: srv)
  case (Cons m ms)
  obtain b cb where q: "IsBlocked now (srv_cb srv) (Name m) = (b, cb)" by fastforce
  have cs: "cb_equiv now cb0 (srv_cb srv)" "cache_ok env (srv_eval srv)" "gs_inv (srv_queue srv)"
    using Cons.prems(1) by (auto simp: tick_ok_def settled_def)
  have cb: "b = fst (IsBlocked now cb0 (Name m))" "cb_equiv now cb0 cb" using cb_equiv_query [OF cs(1) q] by auto
  have ok1: "tick_ok c env now members cb0 gs0 sent0 (srv\<lparr>srv_cb := cb\<rparr>)"
    using Cons.prems(1) cb(2) by (simp add: tick_ok_def settled_def)
  show ?case
  proof (cases "Meta m = [] \<or> b")
    case True
    then show ?thesis using Cons ok1 q by auto
  next
    case False
    obtain r q' e where bf: "Backfill (backfill_match env (srv_tracker srv) m) (srv_queue srv) (srv_eval srv) = (r, q', e)"
      by (metis prod_cases3)
    note t = backfill_taken [OF cs(3,2) bf]
    show ?thesis
    proof (cases r)
      case None
      have "srv\<lparr>srv_cb := cb, srv_queue := q', srv_eval := e\<rparr> = srv\<lparr>srv_cb := cb, srv_eval := e\<rparr>"
        using t(2) None by simp
      then show ?thesis
        using Cons.IH [of "srv\<lparr>srv_cb := cb, srv_eval := e\<rparr>"] tick_ok_place [OF Cons.prems(1) cb(2) t(1)]
          Cons.prems(2) False q bf None by simp
    next
      case (Some j)
      note tj = t(3) [OF Some]
      let ?s = "srv_log now (ID j) ''INFO'' (''Backfilled onto '' @ Name m) (srv\<lparr>srv_cb := cb, srv_queue := q', srv_eval := e\<rparr>)"
      obtain P where P: "q' = exec (OpBackfill P) (srv_queue srv)" using tj by blast
      have "tick_ok c env now members cb0 gs0 sent0 (srv\<lparr>srv_cb := cb, srv_eval := e, srv_queue := q'\<rparr>)"
        by (rule tick_ok_set_queue [OF tick_ok_place [OF Cons.prems(1) cb(2) t(1)], of _ "OpBackfill P"]) (use P in auto)
      moreover have "srv\<lparr>srv_cb := cb, srv_eval := e, srv_queue := q'\<rparr> = srv\<lparr>srv_cb := cb, srv_queue := q', srv_eval := e\<rparr>" by simp
      ultimately have ok2: "tick_ok c env now members cb0 gs0 sent0 ?s" by simp
      have "suits env now cb0 m j" using tj False cb(1) by (simp add: suits_def)
      then have "tick_ok c env now members cb0 gs0 sent0 (dispatchJob now members ?s j (Name m))"
        by (intro tick_ok_taken [OF ok2 assms(2,4)]) (use tj Cons.prems(2) in auto)
      then show ?thesis using False q bf Some by simp
    qed
  qed
qed simp

lemma single_phases_ok:
  assumes ok: "tick_ok c env now members cb0 gs0 sent0 srv" and names: "c \<longrightarrow> distinct (map Name members)"
    and demand: "demands c (table gs0)"
  shows "tick_ok c env now members cb0 gs0 sent0 (single_phases env now members srv)"
proof (cases "Peek (srv_queue srv)")
  case None
  then show ?thesis using ok by (simp add: single_phases_def)
next
  case (Some top)
  have inv: "gs_inv (srv_queue srv)" "settled env now cb0 srv" using ok by (auto simp: tick_ok_def)
  obtain n s1 where sel: "select_node env now members srv top = (n, s1)" by fastforce
  note s = select_node_spec [OF sel inv(2)]
  have ok1: "tick_ok c env now members cb0 gs0 sent0 s1" using tick_ok_core [OF ok] s by blast
  have q1: "srv_queue s1 = srv_queue srv" using s core_eq_sel(1) by blast
  consider "GroupID top \<noteq> []" | "GroupID top = []" "n = []" | "GroupID top = []" "n \<noteq> []" by blast
  then show ?thesis
  proof cases
    case 1
    then show ?thesis using ok Some by (simp add: single_phases_def)
  next
    case 2
    then show ?thesis
      using backfill_phase_ok [OF ok1 names subset_refl demand] Some sel by (simp add: single_phases_def)
  next
    case 3
    obtain m where m: "m \<in> set members" "Name m = n" "suits env now cb0 m top" "canDispatchResources (srv_tracker s1) m top"
      using s 3(2) core_eq_sel(3) [of srv s1] by auto
    obtain r q where d: "Dequeue (srv_queue srv) = (r, q)" by fastforce
    have ne: "waiting (srv_queue srv) \<noteq> {#}"
      using Some by (auto simp: Peek_def JobQueue_Len_def waiting_def split: if_splits)
    obtain j where j: "r = Some j" "same_jobs (srv_queue srv) q" "table (srv_queue srv) (ID j) = Some (noidx j)"
      "waiting (srv_queue srv) = add_mset (ID j) (waiting q)" "noidx top = noidx j"
      using Dequeue_spec [OF inv(1) ne d] Some by auto
    have st: "static top = static j" using j(5) by (rule noidx_static)
    let ?s = "s1\<lparr>srv_queue := q\<rparr>"
    have ok2: "tick_ok c env now members cb0 gs0 sent0 ?s"
      by (rule tick_ok_set_queue [OF ok1, of _ OpDequeue]) (use q1 d in auto)
    have "tick_ok c env now members cb0 gs0 sent0 (dispatchJob now members ?s j (Name m))"
      by (rule tick_ok_taken [OF ok2 names demand m(1)])
        (use m(3,4) j table_same_jobs [OF j(2)] not_waiting_after [OF inv(1) j(4)]
          suits_static [OF st] canDispatch_static [OF st] in auto)
    then show ?thesis using Some 3 sel d j(1) m(2) q1 by (simp add: single_phases_def)
  qed
qed

subsection \<open>Gangs\<close>

lemma Remove_active:
  assumes inv: "gs_inv gs" and t: "table gs jid = Some j" "active j"
  shows "table (snd (RemoveByID gs jid)) = table gs \<and> jid \<notin># waiting (snd (RemoveByID gs jid))"
proof -
  obtain r g where rm: "RemoveByID gs jid = (r, g)" by fastforce
  note s = RemoveByID_spec [OF inv rm]
  obtain p where p: "jobs gs jid = Some p" "j = noidx (mem gs p)"
    using t(1) by (auto simp: table_def split: option.splits)
  have "jid \<notin># waiting g"
  proof (cases "State j = StateQueued")
    case True
    have "map_option noidx r = Some j \<and> waiting g = waiting gs - {#jid#} \<and> jid \<notin># waiting g"
      using s(3) unfolding t(1) option.case if_P [OF True] .
    then show ?thesis by blast
  next
    case False
    then have "State (mem gs p) = StateRunning" "g = gs" using t p s(3) by (auto simp: active_def)
    then show ?thesis using gs_invD(7) [OF inv p(1)] in_waiting_iff [OF inv p(1)] by simp
  qed
  then show ?thesis using table_same_jobs [OF s(2)] rm by simp
qed

text \<open>A rank about to be dispatched on its member.\<close>

definition rank_ready :: "bool \<Rightarrow> ('ast, 'prg) celEnv \<Rightarrow> Time \<Rightarrow> Node list \<Rightarrow> circuitBreaker \<Rightarrow> GlobalScheduler \<Rightarrow>
    'prg schedulerServer \<Rightarrow> Job \<Rightarrow> Node \<Rightarrow> bool" where
  "rank_ready c env now members cb0 gs0 srv j m \<longleftrightarrow>
     m \<in> set members \<and> suits env now cb0 m j \<and> canDispatchResources (srv_tracker srv) m j \<and> (c \<longrightarrow> demand_ok j) \<and>
     (\<exists>j0. table gs0 (ID j) = Some j0 \<and> Requirement j0 = Requirement j) \<and>
     (\<exists>jt. table (srv_queue srv) (ID j) = Some jt \<and> active jt)"

lemma rank_ready_env [simp]:
  "rank_ready c env now members cb0 gs0 srv (j\<lparr>EnvVars := e\<rparr>) m = rank_ready c env now members cb0 gs0 srv j m"
  by (simp add: rank_ready_def suits_def demand_ok_def canDispatchResources_def)

text \<open>Dispatching one rank leaves the others ready, when they go to other members.\<close>

lemma rank_step:
  fixes srv :: "'prg schedulerServer"
  assumes ok: "tick_ok c env now members cb0 gs0 sent0 srv" and names: "c \<longrightarrow> distinct (map Name members)"
    and r: "rank_ready c env now members cb0 gs0 srv j m"
    and s3: "s3 = dispatchJob now members (srv\<lparr>srv_queue := snd (RemoveByID (srv_queue srv) (ID j))\<rparr>) j (Name m)"
  shows "tick_ok c env now members cb0 gs0 sent0 s3"
    and "table (srv_queue s3) = (table (srv_queue srv))(ID j \<mapsto>
      (the (table (srv_queue srv) (ID j)))\<lparr>State := StateRunning, WorkerNode := Name m, StartTime := now\<rparr>)"
    and "rank_ready c env now members cb0 gs0 srv k n \<Longrightarrow> Name n \<noteq> Name m \<Longrightarrow>
      rank_ready c env now members cb0 gs0 s3 k n"
proof -
  let ?s = "srv\<lparr>srv_queue := snd (RemoveByID (srv_queue srv) (ID j))\<rparr>"
  have inv: "gs_inv (srv_queue srv)" using ok by (simp add: tick_ok_def)
  obtain jt where jt: "table (srv_queue srv) (ID j) = Some jt" "active jt" using r by (auto simp: rank_ready_def)
  note rm = Remove_active [OF inv jt]
  have ok2: "tick_ok c env now members cb0 gs0 sent0 ?s"
    by (rule tick_ok_set_queue [OF ok, of _ "OpRemove (ID j)"]) auto
  show "tick_ok c env now members cb0 gs0 sent0 s3" unfolding s3
    using r rm by (auto simp: rank_ready_def intro!: tick_ok_dispatch [OF ok2 names])
  have inv2: "gs_inv (srv_queue ?s)" using ok2 by (simp add: tick_ok_def)
  show t: "table (srv_queue s3) = (table (srv_queue srv))(ID j \<mapsto>
      (the (table (srv_queue srv) (ID j)))\<lparr>State := StateRunning, WorkerNode := Name m, StartTime := now\<rparr>)"
    using MarkRunning_spec(4) [OF inv2, of "ID j" jt _ now "Name m", OF _ _ refl] rm jt by (simp add: s3)
  assume k: "rank_ready c env now members cb0 gs0 srv k n" "Name n \<noteq> Name m"
  then have "canDispatchResources (srv_tracker s3) n k"
    using canDispatch_frame [of "Name m" n] by (simp add: s3 rank_ready_def)
  moreover have "\<exists>jt. table (srv_queue s3) (ID k) = Some jt \<and> active jt"
    using k(1) unfolding t by (auto simp: rank_ready_def active_def)
  ultimately show "rank_ready c env now members cb0 gs0 s3 k n" using k(1) by (simp add: rank_ready_def)
qed

lemma rank_ready_log [simp]:
  "rank_ready c env now members cb0 gs0 (srv_log t jid l msg srv) j m = rank_ready c env now members cb0 gs0 srv j m"
  by (simp add: rank_ready_def)

lemma dispatch_ranks_ok:
  assumes "tick_ok c env now members cb0 gs0 sent0 srv" "c \<longrightarrow> distinct (map Name members)"
    "\<forall>(j, m)\<in>set jms. rank_ready c env now members cb0 gs0 srv j m" "distinct (map (\<lambda>x. Name (snd x)) jms)"
    "dispatch_ranks now members addr srv i jms = Some srv'"
  shows "tick_ok c env now members cb0 gs0 sent0 srv' \<and>
    (\<exists>new. srv_sent srv' = srv_sent srv @ new \<and> map TargetNode new = map (\<lambda>x. Name (snd x)) jms \<and>
       map JobID new = map (\<lambda>x. ID (fst x)) jms) \<and>
    (\<forall>jid jt. table (srv_queue srv) jid = Some jt \<and> (State jt = StateRunning \<or> jid \<in> set (map (\<lambda>x. ID (fst x)) jms)) \<longrightarrow>
       (\<exists>jt'. table (srv_queue srv') jid = Some jt' \<and> State jt' = StateRunning))"
  using assms(1,3-)
proof (induction jms arbitrary: srv i)
  case (Cons jm jms)
  obtain j m where jm: "jm = (j, m)" by fastforce
  obtain e where e: "EnvVars j = Some e" using Cons.prems(4) jm by (auto split: option.splits)
  define j' where "j' = j\<lparr>EnvVars := Some (e(''MASTER_ADDR'' \<mapsto> addr))\<rparr>"
  define s3 where "s3 = dispatchJob now members (srv\<lparr>srv_queue := snd (RemoveByID (srv_queue srv) (ID j'))\<rparr>) j' (Name m)"
  define msg where "msg = ''Gang-scheduled: rank '' @ Itoa (int i) @ '' '' @ [CHR 0xE2, CHR 0x86, CHR 0x92] @ '' ''
      @ Name m @ '' (master='' @ addr @ '')''"
  have run: "dispatch_ranks now members addr (srv_log now (ID j') ''INFO'' msg s3) (Suc i) jms = Some srv'"
    using Cons.prems(4) e by (simp add: jm j'_def s3_def msg_def Let_def)
  have rr: "rank_ready c env now members cb0 gs0 srv j' m" using Cons.prems(2) by (simp add: jm j'_def)
  note st = rank_step [OF Cons.prems(1) assms(2) rr s3_def]
  have ready: "\<forall>(k, n)\<in>set jms. rank_ready c env now members cb0 gs0 (srv_log now (ID j') ''INFO'' msg s3) k n"
  proof (clarsimp)
    fix k n assume kn: "(k, n) \<in> set jms"
    then have "Name n \<noteq> Name m" using Cons.prems(3) by (force simp: jm)
    then show "rank_ready c env now members cb0 gs0 s3 k n" using Cons.prems(2) kn st(3) by auto
  qed
  have "distinct (map (\<lambda>x. Name (snd x)) jms)" using Cons.prems(3) by simp
  note ih = Cons.IH [OF _ ready this run]
  obtain ev where sent: "srv_sent s3 = srv_sent srv @ [\<lparr>TargetNode = Name m, JobID = ID j', pCommand = Command j',
      pWalltimeSeconds = WalltimeSeconds j', Action = ''execute'', pEnvVars = Some ev\<rparr>]" (is "_ = _ @ [?p]")
    using dispatchJob_sent [of now members "srv\<lparr>srv_queue := snd (RemoveByID (srv_queue srv) (ID j'))\<rparr>" j' "Name m"]
    by (auto simp: s3_def)
  obtain new where new: "srv_sent srv' = srv_sent s3 @ new" "map TargetNode new = map (\<lambda>x. Name (snd x)) jms"
    "map JobID new = map (\<lambda>x. ID (fst x)) jms"
    using ih st(1) by auto
  have "\<exists>new. srv_sent srv' = srv_sent srv @ new \<and> map TargetNode new = map (\<lambda>x. Name (snd x)) (jm # jms) \<and>
       map JobID new = map (\<lambda>x. ID (fst x)) (jm # jms)"
    using new sent by (intro exI [of _ "?p # new"]) (simp add: jm j'_def)
  moreover have "\<exists>jt'. table (srv_queue srv') jid = Some jt' \<and> State jt' = StateRunning"
    if t: "table (srv_queue srv) jid = Some jt" and c: "State jt = StateRunning \<or> jid \<in> set (map (\<lambda>x. ID (fst x)) (jm # jms))" for jid jt
  proof -
    have "\<exists>jt2. table (srv_queue s3) jid = Some jt2 \<and> (State jt2 = StateRunning \<or> jid \<in> set (map (\<lambda>x. ID (fst x)) jms))"
      using t c unfolding st(2) by (auto simp: jm j'_def)
    then show ?thesis using ih st(1) by auto
  qed
  ultimately show ?case using ih st(1) by auto
qed simp

end
