(* ===== verification/Master_Handlers.thy ===== *)
theory Master_Handlers
  imports Master_Dispatch
begin

text \<open>
  The gRPC handlers of \<open>internal/daemon/master.go\<close>. A handler is a function from the
  server's state and the request to the response (or a status error) and the new state;
  it runs at one instant \<open>now\<close>. \<open>uuid\<close> is the text of the identifier package \<open>uuid\<close>
  generates.
\<close>

record SubmitJobRequest =
  sjCelRequirement :: string
  sjCommand :: string
  sjPriority :: "32 word"
  sjUser :: string
  sjWalltimeSeconds :: "32 word"
  sjGpusRequired :: "32 word"
  sjEnvVars :: "(string \<rightharpoonup> string) option"

record SubmitDistributedJobRequest =
  sdCelRequirement :: string
  sdCommand :: string
  sdNumNodes :: "32 word"
  sdGpusPerNode :: "32 word"
  sdPriority :: "32 word"
  sdUser :: string
  sdWalltimeSeconds :: "32 word"
  sdMasterPort :: "32 word"
  sdEnvVars :: "(string \<rightharpoonup> string) option"

record ReportResultRequest =
  rrJobId :: string
  rrWorkerNode :: string
  rrSuccess :: bool
  rrOutput :: string
  rrError :: string

subsection \<open>Submission\<close>

definition sched_error_text :: "sched_error \<Rightarrow> string" where
  "sched_error_text e =
     (case e of QueueFull n \<Rightarrow> ''queue full ('' @ Itoa n @ '' jobs)'' | JobNotFound \<Rightarrow> ''job not found'')"

text \<open>A new job object, entered into the queue.\<close>

definition submit_job :: "Job \<Rightarrow> 'prg schedulerServer \<Rightarrow> sched_error option \<times> 'prg schedulerServer" where
  "submit_job job srv =
     (let (q, p) = new_job (srv_queue srv) job
      in case Enqueue q p of
          Inl e \<Rightarrow> (Some e, srv\<lparr>srv_queue := q\<rparr>)
        | Inr q' \<Rightarrow> (None, srv\<lparr>srv_queue := q'\<rparr>))"

definition SubmitJob :: "Time \<Rightarrow> string \<Rightarrow> 'prg schedulerServer \<Rightarrow> SubmitJobRequest \<Rightarrow>
    (grpc_error + string \<times> string) \<times> 'prg schedulerServer" where
  "SubmitJob now uuid srv req =
     (if srv_draining srv then (Inl (Unavailable ''master is draining, not accepting new jobs''), srv)
      else let jobID = take 8 uuid;
               priority = (if sint (sjPriority req) = 0 then 10 else sint (sjPriority req));
               user = (if sjUser req = [] then ''anonymous'' else sjUser req);
               penalty = CalculatePenalty (srv_fairshare srv) user;
               effectivePriority = i64 (priority + penalty);
               (cpus, memMB) = parseCELRequirement (sjCelRequirement req);
               job = zero_job\<lparr>ID := jobID, Requirement := sjCelRequirement req, Command := sjCommand req,
                       SubmitTime := now, Priority := effectivePriority, User := user,
                       WalltimeSeconds := sint (sjWalltimeSeconds req), GPUsRequired := sint (sjGpusRequired req),
                       CPUsRequired := cpus, MemoryRequiredMB := memMB,
                       EnvVars := sjEnvVars req, MaxRetries := cfgMaxRetries (srv_cfg srv)\<rparr>
           in case submit_job job srv of
               (Some e, srv1) \<Rightarrow> (Inl (ResourceExhausted (''queue full: '' @ sched_error_text e)), srv1)
             | (None, srv1) \<Rightarrow>
                 (Inr (jobID, ''QUEUED''),
                  srv_log now jobID ''INFO''
                    (''Job queued | Priority: '' @ Itoa effectivePriority @ '' | GPUs: '' @ Itoa (sint (sjGpusRequired req))
                     @ '' | Retries: '' @ Itoa (cfgMaxRetries (srv_cfg srv)) @ '' | Expr: '' @ [CHR 0x27]
                     @ sjCelRequirement req @ [CHR 0x27]) srv1))"

definition rank_env :: "int \<Rightarrow> int \<Rightarrow> int \<Rightarrow> int \<Rightarrow> (string \<rightharpoonup> string) option \<Rightarrow> (string \<rightharpoonup> string)" where
  "rank_env rank numNodes masterPort gpusPerNode envVars =
     (case envVars of None \<Rightarrow> Map.empty | Some m \<Rightarrow> m)
       (''RANK'' \<mapsto> Itoa rank, ''WORLD_SIZE'' \<mapsto> Itoa numNodes, ''MASTER_PORT'' \<mapsto> Itoa masterPort,
        ''LOCAL_RANK'' \<mapsto> ''0'', ''NPROC_PER_NODE'' \<mapsto> Itoa gpusPerNode)"

definition rank_id :: "string \<Rightarrow> nat \<Rightarrow> string" where
  "rank_id groupID rank = groupID @ ''-r'' @ Itoa (int rank)"

definition rank_job :: "Time \<Rightarrow> string \<Rightarrow> int \<Rightarrow> int \<Rightarrow> int \<Rightarrow> int \<Rightarrow> string \<Rightarrow> SubmitDistributedJobRequest \<Rightarrow> nat \<Rightarrow> Job" where
  "rank_job now groupID numNodes masterPort gpusPerNode priority user req rank =
     (let (cpus, memMB) = parseCELRequirement (sdCelRequirement req)
      in zero_job\<lparr>ID := rank_id groupID rank, GroupID := groupID, Requirement := sdCelRequirement req,
           Command := sdCommand req, SubmitTime := now, Priority := priority,
           User := user, WalltimeSeconds := sint (sdWalltimeSeconds req),
           GPUsRequired := gpusPerNode, CPUsRequired := cpus, MemoryRequiredMB := memMB,
           EnvVars := Some (rank_env (int rank) numNodes masterPort gpusPerNode (sdEnvVars req)), MaxRetries := 0\<rparr>)"

text \<open>The loop over the ranks; a refused rank leaves the earlier ones in the queue.\<close>

fun submit_ranks :: "Time \<Rightarrow> string \<Rightarrow> int \<Rightarrow> (nat \<Rightarrow> Job) \<Rightarrow> nat list \<Rightarrow> string list \<Rightarrow> 'prg schedulerServer \<Rightarrow>
    (sched_error + string list) \<times> 'prg schedulerServer" where
  "submit_ranks now groupID numNodes mk [] jobIDs srv = (Inr jobIDs, srv)"
| "submit_ranks now groupID numNodes mk (rank # ranks) jobIDs srv =
     (case submit_job (mk rank) srv of
        (Some e, srv1) \<Rightarrow> (Inl e, srv1)
      | (None, srv1) \<Rightarrow>
          submit_ranks now groupID numNodes mk ranks (jobIDs @ [ID (mk rank)])
            (srv_log now (ID (mk rank)) ''INFO''
               (''Distributed job rank '' @ Itoa (int rank) @ ''/'' @ Itoa numNodes @ '' queued in group '' @ groupID) srv1))"

definition SubmitDistributedJob :: "Time \<Rightarrow> string \<Rightarrow> 'prg schedulerServer \<Rightarrow> SubmitDistributedJobRequest \<Rightarrow>
    (grpc_error + string \<times> string list \<times> string) \<times> 'prg schedulerServer" where
  "SubmitDistributedJob now uuid srv req =
     (if srv_draining srv then (Inl (Unavailable ''master is draining''), srv)
      else let groupID = ''dj-'' @ take 8 uuid;
               masterPort = (if sint (sdMasterPort req) = 0 then 29500 else sint (sdMasterPort req));
               priority = (if sint (sdPriority req) = 0 then 10 else sint (sdPriority req));
               user = (if sdUser req = [] then ''anonymous'' else sdUser req);
               numNodes = (if sint (sdNumNodes req) < 1 then 1 else sint (sdNumNodes req));
               gpusPerNode = sint (sdGpusPerNode req);
               mk = rank_job now groupID numNodes masterPort gpusPerNode priority user req
           in case submit_ranks now groupID numNodes mk [0..<nat numNodes] [] srv of
               (Inl e, srv1) \<Rightarrow> (Inl (ResourceExhausted (''queue full: '' @ sched_error_text e)), srv1)
             | (Inr jobIDs, srv1) \<Rightarrow>
                 (Inr (groupID, jobIDs, ''QUEUED''),
                  srv1\<lparr>srv_queue := RegisterGroup (srv_queue srv1)
                    \<lparr>gGroupID = groupID, gJobIDs = jobIDs, gNumNodes = numNodes, gGPUsPerNode = gpusPerNode,
                     gMasterPort = masterPort, gState = ''PENDING'', gCreatedAt = now\<rparr>\<rparr>))"

subsection \<open>Cancellation\<close>

record CancelJobResponse =
  cjJobId :: string
  cjStatus :: string
  cjMessage :: string

text \<open>Resources released and the worker told, when the cancelled job had a worker.\<close>

definition stop_on_worker :: "Job \<Rightarrow> 'prg schedulerServer \<Rightarrow> 'prg schedulerServer" where
  "stop_on_worker job srv =
     (if WorkerNode job \<noteq> []
      then publish (cancel_payload (WorkerNode job) (ID job)) (release_job (WorkerNode job) job srv) else srv)"

definition CancelJob :: "Time \<Rightarrow> 'prg schedulerServer \<Rightarrow> string \<Rightarrow> CancelJobResponse \<times> 'prg schedulerServer" where
  "CancelJob now srv jobID =
     (case Cancel now (srv_queue srv) jobID of
        (Some job, False, q) \<Rightarrow>
          (\<lparr>cjJobId = jobID, cjStatus = State job, cjMessage = ''Already '' @ State job\<rparr>, srv\<lparr>srv_queue := q\<rparr>)
      | (Some job, True, q) \<Rightarrow>
          (\<lparr>cjJobId = jobID, cjStatus = ''CANCELLED'', cjMessage = ''Cancelled''\<rparr>,
           srv_log now jobID ''INFO'' ''Job cancelled by user'' (stop_on_worker job (srv\<lparr>srv_queue := q\<rparr>)))
      | (None, _, q) \<Rightarrow>
          (\<lparr>cjJobId = jobID, cjStatus = ''NOT_FOUND'', cjMessage = ''Job not found''\<rparr>, srv\<lparr>srv_queue := q\<rparr>))"

subsection \<open>Queries\<close>

record GetJobStatusResponse =
  stJobId :: string
  stState :: string
  stWorkerNode :: string
  stCommand :: string
  stOutput :: string
  stError :: string
  stSubmitTime :: int
  stStartTime :: int
  stEndTime :: int
  stGroupId :: string

definition status_of :: "Job \<Rightarrow> GetJobStatusResponse" where
  "status_of j =
     \<lparr>stJobId = ID j, stState = State j, stWorkerNode = WorkerNode j, stCommand = Command j,
      stOutput = Output j, stError = Error j, stSubmitTime = time_Unix (SubmitTime j),
      stStartTime = (if StartTime j = zero_time then 0 else time_Unix (StartTime j)),
      stEndTime = (if EndTime j = zero_time then 0 else time_Unix (EndTime j)), stGroupId = GroupID j\<rparr>"

definition no_such_job :: "string \<Rightarrow> GetJobStatusResponse" where
  "no_such_job jobID =
     \<lparr>stJobId = jobID, stState = ''NOT_FOUND'', stWorkerNode = [], stCommand = [], stOutput = [], stError = [],
      stSubmitTime = 0, stStartTime = 0, stEndTime = 0, stGroupId = []\<rparr>"

definition GetJobStatus :: "'prg schedulerServer \<Rightarrow> string \<Rightarrow> GetJobStatusResponse" where
  "GetJobStatus srv jobID =
     (case GetJob (srv_queue srv) jobID of
        (Some job, True) \<Rightarrow> status_of job
      | _ \<Rightarrow>
          (case srv_store srv of
             None \<Rightarrow> no_such_job jobID
           | Some s \<Rightarrow>
               (case Store_GetJob s jobID of
                  Inr j \<Rightarrow> status_of j
                | Inl _ \<Rightarrow> (case GetDeadLetter s jobID of Inr j \<Rightarrow> status_of j | Inl _ \<Rightarrow> no_such_job jobID))))"

record JobInfo =
  jiJobId :: string
  jiState :: string
  jiCommand :: string
  jiRequirement :: string
  jiWorkerNode :: string
  jiPriority :: "32 word"
  jiUser :: string
  jiSubmitTime :: int
  jiGroupId :: string

definition job_info :: "Job \<Rightarrow> JobInfo" where
  "job_info j =
     \<lparr>jiJobId = ID j, jiState = State j, jiCommand = Command j, jiRequirement = Requirement j,
      jiWorkerNode = WorkerNode j, jiPriority = word_of_int (Priority j), jiUser = User j,
      jiSubmitTime = time_Unix (SubmitTime j), jiGroupId = GroupID j\<rparr>"

text \<open>\<open>dead_err\<close> is the error of reading the bucket of dead letters, if there is one.\<close>

definition srv_ListJobs :: "string list \<Rightarrow> string list \<Rightarrow> string option \<Rightarrow> 'prg schedulerServer \<Rightarrow> string \<Rightarrow> grpc_error + JobInfo list" where
  "srv_ListJobs order dead_order dead_err srv reqFilter =
     (let stateFilter = ToUpper reqFilter
      in if stateFilter = ''DEAD_LETTER''
         then (case srv_store srv of
                 None \<Rightarrow> Inr []
               | Some s \<Rightarrow>
                   (case dead_err of
                      None \<Rightarrow> Inr (map job_info (LoadDeadLetters dead_order s))
                    | Some msg \<Rightarrow> Inl (Internal (''failed to load dead letters: '' @ msg))))
         else Inr (map job_info (ListJobs order (srv_queue srv) stateFilter)))"

definition WorkerStatus :: "Node list \<Rightarrow> (string \<rightharpoonup> string)" where
  "WorkerStatus members =
     foldl (\<lambda>nodes member. if Meta member \<noteq> [] then nodes(Name member \<mapsto> Meta member) else nodes) Map.empty members"

subsection \<open>Results\<close>

fun cancel_siblings :: "Time \<Rightarrow> string \<Rightarrow> string list \<Rightarrow> 'prg schedulerServer \<Rightarrow> 'prg schedulerServer" where
  "cancel_siblings now completedJobID [] srv = srv"
| "cancel_siblings now completedJobID (jid # jids) srv =
     (if jid = completedJobID then cancel_siblings now completedJobID jids srv
      else case Cancel now (srv_queue srv) jid of
          (Some job, True, q) \<Rightarrow>
            cancel_siblings now completedJobID jids (stop_on_worker job (srv\<lparr>srv_queue := q\<rparr>))
        | (_, _, q) \<Rightarrow> cancel_siblings now completedJobID jids (srv\<lparr>srv_queue := q\<rparr>))"

fun all_done :: "GlobalScheduler \<Rightarrow> string list \<Rightarrow> bool" where
  "all_done gs [] = True"
| "all_done gs (jid # jids) =
     (case GetJob gs jid of
        (Some j, True) \<Rightarrow> if State j = StateQueued \<or> State j = StateRunning then False else all_done gs jids
      | _ \<Rightarrow> all_done gs jids)"

definition handleGroupCompletion :: "Time \<Rightarrow> string \<Rightarrow> string \<Rightarrow> bool \<Rightarrow> 'prg schedulerServer \<Rightarrow> 'prg schedulerServer" where
  "handleGroupCompletion now groupID completedJobID success srv =
     (case GetGroup (srv_queue srv) groupID of
        (Some g, True) \<Rightarrow>
          if gState g = ''COMPLETED'' \<or> gState g = ''FAILED'' then srv
          else if \<not> success
          then let srv1 = cancel_siblings now completedJobID (gJobIDs g) srv
               in srv1\<lparr>srv_queue := SetGroupState (srv_queue srv1) groupID ''FAILED''\<rparr>
          else if all_done (srv_queue srv) (gJobIDs g)
          then srv\<lparr>srv_queue := SetGroupState (srv_queue srv) groupID ''COMPLETED''\<rparr>
          else srv
      | _ \<Rightarrow> srv)"

definition isUserError :: "string \<Rightarrow> bool" where
  "isUserError err =
     (HasPrefix err ''exit status'' \<or> err = ''cancelled'' \<or> Contains err ''walltime exceeded'')"

text \<open>\<open>time.Duration(n*n*10) * time.Second\<close>, every product in 64 bits.\<close>

definition retry_backoff :: "int \<Rightarrow> Duration" where
  "retry_backoff n = i64 (i64 (i64 (n * n) * 10) * Second)"

definition track_outcome :: "Time \<Rightarrow> ReportResultRequest \<Rightarrow> 'prg schedulerServer \<Rightarrow> 'prg schedulerServer" where
  "track_outcome now req srv =
     (if rrSuccess req then srv\<lparr>srv_cb := RecordSuccess (srv_cb srv) (rrWorkerNode req)\<rparr>
      else if isUserError (rrError req) then srv
      else srv\<lparr>srv_cb := RecordFailure now (srv_cb srv) (rrWorkerNode req) (rrJobId req)\<rparr>)"

definition job_seconds :: "Job \<Rightarrow> rat" where
  "job_seconds job = duration_Seconds (time_Sub (EndTime job) (StartTime job))"

definition ReportResult :: "Time \<Rightarrow> bool \<Rightarrow> 'prg schedulerServer \<Rightarrow> ReportResultRequest \<Rightarrow> 'prg schedulerServer" where
  "ReportResult now db_ok srv req =
     (let srv0 = srv\<lparr>srv_queue := MarkCompleted now (srv_queue srv) (rrJobId req) (rrSuccess req) (rrOutput req) (rrError req)\<rparr>
      in case GetJob (srv_queue srv0) (rrJobId req) of
          (Some job, True) \<Rightarrow>
            let srv1 = (if WorkerNode job \<noteq> [] then release_job (WorkerNode job) job srv0 else srv0);
                srv2 = track_outcome now req srv1;
                dur = job_seconds job;
                srv3 = (if 0 < dur then srv2\<lparr>srv_fairshare := RecordUsage (srv_fairshare srv2) (User job) dur\<rparr> else srv2)
            in if \<not> rrSuccess req \<and> GroupID job = [] \<and> RetryCount job < MaxRetries job
               then let nextRetryCount = i64 (RetryCount job + 1); backoff = retry_backoff nextRetryCount
                    in srv_log now (rrJobId req) ''WARN''
                         (''Retry '' @ Itoa nextRetryCount @ ''/'' @ Itoa (MaxRetries job) @ '' in '' @ duration_String backoff)
                         (srv3\<lparr>srv_timers := srv_timers srv3 @ [(now + max 0 backoff, rrJobId req)]\<rparr>)
               else let srv4 = (case srv_store srv3 of
                          Some s \<Rightarrow>
                            if \<not> rrSuccess req \<and> MaxRetries job \<le> RetryCount job \<and> 0 < MaxRetries job
                            then srv_log now (rrJobId req) ''ERROR''
                                   (''All '' @ Itoa (MaxRetries job) @ '' retries exhausted, moved to dead letter queue'')
                                   (srv3\<lparr>srv_store := Some (unless_error s (SaveDeadLetter db_ok s job))\<rparr>)
                            else srv3
                        | None \<Rightarrow> srv3);
                        srv5 = (if GroupID job \<noteq> []
                                then handleGroupCompletion now (GroupID job) (rrJobId req) (rrSuccess req) srv4 else srv4);
                        resultStatus = (if rrSuccess req then ''COMPLETED'' else ''FAILED'');
                        srv6 = srv_log now (rrJobId req) ''INFO''
                          (''Job '' @ resultStatus @ '' on worker '' @ rrWorkerNode req @ '' | Output: '' @ Go_Strings.truncate (rrOutput req) 200) srv5
                    in (if rrError req \<noteq> [] then srv_log now (rrJobId req) ''ERROR'' (rrError req) srv6 else srv6)
        | _ \<Rightarrow> srv0)"

text \<open>The goroutine of a retry, when its timer fires.\<close>

definition fire_retry :: "Time \<Rightarrow> nat \<Rightarrow> 'prg schedulerServer \<Rightarrow> 'prg schedulerServer" where
  "fire_retry now i srv =
     (if i < length (srv_timers srv) \<and> fst (srv_timers srv ! i) \<le> now
      then let jobID = snd (srv_timers srv ! i);
               srv1 = srv\<lparr>srv_timers := take i (srv_timers srv) @ drop (Suc i) (srv_timers srv)\<rparr>
           in (case Requeue (srv_queue srv1) jobID True of
                 Inl _ \<Rightarrow> srv1
               | Inr (_, q) \<Rightarrow> srv1\<lparr>srv_queue := q\<rparr>)
      else srv)"

end
