(* ===== verification/Master_Loops.thy ===== *)
theory Master_Loops
  imports Master_Handlers
begin

text \<open>
  The background activities of the master and its start (\<open>internal/daemon/master.go\<close>): one
  tick of the walltime enforcer, of the dispatch timeout enforcer and of the fair-share
  decay, the HTTP endpoints, the hook for a worker that leaves, and the restoration of
  state in \<open>StartMaster\<close>. A tick runs at one instant \<open>now\<close>; \<open>order\<close> is the order in which a
  table is visited.
\<close>

subsection \<open>Walltime\<close>

definition walltime_deadline :: "Job \<Rightarrow> Time" where
  "walltime_deadline job = time_Add (StartTime job) (i64 (WalltimeSeconds job * Second))"

definition walltime_kill :: "Time \<Rightarrow> 'prg schedulerServer \<Rightarrow> Job \<Rightarrow> 'prg schedulerServer" where
  "walltime_kill now srv job =
     (let srv1 = srv\<lparr>srv_queue := snd (snd (Cancel now (srv_queue srv) (ID job)))\<rparr>;
          srv2 = (if WorkerNode job \<noteq> [] then release_job (WorkerNode job) job srv1 else srv1);
          srv3 = publish (cancel_payload (WorkerNode job) (ID job)) srv2
      in srv_log now (ID job) ''WARN'' (''Walltime exceeded ('' @ Itoa (WalltimeSeconds job) @ ''s)'') srv3)"

fun walltime_loop :: "Time \<Rightarrow> 'prg schedulerServer \<Rightarrow> Job list \<Rightarrow> 'prg schedulerServer" where
  "walltime_loop now srv [] = srv"
| "walltime_loop now srv (job # js) =
     (if WalltimeSeconds job \<le> 0 then walltime_loop now srv js
      else if walltime_deadline job < now then walltime_loop now (walltime_kill now srv job) js
      else walltime_loop now srv js)"

definition walltime_tick :: "Time \<Rightarrow> string list \<Rightarrow> 'prg schedulerServer \<Rightarrow> 'prg schedulerServer" where
  "walltime_tick now order srv = walltime_loop now srv (RunningJobs order (srv_queue srv))"

subsection \<open>Dispatch handshake\<close>

fun requeue_timed_out :: "Time \<Rightarrow> 'prg schedulerServer \<Rightarrow> string list \<Rightarrow> 'prg schedulerServer" where
  "requeue_timed_out now srv [] = srv"
| "requeue_timed_out now srv (jobID # jids) =
     (case GetJob (srv_queue srv) jobID of
        (Some job, True) \<Rightarrow>
          if State job \<noteq> StateRunning then requeue_timed_out now srv jids
          else let srv1 = srv_log now jobID ''WARN'' ''Dispatch handshake timed out, re-queueing'' srv;
                   (_, ok, q) = RequeueRunningJob (srv_queue srv1) jobID;
                   srv2 = srv1\<lparr>srv_queue := q\<rparr>
               in requeue_timed_out now
                    (if ok \<and> WorkerNode job \<noteq> [] then release_job (WorkerNode job) job srv2 else srv2) jids
      | _ \<Rightarrow> requeue_timed_out now srv jids)"

definition timed_out_jobs :: "Time \<Rightarrow> string list \<Rightarrow> (string \<rightharpoonup> Time) \<Rightarrow> string list" where
  "timed_out_jobs now order pending =
     filter (\<lambda>jid. case pending jid of None \<Rightarrow> False | Some t \<Rightarrow> 10 * Second < time_Sub now t) order"

definition timeout_tick :: "Time \<Rightarrow> string list \<Rightarrow> 'prg schedulerServer \<Rightarrow> 'prg schedulerServer" where
  "timeout_tick now order srv =
     (let timedOut = timed_out_jobs now order (srv_pending srv);
          srv1 = srv\<lparr>srv_pending := (\<lambda>jid. if jid \<in> set timedOut then None else srv_pending srv jid)\<rparr>
      in requeue_timed_out now srv1 timedOut)"

text \<open>
  The body of \<open>/acknowledge_start\<close> is decoded into a struct with the one field \<open>job_id\<close>,
  whose name JSON matches in any case; the last of several such fields wins, \<open>null\<close> keeps
  the value, another type is an error.
\<close>

fun decode_job_id :: "(string \<times> json) list \<Rightarrow> string \<Rightarrow> string option" where
  "decode_job_id [] acc = Some acc"
| "decode_job_id ((k, v) # fs) acc =
     (if ToUpper k = ''JOB_ID''
      then (case v of JString s \<Rightarrow> decode_job_id fs s | JNull \<Rightarrow> decode_job_id fs acc | _ \<Rightarrow> None)
      else decode_job_id fs acc)"

definition ack_job_id :: "string \<Rightarrow> string option" where
  "ack_job_id body =
     (case json_prefix body of
        Some (JObject fs, _) \<Rightarrow> (case decode_job_id fs [] of Some jid \<Rightarrow> if jid = [] then None else Some jid | None \<Rightarrow> None)
      | _ \<Rightarrow> None)"

definition acknowledge_start :: "string \<Rightarrow> string \<Rightarrow> 'prg schedulerServer \<Rightarrow> nat \<times> 'prg schedulerServer" where
  "acknowledge_start http_method body srv =
     (if http_method \<noteq> ''POST'' then (405, srv)
      else case ack_job_id body of
          None \<Rightarrow> (400, srv)
        | Some jid \<Rightarrow>
            if srv_pending srv jid \<noteq> None then (200, srv\<lparr>srv_pending := (srv_pending srv)(jid := None)\<rparr>)
            else (404, srv))"

record Readiness =
  rdMembers :: nat
  rdQueueDepth :: nat
  rdDraining :: bool

definition health :: nat where "health = 200"

definition ready :: "Node list \<Rightarrow> 'prg schedulerServer \<Rightarrow> nat \<times> Readiness option" where
  "ready members srv =
     (if members = [] then (503, None)
      else (200, Some \<lparr>rdMembers = length members, rdQueueDepth = QueueLen (srv_queue srv), rdDraining = srv_draining srv\<rparr>))"

subsection \<open>A worker leaves\<close>

fun lose_jobs :: "Time \<Rightarrow> string \<Rightarrow> 'prg schedulerServer \<Rightarrow> Job list \<Rightarrow> 'prg schedulerServer" where
  "lose_jobs now nodeName srv [] = srv"
| "lose_jobs now nodeName srv (job # js) =
     (let srv1 = release_job nodeName job srv;
          srv2 = srv1\<lparr>srv_queue := MarkCompleted now (srv_queue srv1) (ID job) False [] ''worker node lost''\<rparr>;
          srv3 = (if GroupID job \<noteq> []
                  then case GetGroup (srv_queue srv2) (GroupID job) of
                      (Some g, True) \<Rightarrow>
                        if gState g = ''RUNNING''
                        then srv2\<lparr>srv_queue := SetGroupState (srv_queue srv2) (GroupID job) ''FAILED''\<rparr> else srv2
                    | _ \<Rightarrow> srv2
                  else srv2)
      in lose_jobs now nodeName srv3 js)"

definition OnLeave :: "Time \<Rightarrow> string list \<Rightarrow> string \<Rightarrow> 'prg schedulerServer \<Rightarrow> 'prg schedulerServer" where
  "OnLeave now order nodeName srv =
     lose_jobs now nodeName srv (RunningJobsOnNode order (srv_queue srv) nodeName)"

subsection \<open>Fair-share decay\<close>

definition decay_tick :: "bool \<Rightarrow> 'prg schedulerServer \<Rightarrow> 'prg schedulerServer" where
  "decay_tick db_ok srv =
     (let f = DecayUsage (srv_fairshare srv) decay_factor
      in srv\<lparr>srv_fairshare := f,
             srv_store := map_option (\<lambda>s. unless_error s (SaveFairshare db_ok s (UserUsage f))) (srv_store srv)\<rparr>)"

subsection \<open>Start\<close>

fun restore_jobs :: "Time \<Rightarrow> bool \<Rightarrow> Job list \<Rightarrow> GlobalScheduler \<times> Store \<Rightarrow> GlobalScheduler \<times> Store" where
  "restore_jobs now db_ok [] st = st"
| "restore_jobs now db_ok (job # js) (gs, s) =
     (if State job = StateQueued
      then restore_jobs now db_ok js
        (let (g, p) = new_job gs job in case Enqueue g p of Inl _ \<Rightarrow> g | Inr g' \<Rightarrow> g', s)
      else if State job = StateRunning
      then restore_jobs now db_ok js
        (gs, unless_error s (SaveJob db_ok s (job\<lparr>State := StateFailed, Error := ''master restarted'', EndTime := now\<rparr>)))
      else restore_jobs now db_ok js (gs, s))"

fun restore_groups :: "bool \<Rightarrow> JobGroup list \<Rightarrow> GlobalScheduler \<times> Store \<Rightarrow> GlobalScheduler \<times> Store" where
  "restore_groups db_ok [] st = st"
| "restore_groups db_ok (g # gs') (gs, s) =
     (if gState g = ''PENDING'' \<or> gState g = ''RUNNING''
      then restore_groups db_ok gs'
        (RegisterGroup gs (g\<lparr>gState := ''FAILED''\<rparr>), unless_error s (SaveGroup db_ok s (g\<lparr>gState := ''FAILED''\<rparr>)))
      else restore_groups db_ok gs' (RegisterGroup gs g, s))"

definition restore :: "Time \<Rightarrow> bool \<Rightarrow> string list \<Rightarrow> string list \<Rightarrow> Config \<Rightarrow> Store \<Rightarrow> GlobalScheduler \<times> FairshareCalculator \<times> Store" where
  "restore now db_ok job_order group_order cfg s =
     (let gs0 = NewGlobalScheduler\<lparr>MaxQueueSize := cfgMaxQueueSize cfg, OnJobChange := True, OnGroupChange := True\<rparr>;
          (gs1, s1) = restore_jobs now db_ok (LoadJobs job_order s) (gs0, s);
          (gs2, s2) = restore_groups db_ok (LoadGroups group_order s1) (gs1, s1);
          fs = (case LoadFairshare s2 of
                  Inr usage \<Rightarrow> if usage = Map.empty then NewFairshareCalculator else \<lparr>UserUsage = usage\<rparr>
                | Inl _ \<Rightarrow> NewFairshareCalculator)
      in (gs2, fs, s2))"

definition StartMaster :: "Time \<Rightarrow> bool \<Rightarrow> string list \<Rightarrow> string list \<Rightarrow> Config \<Rightarrow> Store \<Rightarrow> 'prg schedulerServer" where
  "StartMaster now db_ok job_order group_order cfg s =
     (let (gs, fs, s') = restore now db_ok job_order group_order cfg s
      in \<lparr>srv_queue = gs, srv_eval = NewEvaluator, srv_sent = [], srv_fairshare = fs, srv_store = Some s',
          srv_cfg = cfg, srv_draining = False, srv_cb = newCircuitBreaker, srv_tracker = newGPUTracker,
          srv_pending = Map.empty, srv_logs = empty_logs, srv_timers = []\<rparr>)"

end
