(* ===== verification/Master_Facts.thy ===== *)
theory Master_Facts
  imports Master_Loops
begin

text \<open>
  What the handlers of the master do to the scheduler: a submission enters one job, and
  every handler is a run of scheduler operations.
\<close>

subsection \<open>Groups do not touch jobs\<close>

lemma waiting_notify_group: "waiting (notifyGroupChange gs g) = waiting gs"
  by (simp add: waiting_def)

lemma table_groups [simp]:
  "table (gs\<lparr>groups := m\<rparr>) = table gs" "waiting (gs\<lparr>groups := m\<rparr>) = waiting gs"
proof -
  have m: "mem (gs\<lparr>groups := m\<rparr>) = mem gs" "jobs (gs\<lparr>groups := m\<rparr>) = jobs gs" "queue (gs\<lparr>groups := m\<rparr>) = queue gs"
    by simp_all
  show "table (gs\<lparr>groups := m\<rparr>) = table gs" by (rule ext) (simp only: table_def m)
  show "waiting (gs\<lparr>groups := m\<rparr>) = waiting gs" by (simp only: waiting_def m)
qed

lemma table_SetGroupState [simp]:
  "table (SetGroupState gs gid st) = table gs" "waiting (SetGroupState gs gid st) = waiting gs"
  by (simp_all add: SetGroupState_def waiting_notify_group split: option.split)

lemma table_RegisterGroup [simp]:
  "table (RegisterGroup gs g) = table gs" "waiting (RegisterGroup gs g) = waiting gs"
  by (simp_all add: RegisterGroup_def waiting_notify_group)

subsection \<open>Entering a job\<close>

lemma exec_Enqueue_spec:
  assumes inv: "gs_inv gs" and fresh: "jobs gs (ID j) = None"
    and room: "\<not> (0 < MaxQueueSize gs \<and> MaxQueueSize gs \<le> int (size (waiting gs)))"
  shows "table (exec (OpEnqueue j) gs) = (table gs)(ID j \<mapsto> noidx (j\<lparr>State := StateQueued\<rparr>))"
    "waiting (exec (OpEnqueue j) gs) = add_mset (ID j) (waiting gs)"
    "MaxQueueSize (exec (OpEnqueue j) gs) = MaxQueueSize gs" "groups (exec (OpEnqueue j) gs) = groups gs"
    "jobs (exec (OpEnqueue j) gs) = (jobs gs)(ID j \<mapsto> next_ptr gs)"
proof -
  obtain g p where new: "new_job gs j = (g, p)" by fastforce
  note n = new_job_inv [OF inv new]
  have g: "MaxQueueSize g = MaxQueueSize gs" "groups g = groups gs" "p = next_ptr gs" "jobs g = jobs gs" "queue g = queue gs"
    using new by (auto simp: new_job_def)
  have "\<exists>g'. Enqueue g p = Inr g'"
    using room g Enqueue_full [of g p] by (cases "Enqueue g p") auto
  then obtain g' where e: "Enqueue g p = Inr g'" by blast
  note ei = Enqueue_inv [OF n(1,4,8) _ new_unreferenced [OF inv new] e]
  have x: "exec (OpEnqueue j) gs = g'" using new e by simp
  show "table (exec (OpEnqueue j) gs) = (table gs)(ID j \<mapsto> noidx (j\<lparr>State := StateQueued\<rparr>))"
    "waiting (exec (OpEnqueue j) gs) = add_mset (ID j) (waiting gs)"
    "MaxQueueSize (exec (OpEnqueue j) gs) = MaxQueueSize gs" "groups (exec (OpEnqueue j) gs) = groups gs"
    "jobs (exec (OpEnqueue j) gs) = (jobs gs)(ID j \<mapsto> next_ptr gs)"
    unfolding x using ei fresh n g by simp_all
qed

lemma submit_job_exec: "srv_queue (snd (submit_job job srv)) = exec (OpEnqueue job) (srv_queue srv)"
  by (auto simp: submit_job_def Let_def split: sum.split prod.split)

end
