(* ===== verification/Master_Example.thy ===== *)
theory Master_Example
  imports Master_Facts
begin

text \<open>
  A small cluster on which the properties of the master are exercised: two members that
  offer two GPUs each, an expression language whose only expression language program
  accepts every member, a server with one waiting single job, and one with a waiting gang.
\<close>

definition ex_env :: "(string, string) celEnv" where
  "ex_env = \<lparr>celCompile = Inr, celProgram = Inr, celEval = (\<lambda>prg ad. Inr (CelBool (prg = ''true'')))\<rparr>"

definition ex_ad :: string where "ex_ad = [CHR 0x7B, CHR 0x22] @ ''gpu_count'' @ [CHR 0x22] @ '':2'' @ [CHR 0x7D]"

definition ex_member :: "string \<Rightarrow> Node" where
  "ex_member n = \<lparr>Name = n, Meta = ex_ad, Addr = ''10.0.0.'' @ n\<rparr>"

definition ex_members :: "Node list" where "ex_members = [ex_member ''1'', ex_member ''2'']"

definition ex_server :: "GlobalScheduler \<Rightarrow> string schedulerServer" where
  "ex_server q = \<lparr>srv_queue = q, srv_eval = NewEvaluator, srv_sent = [], srv_fairshare = NewFairshareCalculator,
     srv_store = None, srv_cfg = DefaultConfig, srv_draining = False, srv_cb = newCircuitBreaker,
     srv_tracker = newGPUTracker, srv_pending = Map.empty, srv_logs = empty_logs, srv_timers = []\<rparr>"

definition ex_job :: "string \<Rightarrow> string \<Rightarrow> Job" where
  "ex_job jid gid = zero_job\<lparr>ID := jid, GroupID := gid, Requirement := ''true'', Command := ''run'', Priority := 10,
     GPUsRequired := 2, EnvVars := Some Map.empty\<rparr>"

definition ex_group :: JobGroup where
  "ex_group = \<lparr>gGroupID = ''g'', gJobIDs = [''g-r0'', ''g-r1''], gNumNodes = 2, gGPUsPerNode = 2, gMasterPort = 29500,
     gState = ''PENDING'', gCreatedAt = zero_time\<rparr>"

definition ex_single :: GlobalScheduler where
  "ex_single = exec (OpEnqueue (ex_job ''a'' [])) NewGlobalScheduler"

definition ex_gang :: GlobalScheduler where
  "ex_gang = exec (OpRegister ex_group)
     (exec (OpEnqueue (ex_job ''g-r1'' ''g'')) (exec (OpEnqueue (ex_job ''g-r0'' ''g'')) NewGlobalScheduler))"

subsection \<open>The example's members\<close>

lemma ex_json: "json_text ex_ad = Some (JObject [(''gpu_count'', JNumber ''2'')])"
  unfolding ex_ad_def by code_simp

lemma ex_Unmarshal: "Unmarshal_map ex_ad = ([''gpu_count'' \<mapsto> IFloat 2], False)"
proof -
  have "f64 2 = 2" "\<not> max_float_bound \<le> (2::rat)" "number_val ''2'' = 2" by code_simp+
  then show ?thesis by (simp add: Unmarshal_map_def ex_json)
qed

lemma ex_member_sel [simp]: "Name (ex_member n) = n" "Meta (ex_member n) = ex_ad" "ex_ad \<noteq> []"
  by (simp_all add: ex_member_def ex_ad_def)

lemma ex_member_ad [simp]: "member_ad (ex_member n) = [''gpu_count'' \<mapsto> IFloat 2]"
  by (simp add: member_ad_def ex_Unmarshal)

lemma ex_names: "distinct (map Name ex_members)" "\<forall>m\<in>set ex_members. Name m \<noteq> []"
  by (simp_all add: ex_members_def)

lemma ex_matches: "matches (match_spec ex_env ''true'' ex_ad)"
  by (simp add: match_spec_def compiled_def ex_env_def eval_ad_def ex_Unmarshal matches_def)

subsection \<open>The example's queues\<close>

lemma New_empty:
  "gs_inv NewGlobalScheduler" "table NewGlobalScheduler = Map.empty" "jobs NewGlobalScheduler = Map.empty"
  "MaxQueueSize NewGlobalScheduler = 0" "groups NewGlobalScheduler = Map.empty" "waiting NewGlobalScheduler = {#}"
  using NewGlobalScheduler_inv by (auto simp: NewGlobalScheduler_eq table_def waiting_def)

lemma ex_job_ID [simp]: "ID (ex_job jid gid) = jid"
  by (simp add: ex_job_def)

lemma ex_single_facts:
  "gs_inv ex_single" "table ex_single = [''a'' \<mapsto> noidx (ex_job ''a'' [])\<lparr>State := StateQueued\<rparr>]"
  "groups ex_single = Map.empty" "waiting ex_single = {#''a''#}"
proof -
  note e = exec_Enqueue_spec [OF New_empty(1), of "ex_job ''a'' []", folded ex_single_def]
  show "table ex_single = [''a'' \<mapsto> noidx (ex_job ''a'' [])\<lparr>State := StateQueued\<rparr>]"
    "groups ex_single = Map.empty" "waiting ex_single = {#''a''#}"
    using e by (simp_all add: New_empty)
  show "gs_inv ex_single" unfolding ex_single_def by (rule exec_inv) (simp_all add: New_empty)
qed

lemma ex_gang_facts:
  "gs_inv ex_gang" "groups ex_gang = [''g'' \<mapsto> ex_group]" "waiting ex_gang = {#''g-r0'', ''g-r1''#}"
  "table ex_gang = [''g-r0'' \<mapsto> noidx (ex_job ''g-r0'' ''g'')\<lparr>State := StateQueued\<rparr>,
     ''g-r1'' \<mapsto> noidx (ex_job ''g-r1'' ''g'')\<lparr>State := StateQueued\<rparr>]"
proof -
  define g0 where "g0 = exec (OpEnqueue (ex_job ''g-r0'' ''g'')) NewGlobalScheduler"
  define g1 where "g1 = exec (OpEnqueue (ex_job ''g-r1'' ''g'')) g0"
  note e0 = exec_Enqueue_spec [OF New_empty(1), of "ex_job ''g-r0'' ''g''", folded g0_def]
  have i0: "gs_inv g0" unfolding g0_def by (rule exec_inv) (simp_all add: New_empty)
  note e1 = exec_Enqueue_spec [OF i0, of "ex_job ''g-r1'' ''g''", folded g1_def]
  have i1: "gs_inv g1" unfolding g1_def by (rule exec_inv [OF i0]) (use e0 in \<open>simp add: New_empty\<close>)
  have g: "ex_gang = RegisterGroup g1 ex_group" by (simp add: ex_gang_def g0_def g1_def del: exec.simps(1))
  show "gs_inv ex_gang" using i1 by (simp add: g)
  show "groups ex_gang = [''g'' \<mapsto> ex_group]"
    using e0 e1 by (simp add: g RegisterGroup_def New_empty ex_group_def)
  show "waiting ex_gang = {#''g-r0'', ''g-r1''#}"
    using e0 e1 by (simp add: g New_empty add_mset_commute)
  show "table ex_gang = [''g-r0'' \<mapsto> noidx (ex_job ''g-r0'' ''g'')\<lparr>State := StateQueued\<rparr>,
     ''g-r1'' \<mapsto> noidx (ex_job ''g-r1'' ''g'')\<lparr>State := StateQueued\<rparr>]"
    using e0 e1 by (simp add: g New_empty)
qed

end
