(* ===== verification/Tick_Properties.thy ===== *)
theory Tick_Properties
  imports Master_Tick Master_Example
begin

text \<open>
  Gangs and whole ticks: what \<open>tryDispatchGroup\<close> and one tick of \<open>dispatchLoop\<close> achieve,
  and when a tick panics, starves or makes progress.
\<close>

subsection \<open>The ranks of a group\<close>

lemma GetJob_table:
  assumes "gs_inv gs"
  shows "GetJob gs jid = (None, False) \<and> table gs jid = None \<or>
    (\<exists>j. GetJob gs jid = (Some j, True) \<and> table gs jid = Some (noidx j) \<and> ID j = jid)"
  using gs_invD(4) [OF assms, of jid]
  by (auto simp: GetJob_def table_def Job_Copy_def split: option.splits)

definition is_queued :: "GlobalScheduler \<Rightarrow> string \<Rightarrow> bool" where
  "is_queued gs jid = (case table gs jid of None \<Rightarrow> False | Some j \<Rightarrow> State j = StateQueued)"

lemma queued_ranks_ids:
  assumes "gs_inv gs"
  shows "map ID (queued_ranks gs grp) = filter (is_queued gs) (gJobIDs grp)"
proof -
  have "map ID (concat (map (\<lambda>jid. case GetJob gs jid of
        (Some job, True) \<Rightarrow> if State job = StateQueued then [job] else [] | _ \<Rightarrow> []) jids)) = filter (is_queued gs) jids" for jids
  proof (induction jids)
    case (Cons jid jids)
    then show ?case using GetJob_table [OF assms, of jid] by (auto simp: is_queued_def)
  qed simp
  then show ?thesis by (simp add: queued_ranks_def)
qed

lemma queued_ranks_job:
  assumes "gs_inv gs" "j \<in> set (queued_ranks gs grp)"
  shows "table gs (ID j) = Some (noidx j)" "State j = StateQueued" "ID j \<in> set (gJobIDs grp)"
proof -
  obtain jid where "jid \<in> set (gJobIDs grp)" "GetJob gs jid = (Some j, True)" "State j = StateQueued"
    using assms(2) by (auto simp: queued_ranks_def split: prod.splits option.splits bool.splits if_splits)
  then show "table gs (ID j) = Some (noidx j)" "State j = StateQueued" "ID j \<in> set (gJobIDs grp)"
    using GetJob_table [OF assms(1), of jid] by auto
qed

lemma rank_ready_queued:
  assumes ok: "tick_ok c env now members cb0 gs0 sent0 srv"
    and demand: "demands c (table gs0)"
    and j: "table (srv_queue srv) (ID j) = Some (noidx j)" "State j = StateQueued"
    and m: "m \<in> set members" "suits env now cb0 m j" "canDispatchResources (srv_tracker srv) m j"
  shows "rank_ready c env now members cb0 gs0 srv j m"
proof -
  obtain j0 where "table gs0 (ID j) = Some j0" "static j0 = static j"
    using same_staticD [of "table gs0" "table (srv_queue srv)", OF _ j(1)] ok by (auto simp: tick_ok_def)
  then show ?thesis
    using j m demandsD [OF demand, of "ID j" j0] demand_static [of j0 j] static_sel(1) [of j0 j] by (auto simp: rank_ready_def active_def)
qed

text \<open>The members found for the ranks.\<close>

lemma match_group_ready:
  assumes ok: "tick_ok c env now members cb0 gs0 sent0 srv"
    and demand: "demands c (table gs0)"
    and m: "match_group env now members [] [] srv (queued_ranks (srv_queue srv) grp) = (Some ms, srv1)"
  shows "tick_ok c env now members cb0 gs0 sent0 srv1" "core_eq srv srv1"
    "length ms = length (queued_ranks (srv_queue srv) grp)" "distinct (map Name ms)"
    "\<forall>(j, m)\<in>set (zip (queued_ranks (srv_queue srv) grp) ms). rank_ready c env now members cb0 gs0 srv1 j m"
proof -
  let ?js = "queued_ranks (srv_queue srv) grp"
  have set: "settled env now cb0 srv" and inv: "gs_inv (srv_queue srv)" using ok by (auto simp: tick_ok_def)
  note s = match_group_spec [OF m set]
  show ok1: "tick_ok c env now members cb0 gs0 sent0 srv1" using tick_ok_core [OF ok] s by blast
  show c: "core_eq srv srv1" using s by blast
  have ms: "length ms = length ?js" "set ms \<subseteq> set members" "distinct (map Name ms)"
    "\<forall>(j, m)\<in>set (zip ?js ms). suits env now cb0 m j \<and> canDispatchResources (srv_tracker srv) m j"
    using s by auto
  then show "length ms = length ?js" "distinct (map Name ms)" by auto
  show "\<forall>(j, m)\<in>set (zip ?js ms). rank_ready c env now members cb0 gs0 srv1 j m"
  proof (clarify)
    fix j m assume jm: "(j, m) \<in> set (zip ?js ms)"
    then have "j \<in> set ?js" "m \<in> set members" using ms(2) by (auto dest: set_zip_leftD set_zip_rightD)
    then show "rank_ready c env now members cb0 gs0 srv1 j m"
      using queued_ranks_job [OF inv] ms(4) jm core_eq_sel [OF c]
      by (intro rank_ready_queued [OF ok1 demand]) auto
  qed
qed


text \<open>No scheduler operation removes a group.\<close>

lemma exec_group_kept:
  assumes inv: "gs_inv gs" and ok: "allowed gs op" and g: "groups gs gid \<noteq> None"
  shows "groups (exec op gs) gid \<noteq> None"
proof (cases op)
  case (OpEnqueue j)
  obtain h p where new: "new_job gs j = (h, p)" by fastforce
  note n = new_job_inv [OF inv new]
  have h: "groups h = groups gs" using new by (auto simp: new_job_def)
  show ?thesis
  proof (cases "Enqueue h p")
    case (Inr h')
    have "groups h' = groups h"
      using Enqueue_inv(4) [OF n(1,4,8) _ new_unreferenced [OF inv new] Inr] ok OpEnqueue n by simp
    then show ?thesis using OpEnqueue new Inr g h by simp
  qed (use OpEnqueue new h g in simp)
next
  case OpDequeue
  show ?thesis
  proof (cases "waiting gs = {#}")
    case False
    then show ?thesis
      using Dequeue_spec [OF inv False] same_jobs_fields(2) g OpDequeue by (metis exec.simps(2) prod.collapse)
  qed (use Dequeue_empty g OpDequeue in simp)
next
  case (OpBackfill P)
  obtain r h e where b: "Backfill (\<lambda>j e. (P (noidx j), e)) gs () = (r, h, e)" by (metis prod_cases3)
  have "groups h = groups gs"
    using Backfill_spec(2,3) [OF inv b] same_jobs_fields(2) by (cases r) auto
  then show ?thesis using OpBackfill b g by simp
next
  case (OpRemove jid)
  obtain r h where b: "RemoveByID gs jid = (r, h)" by fastforce
  then show ?thesis using RemoveByID_spec(2) [OF inv b] same_jobs_fields(2) g OpRemove by simp
next
  case (OpCancel now jid)
  obtain r k h where b: "Cancel now gs jid = (r, k, h)" by (metis prod_cases3)
  then show ?thesis
    using Cancel_inactive [of gs jid now] Cancel_active(4) [OF inv _ _ b] g OpCancel
    by (cases "table gs jid"; cases "active (the (table gs jid))") (auto simp: same_rest_def)
next
  case (OpRequeue jid inc)
  then show ?thesis
    using Requeue_unknown [of gs jid inc] Requeue_spec [OF inv, of jid _ inc] ok g
    by (cases "table gs jid") (fastforce simp: same_rest_def)+
next
  case (OpRunning now jid node)
  then show ?thesis
    using MarkRunning_unknown MarkRunning_spec(2) [OF inv _ _ refl] ok g
    by (cases "table gs jid") (auto simp: same_rest_def)
next
  case (OpRequeueRunning jid)
  obtain r k h where b: "RequeueRunningJob gs jid = (r, k, h)" by (metis prod_cases3)
  then show ?thesis
    using RequeueRunningJob_other [of gs jid] RequeueRunningJob_spec(4) [OF inv _ _ b] g OpRequeueRunning
    by (cases "table gs jid"; cases "State (the (table gs jid)) = StateRunning") (auto simp: same_rest_def)
next
  case (OpCompleted now jid s out err)
  then show ?thesis
    using MarkCompleted_unknown MarkCompleted_spec(2) [OF inv _ refl] g
    by (cases "table gs jid") (auto simp: same_rest_def)
next
  case (OpRegister gr)
  then show ?thesis using g by (simp add: RegisterGroup_def)
next
  case (OpGroupState i st)
  then show ?thesis using g by (simp add: SetGroupState_def split: option.split)
qed

lemma qsteps_group_kept: "qsteps adm f g \<Longrightarrow> gs_inv f \<Longrightarrow> groups f gid \<noteq> None \<Longrightarrow> groups g gid \<noteq> None"
proof (induction rule: qsteps.induct)
  case (more f g op)
  then show ?case using exec_group_kept qsteps_inv by blast
qed simp


subsection \<open>One gang\<close>

lemma SetGroupState_tick:
  "tick_ok c env now members cb0 gs0 sent0 srv \<Longrightarrow>
     tick_ok c env now members cb0 gs0 sent0 (srv\<lparr>srv_queue := SetGroupState (srv_queue srv) gid st\<rparr>)"
  by (rule tick_ok_set_queue [where op = "OpGroupState gid st"]) auto

lemma tryDispatchGroup_cases:
  assumes ok: "tick_ok c env now members cb0 gs0 sent0 srv" and names: "c \<longrightarrow> distinct (map Name members)"
    and demand: "demands c (table gs0)"
    and r: "tryDispatchGroup env now members srv grp = Some srv'"
  shows "tick_ok c env now members cb0 gs0 sent0 srv' \<and>
    (srv_sent srv' = srv_sent srv \<and> srv_queue srv' = srv_queue srv \<or>
     (let ranks = map ID (queued_ranks (srv_queue srv) grp) in
       int (length ranks) = gNumNodes grp \<and>
       (\<exists>new. srv_sent srv' = srv_sent srv @ new \<and> map JobID new = ranks \<and> distinct (map TargetNode new)) \<and>
       (\<forall>jid\<in>set ranks. \<exists>j. table (srv_queue srv') jid = Some j \<and> State j = StateRunning) \<and>
       (\<exists>q. srv_queue srv' = SetGroupState q (gGroupID grp) ''RUNNING'' \<and> gs_inv q \<and> qsteps False gs0 q)))"
proof -
  let ?js = "queued_ranks (srv_queue srv) grp"
  have inv: "gs_inv (srv_queue srv)" and set: "settled env now cb0 srv" using ok by (auto simp: tick_ok_def)
  show ?thesis
  proof (cases "int (length ?js) = gNumNodes grp")
    case False
    then show ?thesis using r ok by (simp add: tryDispatchGroup_def)
  next
    case True
    obtain mo srv1 where m: "match_group env now members [] [] srv ?js = (mo, srv1)" by fastforce
    show ?thesis
    proof (cases mo)
      case None
      have c: "core_eq srv srv1" "settled env now cb0 srv1" using match_group_spec [OF m set] by auto
      have "srv' = srv1" using r m None True by (simp add: tryDispatchGroup_def)
      then show ?thesis using tick_ok_core [OF ok c] core_eq_sel(1,2) [OF c(1)] by simp
    next
      case (Some ms)
      note mr = match_group_ready [OF ok demand m [unfolded Some]]
      obtain m0 rest where ms: "ms = m0 # rest" using r m Some True by (cases ms) (auto simp: tryDispatchGroup_def)
      obtain srv2 where d: "dispatch_ranks now members (Addr m0) srv1 0 (zip ?js ms) = Some srv2"
        "srv' = srv2\<lparr>srv_queue := SetGroupState (srv_queue srv2) (gGroupID grp) ''RUNNING''\<rparr>"
        using r m Some True ms by (auto simp: tryDispatchGroup_def split: option.splits)
      have zn: "map (\<lambda>x. Name (snd x)) (zip ?js ms) = map Name ms" "map (\<lambda>x. ID (fst x)) (zip ?js ms) = map ID ?js"
        using mr(3) by (simp_all add: map_zip_map map_zip_map2 map_snd_zip map_fst_zip comp_def
            flip: map_map [of Name snd, unfolded comp_def] map_map [of ID fst, unfolded comp_def])
      note dr = dispatch_ranks_ok [OF mr(1) names mr(5) _ d(1), unfolded zn]
      have q1: "srv_queue srv1 = srv_queue srv" "srv_sent srv1 = srv_sent srv" using core_eq_sel [OF mr(2)] by auto
      have t: "\<exists>j. table (srv_queue srv') jid = Some j \<and> State j = StateRunning" if jid: "jid \<in> set (map ID ?js)" for jid
      proof -
        obtain j where "j \<in> set ?js" "jid = ID j" using jid by auto
        then have "table (srv_queue srv) jid = Some (noidx j)" using queued_ranks_job(1) [OF inv] by simp
        moreover have "table (srv_queue srv') = table (srv_queue srv2)"
          by (simp add: d(2))
        ultimately show ?thesis using dr mr(4) jid q1(1) by auto
      qed
      have ok2: "tick_ok c env now members cb0 gs0 sent0 srv2" using dr mr(4) by auto
      obtain new where new: "srv_sent srv2 = srv_sent srv1 @ new" "map TargetNode new = map Name ms" "map JobID new = map ID ?js"
        using dr mr(4) by auto
      have "tick_ok c env now members cb0 gs0 sent0 srv'" unfolding d(2) by (rule SetGroupState_tick [OF ok2])
      moreover have "gs_inv (srv_queue srv2)" "qsteps False gs0 (srv_queue srv2)" using ok2 by (auto simp: tick_ok_def)
      ultimately show ?thesis
        using True new mr(4) q1 t by (auto simp: Let_def d(2))
    qed
  qed
qed

lemma tick_ok_start:
  "gs_inv (srv_queue srv) \<Longrightarrow> cache_ok env (srv_eval srv) \<Longrightarrow> (c \<longrightarrow> all_capped (srv_tracker srv) members) \<Longrightarrow>
     tick_ok c env now members (srv_cb srv) (srv_queue srv) (srv_sent srv) srv"
  by (simp add: tick_ok_def settled_def qsteps.none)

subsection \<open>The phase of the gangs\<close>

lemma cancel_ranks_ok:
  "tick_ok c env now members cb0 gs0 sent0 srv \<Longrightarrow> tick_ok c env now members cb0 gs0 sent0 (cancel_ranks t msg srv jids)"
proof (induction jids arbitrary: srv)
  case (Cons jid jids)
  have "tick_ok c env now members cb0 gs0 sent0 (srv\<lparr>srv_queue := snd (snd (Cancel t (srv_queue srv) jid))\<rparr>)"
    by (rule tick_ok_set_queue [OF Cons.prems, of _ "OpCancel t jid"]) auto
  then show ?case using Cons.IH by simp
qed simp

lemma gang_phase_ok:
  assumes "tick_ok c env now members cb0 gs0 sent0 srv" "c \<longrightarrow> distinct (map Name members)"
    "demands c (table gs0)" "gang_phase env now members srv grps = Some srv'"
  shows "tick_ok c env now members cb0 gs0 sent0 srv'"
  using assms(1,4)
proof (induction grps arbitrary: srv)
  case (Cons g grps)
  show ?case
  proof (cases "gCreatedAt g \<noteq> zero_time \<and> gangTimeout < time_Sub now (gCreatedAt g)")
    case True
    then show ?thesis
      using Cons.IH [OF SetGroupState_tick [OF cancel_ranks_ok [OF Cons.prems(1)]]] Cons.prems(2) by (simp add: Let_def)
  next
    case False
    then obtain s1 where s1: "tryDispatchGroup env now members srv g = Some s1" "gang_phase env now members s1 grps = Some srv'"
      using Cons.prems(2) by (auto split: option.splits)
    then show ?thesis using Cons.IH tryDispatchGroup_cases [OF Cons.prems(1) assms(2,3) s1(1)] by blast
  qed
qed simp

lemma dispatch_tick_ok:
  assumes "gs_inv (srv_queue srv)" "cache_ok env (srv_eval srv)" "c \<longrightarrow> all_capped (srv_tracker srv) members"
    "c \<longrightarrow> distinct (map Name members)" "demands c (table (srv_queue srv))"
    "dispatch_tick env now members order srv = Some srv'"
  shows "tick_ok c env now members (srv_cb srv) (srv_queue srv) (srv_sent srv) srv'"
proof -
  obtain s1 where s1: "gang_phase env now members srv (PendingGroups order (srv_queue srv)) = Some s1"
    "srv' = single_phases env now members s1"
    using assms(6) by (auto simp: dispatch_tick_def split: option.splits)
  show ?thesis unfolding s1(2)
    by (rule single_phases_ok [OF gang_phase_ok [OF tick_ok_start [OF assms(1-3)] assms(4,5) s1(1)] assms(4,5)])
qed


subsection \<open>A tick is total\<close>

text \<open>A group whose ranks can be launched: it has a rank, and every rank has an environment.\<close>

definition launchable :: "GlobalScheduler \<Rightarrow> JobGroup \<Rightarrow> bool" where
  "launchable gs grp \<longleftrightarrow> 1 \<le> gNumNodes grp \<and>
     (\<forall>jid\<in>set (gJobIDs grp). \<forall>j. table gs jid = Some j \<longrightarrow> EnvVars j \<noteq> None)"

lemma launchable_static: "same_static (table gs) (table gs') \<Longrightarrow> launchable gs grp \<Longrightarrow> launchable gs' grp"
  unfolding launchable_def by (metis same_staticD static_sel(6))

lemma dispatch_ranks_total:
  "\<forall>(j, m)\<in>set jms. EnvVars j \<noteq> None \<Longrightarrow> \<exists>srv'. dispatch_ranks now members addr srv i jms = Some srv'"
  by (induction jms arbitrary: srv i) (auto simp: Let_def)

lemma tryDispatchGroup_total:
  assumes ok: "tick_ok c env now members cb0 gs0 sent0 srv" and d: "demands c (table gs0)"
    and l: "launchable gs0 grp"
  shows "\<exists>srv'. tryDispatchGroup env now members srv grp = Some srv'"
proof -
  let ?js = "queued_ranks (srv_queue srv) grp"
  have inv: "gs_inv (srv_queue srv)" using ok by (simp add: tick_ok_def)
  have l': "launchable (srv_queue srv) grp" using launchable_static [OF _ l] ok by (simp add: tick_ok_def)
  obtain mo srv1 where m: "match_group env now members [] [] srv ?js = (mo, srv1)" by fastforce
  show ?thesis
  proof (cases mo)
    case (Some ms)
    note mr = match_group_ready [OF ok d m [unfolded Some]]
    have "EnvVars j \<noteq> None" if "j \<in> set ?js" for j
    proof -
      have "EnvVars (noidx j) \<noteq> None" using queued_ranks_job [OF inv that] l' unfolding launchable_def by blast
      then show ?thesis by (simp add: noidx_def)
    qed
    then have env: "\<forall>(j, m)\<in>set (zip ?js ms). EnvVars j \<noteq> None" by (auto dest: set_zip_leftD)
    show ?thesis
    proof (cases "int (length ?js) = gNumNodes grp")
      case True
      then have "1 \<le> length ms" using mr(3) l by (simp add: launchable_def)
      then obtain m0 rest where ms: "ms = m0 # rest" by (cases ms) auto
      obtain srv2 where "dispatch_ranks now members (Addr m0) srv1 0 (zip ?js ms) = Some srv2"
        using dispatch_ranks_total [OF env] by blast
      then show ?thesis using m Some True ms by (simp add: tryDispatchGroup_def)
    qed (simp add: tryDispatchGroup_def)
  qed (use m in \<open>simp add: tryDispatchGroup_def Let_def\<close>)
qed

lemma gang_phase_total:
  assumes "tick_ok c env now members cb0 gs0 sent0 srv" "c \<longrightarrow> distinct (map Name members)" "demands c (table gs0)"
    "\<forall>g\<in>set grps. launchable gs0 g"
  shows "\<exists>srv'. gang_phase env now members srv grps = Some srv'"
  using assms(1,4)
proof (induction grps arbitrary: srv)
  case (Cons g grps)
  show ?case
  proof (cases "gCreatedAt g \<noteq> zero_time \<and> gangTimeout < time_Sub now (gCreatedAt g)")
    case True
    then show ?thesis
      using Cons.IH [OF SetGroupState_tick [OF cancel_ranks_ok [OF Cons.prems(1)]]] Cons.prems(2) by (simp add: Let_def)
  next
    case False
    obtain s1 where s1: "tryDispatchGroup env now members srv g = Some s1"
      using tryDispatchGroup_total [OF Cons.prems(1) assms(3)] Cons.prems(2) by auto
    have "tick_ok c env now members cb0 gs0 sent0 s1"
      using tryDispatchGroup_cases [OF Cons.prems(1) assms(2,3) s1] by blast
    then show ?thesis using Cons.IH Cons.prems(2) s1 False by auto
  qed
qed simp

lemma PendingGroups_ran: "g \<in> set (PendingGroups order gs) \<Longrightarrow> g \<in> ran (groups gs)"
  by (auto simp: PendingGroups_def ran_def split: option.splits if_splits)

lemma dispatch_tick_total:
  assumes "gs_inv (srv_queue srv)" "cache_ok env (srv_eval srv)"
    "\<forall>grp\<in>ran (groups (srv_queue srv)). launchable (srv_queue srv) grp"
  shows "\<exists>srv'. dispatch_tick env now members order srv = Some srv'"
proof -
  have ok: "tick_ok False env now members (srv_cb srv) (srv_queue srv) (srv_sent srv) srv"
    by (rule tick_ok_start) (use assms in auto)
  have "\<exists>srv1. gang_phase env now members srv (PendingGroups order (srv_queue srv)) = Some srv1"
    by (rule gang_phase_total [OF ok]) (use assms(3) PendingGroups_ran in \<open>auto simp: demands_def\<close>)
  then show ?thesis by (auto simp: dispatch_tick_def)
qed

subsection \<open>Progress\<close>

lemma try_member_suits:
  assumes "settled env now cb0 srv" "suits env now cb0 m job" "canDispatchResources (srv_tracker srv) m job"
  shows "fst (try_member env now srv m job)"
  using assms cb_equiv_query [of now cb0 "srv_cb srv" "Name m"] Match_spec [of env "srv_eval srv" "Requirement job" "Meta m"]
  by (auto simp: try_member_def suits_def settled_def Let_def split: prod.splits if_splits)

lemma select_node_found:
  assumes "settled env now cb0 srv" "m \<in> set ms" "suits env now cb0 m job" "canDispatchResources (srv_tracker srv) m job"
    "\<forall>m\<in>set ms. Name m \<noteq> []"
  shows "fst (select_node env now ms srv job) \<noteq> []"
  using assms
proof (induction ms arbitrary: srv)
  case (Cons n ms)
  obtain ok s1 where t: "try_member env now srv n job = (ok, s1)" by fastforce
  note s = try_member_spec [OF t Cons.prems(1)]
  show ?case
  proof (cases ok)
    case True
    then show ?thesis using t Cons.prems(5) by simp
  next
    case False
    then have "n \<noteq> m" using t try_member_suits [OF Cons.prems(1,3,4)] by auto
    then have "fst (select_node env now ms s1 job) \<noteq> []"
      using Cons.prems core_eq_sel(3) [OF s(1)] by (intro Cons.IH [OF s(2)]) auto
    then show ?thesis using t False by simp
  qed
qed simp


subsection \<open>The example meets the hypotheses\<close>

lemma ex_server_sel [simp]:
  "srv_queue (ex_server q) = q" "srv_eval (ex_server q) = NewEvaluator" "srv_sent (ex_server q) = []"
  "srv_tracker (ex_server q) = newGPUTracker" "srv_cb (ex_server q) = newCircuitBreaker"
  by (simp_all add: ex_server_def)

lemma ex_capped: "all_capped newGPUTracker members"
  by (simp add: all_capped_def capped_def newGPUTracker_def used_defs)

lemma ex_not_blocked: "\<not> fst (IsBlocked now newCircuitBreaker n)"
  by (simp add: IsBlocked_def newCircuitBreaker_def)

lemma ex_demand: "table ex_gang jid = Some j \<Longrightarrow> demand_ok j"
  by (auto simp: ex_gang_facts demand_ok_def ex_job_def zero_job_def noidx_def split: if_splits)

lemma ex_launchable: "grp \<in> ran (groups ex_gang) \<Longrightarrow> launchable ex_gang grp"
  by (auto simp: ex_gang_facts launchable_def ex_group_def ex_job_def noidx_def split: if_splits)

lemma ex_gang_ticks: "\<exists>srv'. dispatch_tick ex_env now members order (ex_server ex_gang) = Some srv'"
  by (rule dispatch_tick_total) (auto simp: ex_gang_facts(1) cache_ok_new ex_launchable)

lemma ex_single_head:
  "\<exists>j. Peek ex_single = Some j \<and> ID j = ''a'' \<and> GroupID j = [] \<and> Requirement j = ''true'' \<and> GPUsRequired j = 2 \<and>
     CPUsRequired j = 0 \<and> MemoryRequiredMB j = 0"
proof -
  have q: "queue ex_single = [0]" by code_simp
  have "ID (mem ex_single 0) = ''a'' \<and> GroupID (mem ex_single 0) = [] \<and> Requirement (mem ex_single 0) = ''true'' \<and>
      GPUsRequired (mem ex_single 0) = 2 \<and> CPUsRequired (mem ex_single 0) = 0 \<and> MemoryRequiredMB (mem ex_single 0) = 0"
    by code_simp
  then show ?thesis using q by (simp add: Peek_def JobQueue_Len_def Job_Copy_def)
qed

lemma ex_can: "GPUsRequired j = 2 \<Longrightarrow> CPUsRequired j = 0 \<Longrightarrow> MemoryRequiredMB j = 0 \<Longrightarrow>
    canDispatchResources newGPUTracker (ex_member n) j"
proof -
  have "f64_to_int 2 = 2" by code_simp
  then show "GPUsRequired j = 2 \<Longrightarrow> CPUsRequired j = 0 \<Longrightarrow> MemoryRequiredMB j = 0 \<Longrightarrow> ?thesis"
    by (simp add: canDispatchResources_def Let_def as_float_def AvailableGPUs_def newGPUTracker_def i64_def)
qed

end
