(* ===== verification/Dispatch_Properties.thy ===== *)
theory Dispatch_Properties
  imports Tick_Properties
begin

text \<open>
  The properties of dispatching: capacity, placement, gangs, absence of panics, progress
  of the head of the queue, and the head that blocks everything.
\<close>

text \<open>
  C15. No oversubscription: if the counters of the resource tracker do not exceed any
  member's advertised GPUs, cores and memory before a tick of the dispatch loop, they do
  not after it, whatever gangs and single jobs the tick dispatches. (Member names are
  distinct, and no job asks for a negative amount.)
\<close>

theorem tick_no_oversubscription:
  assumes "gs_inv (srv_queue srv)" "cache_ok env (srv_eval srv)" "distinct (map Name members)"
    and "\<forall>jid j. table (srv_queue srv) jid = Some j \<longrightarrow> demand_ok j"
    and "all_capped (srv_tracker srv) members"
    and "dispatch_tick env now members order srv = Some srv'"
  shows "all_capped (srv_tracker srv') members"
proof -
  have "tick_ok True env now members (srv_cb srv) (srv_queue srv) (srv_sent srv) srv'"
    by (rule dispatch_tick_ok) (use assms in \<open>auto simp: demands_def\<close>)
  then show ?thesis by (simp add: tick_ok_def)
qed

theorem tick_no_oversubscription_witness:
  "\<exists>srv'. dispatch_tick ex_env 0 ex_members [''g''] (ex_server ex_gang) = Some srv' \<and>
     all_capped (srv_tracker srv') ex_members"
  using tick_no_oversubscription [of "ex_server ex_gang" ex_env ex_members 0 "[''g'']"] ex_gang_ticks
  by (metis cache_ok_new ex_capped ex_demand ex_gang_facts(1) ex_names(1) ex_server_sel(1,2,4))

text \<open>
  C16. Placement: every message a tick sends is an execute order for a job of the table to
  a member that has an advertisement, is not blocked by the circuit breaker and satisfies
  the job's requirement expression, as evaluated afresh, without the expression cache.
\<close>

theorem tick_places_well:
  assumes "gs_inv (srv_queue srv)" "cache_ok env (srv_eval srv)"
    and "dispatch_tick env now members order srv = Some srv'"
  shows "\<exists>new. srv_sent srv' = srv_sent srv @ new \<and> (\<forall>p\<in>set new. Action p = ''execute'' \<and>
    (\<exists>m\<in>set members. TargetNode p = Name m \<and> Meta m \<noteq> [] \<and> \<not> fst (IsBlocked now (srv_cb srv) (Name m)) \<and>
      (\<exists>j. table (srv_queue srv) (JobID p) = Some j \<and> matches (match_spec env (Requirement j) (Meta m)))))"
proof -
  have "tick_ok False env now members (srv_cb srv) (srv_queue srv) (srv_sent srv) srv'"
    by (rule dispatch_tick_ok) (use assms in \<open>auto simp: demands_def\<close>)
  then show ?thesis unfolding tick_ok_def placed_well_def suits_def by blast
qed

theorem tick_places_well_witness:
  "\<exists>srv'. dispatch_tick ex_env 0 ex_members [''g''] (ex_server ex_gang) = Some srv' \<and>
     list_all (\<lambda>p. Action p = ''execute'' \<and> TargetNode p \<in> {''1'', ''2''}) (srv_sent srv')"
proof -
  obtain srv' where s: "dispatch_tick ex_env 0 ex_members [''g''] (ex_server ex_gang) = Some srv'"
    using ex_gang_ticks by blast
  then show ?thesis
    using tick_places_well [of "ex_server ex_gang" ex_env 0 ex_members "[''g'']" srv'] ex_gang_facts(1)
    by (auto simp: cache_ok_new list_all_iff ex_members_def)
qed

text \<open>
  C17. Gangs are dispatched as a whole or not at all: either a dispatch attempt for a group
  sends nothing and leaves the scheduler as it is, or the number of its queued ranks is
  the number of nodes it needs, each rank is sent to a member of its own, in rank order,
  all of them are running and the group is running.
\<close>

theorem gang_all_or_nothing:
  assumes "gs_inv (srv_queue srv)" "cache_ok env (srv_eval srv)" "groups (srv_queue srv) (gGroupID grp) \<noteq> None"
    and "tryDispatchGroup env now members srv grp = Some srv'"
  shows "srv_sent srv' = srv_sent srv \<and> srv_queue srv' = srv_queue srv \<or>
    (let ranks = filter (is_queued (srv_queue srv)) (gJobIDs grp) in
      int (length ranks) = gNumNodes grp \<and>
      (\<exists>new. srv_sent srv' = srv_sent srv @ new \<and> map JobID new = ranks \<and> distinct (map TargetNode new)) \<and>
      (\<forall>jid\<in>set ranks. \<exists>j. table (srv_queue srv') jid = Some j \<and> State j = StateRunning) \<and>
      (\<exists>g. groups (srv_queue srv') (gGroupID grp) = Some g \<and> gState g = GroupRunning))"
proof -
  have ok: "tick_ok False env now members (srv_cb srv) (srv_queue srv) (srv_sent srv) srv"
    by (rule tick_ok_start) (use assms in auto)
  have "\<exists>g. groups (SetGroupState q (gGroupID grp) ''RUNNING'') (gGroupID grp) = Some g \<and> gState g = GroupRunning"
    if "qsteps False (srv_queue srv) q" for q
    using qsteps_group_kept [OF that assms(1,3)]
    by (auto simp: SetGroupState_def GroupRunning_def split: option.split)
  then show ?thesis
    using tryDispatchGroup_cases [OF ok _ _ assms(4)]
    unfolding queued_ranks_ids [OF assms(1)] by (auto simp: Let_def demands_def)
qed

theorem gang_all_or_nothing_witness:
  "\<exists>srv'. tryDispatchGroup ex_env 0 ex_members (ex_server ex_gang) ex_group = Some srv' \<and>
     map JobID (srv_sent srv') \<in> {[], [''g-r0'', ''g-r1'']}"
proof -
  have "tick_ok False ex_env 0 ex_members newCircuitBreaker ex_gang [] (ex_server ex_gang)"
    using tick_ok_start [of "ex_server ex_gang" ex_env False ex_members 0] ex_gang_facts(1) by (simp add: cache_ok_new)
  then obtain srv' where s: "tryDispatchGroup ex_env 0 ex_members (ex_server ex_gang) ex_group = Some srv'"
    using tryDispatchGroup_total [of False] ex_launchable [of ex_group] by (fastforce simp: demands_def ex_gang_facts(2))
  have "filter (is_queued ex_gang) (gJobIDs ex_group) = [''g-r0'', ''g-r1'']"
    by (simp add: is_queued_def ex_gang_facts ex_group_def)
  then show ?thesis
    using gang_all_or_nothing [of "ex_server ex_gang" ex_env ex_group 0 ex_members srv'] s ex_gang_facts(1,2)
    by (auto simp: cache_ok_new ex_group_def Let_def)
qed

text \<open>
  C19. No panic: when every registered group has at least one rank and every rank an
  environment, as \<open>SubmitDistributedJob\<close> makes them, a tick completes.
\<close>

theorem tick_never_panics:
  assumes "gs_inv (srv_queue srv)" "cache_ok env (srv_eval srv)"
    and "\<forall>grp\<in>ran (groups (srv_queue srv)). launchable (srv_queue srv) grp"
  shows "\<exists>srv'. dispatch_tick env now members order srv = Some srv'"
  by (rule dispatch_tick_total) (use assms in auto)

theorem tick_never_panics_witness:
  "\<exists>srv'. dispatch_tick ex_env 0 ex_members [''g''] (ex_server ex_gang) = Some srv'"
  by (rule tick_never_panics) (auto simp: ex_gang_facts(1) cache_ok_new ex_launchable)

lemma Peek_table:
  assumes "gs_inv gs" "Peek gs = Some jh"
  shows "table gs (ID jh) = Some (noidx jh)"
proof -
  have ne: "waiting gs \<noteq> {#}" using assms(2) by (auto simp: Peek_def JobQueue_Len_def waiting_def split: if_splits)
  obtain r q where "Dequeue gs = (r, q)" by fastforce
  then obtain j where "table gs (ID j) = Some (noidx j)" "noidx jh = noidx j"
    using Dequeue_spec [OF assms(1) ne] assms(2) by fastforce
  then show ?thesis using noidx_eqD(1) by metis
qed

lemma tick_dispatches_head:
  assumes inv: "gs_inv (srv_queue srv)" and c: "cache_ok env (srv_eval srv)"
    and gangs: "PendingGroups order (srv_queue srv) = []"
    and head: "Peek (srv_queue srv) = Some jh" "GroupID jh = []"
    and m: "m \<in> set members" "suits env now (srv_cb srv) m jh" "canDispatchResources (srv_tracker srv) m jh"
    and names: "\<forall>m\<in>set members. Name m \<noteq> []"
  obtains n j s1 q where
    "dispatch_tick env now members order srv = Some (dispatchJob now members (s1\<lparr>srv_queue := q\<rparr>) j n)"
    "core_eq srv s1" "n \<in> Name ` set members" "noidx jh = noidx j" "gs_inv q" "table q = table (srv_queue srv)"
    "waiting (srv_queue srv) = add_mset (ID j) (waiting q)" "ID j \<notin># waiting q"
proof -
  have set: "settled env now (srv_cb srv) srv" using c by (simp add: settled_def)
  obtain n s1 where sel: "select_node env now members srv jh = (n, s1)" by fastforce
  have n: "n \<noteq> []" using select_node_found [OF set m names] sel by simp
  note s = select_node_spec [OF sel set]
  have q1: "srv_queue s1 = srv_queue srv" using s core_eq_sel by blast
  obtain r q where d: "Dequeue (srv_queue srv) = (r, q)" by fastforce
  have ne: "waiting (srv_queue srv) \<noteq> {#}"
    using head by (auto simp: Peek_def JobQueue_Len_def waiting_def split: if_splits)
  obtain j where j: "r = Some j" "gs_inv q" "same_jobs (srv_queue srv) q"
    "waiting (srv_queue srv) = add_mset (ID j) (waiting q)" "noidx jh = noidx j"
    using Dequeue_spec [OF inv ne d] head by auto
  show thesis
  proof (rule that)
    show "dispatch_tick env now members order srv = Some (dispatchJob now members (s1\<lparr>srv_queue := q\<rparr>) j n)"
      using gangs head sel n d j(1) q1 by (simp add: dispatch_tick_def single_phases_def)
    show "n \<in> Name ` set members" using s n by auto
  qed (use s j table_same_jobs [OF j(3)] not_waiting_after [OF inv j(4)] in auto)
qed

text \<open>
  Progress: when no gang is pending, the job at the head of the queue is not part of a
  gang and some member suits it and has the resources, the tick dispatches exactly the
  head: one message is sent, and the job is running on a member.
\<close>

theorem tick_progress:
  assumes inv: "gs_inv (srv_queue srv)" and c: "cache_ok env (srv_eval srv)"
    and gangs: "PendingGroups order (srv_queue srv) = []"
    and head: "Peek (srv_queue srv) = Some jh" "GroupID jh = []"
    and m: "m \<in> set members" "suits env now (srv_cb srv) m jh" "canDispatchResources (srv_tracker srv) m jh"
    and names: "\<forall>m\<in>set members. Name m \<noteq> []"
  shows "\<exists>srv' n j. dispatch_tick env now members order srv = Some srv' \<and> n \<in> Name ` set members \<and>
    map (\<lambda>p. (JobID p, TargetNode p)) (srv_sent srv') = map (\<lambda>p. (JobID p, TargetNode p)) (srv_sent srv) @ [(ID jh, n)] \<and>
    table (srv_queue srv') (ID jh) = Some j \<and> State j = StateRunning \<and> WorkerNode j = n \<and>
    waiting (srv_queue srv') = waiting (srv_queue srv) - {#ID jh#}"
proof -
  obtain n j s1 q where d: "dispatch_tick env now members order srv = Some (dispatchJob now members (s1\<lparr>srv_queue := q\<rparr>) j n)"
    "core_eq srv s1" "n \<in> Name ` set members" "noidx jh = noidx j" "gs_inv q" "table q = table (srv_queue srv)"
    "waiting (srv_queue srv) = add_mset (ID j) (waiting q)" "ID j \<notin># waiting q"
    by (rule tick_dispatches_head [OF inv c gangs head m names])
  have id: "ID jh = ID j" using d(4) by (rule noidx_eqD(1))
  let ?srv' = "dispatchJob now members (s1\<lparr>srv_queue := q\<rparr>) j n"
  have "map (\<lambda>p. (JobID p, TargetNode p)) (srv_sent ?srv') =
      map (\<lambda>p. (JobID p, TargetNode p)) (srv_sent srv) @ [(ID jh, n)]"
    using dispatchJob_sent [of now members "s1\<lparr>srv_queue := q\<rparr>" j n] core_eq_sel(2) [OF d(2)] id by auto
  moreover have "table q (ID j) = Some (noidx j)" using Peek_table [OF inv head(1)] d(4,6) id by simp
  note mr = MarkRunning_spec(3,4) [OF d(5) this d(8) refl, of now n]
  have "table (srv_queue ?srv') (ID jh) = Some ((noidx j)\<lparr>State := StateRunning, WorkerNode := n, StartTime := now\<rparr>)"
    "waiting (srv_queue ?srv') = waiting (srv_queue srv) - {#ID jh#}"
    using mr id d(7) by simp_all
  ultimately show ?thesis using d(1,3) by fastforce
qed

theorem tick_progress_witness:
  "\<exists>srv'. dispatch_tick ex_env 0 ex_members [] (ex_server ex_single) = Some srv' \<and>
     map JobID (srv_sent srv') = [''a'']"
proof -
  obtain j where j: "Peek ex_single = Some j" "ID j = ''a''" "GroupID j = []" "Requirement j = ''true''"
    "GPUsRequired j = 2" "CPUsRequired j = 0" "MemoryRequiredMB j = 0"
    using ex_single_head by blast
  have p: "PendingGroups [] ex_single = []" by (simp add: PendingGroups_def)
  have "suits ex_env 0 newCircuitBreaker (ex_member ''1'') j"
    using j ex_matches ex_not_blocked by (simp add: suits_def)
  then show ?thesis
    using tick_progress [of "ex_server ex_single" ex_env "[]" j "ex_member ''1''" ex_members 0]
      j p ex_single_facts(1) ex_can [of j "''1''"] ex_names(2)
    by (fastforce simp: cache_ok_new ex_members_def)
qed




end
