(* ===== verification/Master_Runs.thy ===== *)
theory Master_Runs
  imports Dispatch_Properties Master_Loops
begin

text \<open>
  Runs of the whole master. Every handler and every tick is a run of scheduler operations;
  \<open>master_step\<close> collects them, \<open>master_reach\<close> the states a master reaches from its start.
\<close>

subsection \<open>Handlers as runs of scheduler operations\<close>

lemma exec_Enqueue_jobs:
  assumes inv: "gs_inv gs" and fresh: "jobs gs (ID j) = None" and ne: "jid \<noteq> ID j"
  shows "jobs (exec (OpEnqueue j) gs) jid = jobs gs jid"
proof (cases "0 < MaxQueueSize gs \<and> MaxQueueSize gs \<le> int (size (waiting gs))")
  case False
  then show ?thesis using exec_Enqueue_spec(5) [OF inv fresh] ne by simp
next
  case True
  obtain g p where new: "new_job gs j = (g, p)" by fastforce
  have g: "MaxQueueSize g = MaxQueueSize gs" "jobs g = jobs gs" "queue g = queue gs"
    using new by (auto simp: new_job_def)
  then show ?thesis using new True by (simp add: Enqueue_def)
qed

lemma qsteps_Enqueue: "qsteps True f g \<Longrightarrow> jobs g (ID j) = None \<Longrightarrow> qsteps True f (exec (OpEnqueue j) g)"
  using qsteps.more [of True f g "OpEnqueue j"] by simp

text \<open>The job of an accepted submission.\<close>

definition submission :: "Time \<Rightarrow> string \<Rightarrow> 'prg schedulerServer \<Rightarrow> SubmitJobRequest \<Rightarrow> Job" where
  "submission now uuid srv req =
     zero_job\<lparr>ID := take 8 uuid, Requirement := sjCelRequirement req, Command := sjCommand req, SubmitTime := now,
       Priority := i64 ((if sint (sjPriority req) = 0 then 10 else sint (sjPriority req))
         + CalculatePenalty (srv_fairshare srv) (if sjUser req = [] then ''anonymous'' else sjUser req)),
       User := (if sjUser req = [] then ''anonymous'' else sjUser req),
       WalltimeSeconds := sint (sjWalltimeSeconds req), GPUsRequired := sint (sjGpusRequired req),
       CPUsRequired := fst (parseCELRequirement (sjCelRequirement req)),
       MemoryRequiredMB := snd (parseCELRequirement (sjCelRequirement req)),
       EnvVars := sjEnvVars req, MaxRetries := cfgMaxRetries (srv_cfg srv)\<rparr>"

lemma submission_ID [simp]: "ID (submission now uuid srv req) = take 8 uuid"
  by (simp add: submission_def)

lemma SubmitJob_draining: "srv_draining srv \<Longrightarrow>
    SubmitJob now uuid srv req = (Inl (Unavailable ''master is draining, not accepting new jobs''), srv)"
  by (simp add: SubmitJob_def)

lemma SubmitJob_eq:
  assumes "\<not> srv_draining srv"
  shows "\<exists>msg. SubmitJob now uuid srv req =
    (let r = submit_job (submission now uuid srv req) srv
     in case fst r of
         Some e \<Rightarrow> (Inl (ResourceExhausted (''queue full: '' @ sched_error_text e)), snd r)
       | None \<Rightarrow> (Inr (take 8 uuid, ''QUEUED''), srv_log now (take 8 uuid) ''INFO'' msg (snd r)))"
  unfolding SubmitJob_def Let_def submission_def case_prod_beta if_not_P [OF assms]
  by (rule exI) (rule refl)

lemma SubmitJob_result:
  assumes "\<not> srv_draining srv"
  shows "fst (SubmitJob now uuid srv req) =
      (case fst (submit_job (submission now uuid srv req) srv) of
         Some e \<Rightarrow> Inl (ResourceExhausted (''queue full: '' @ sched_error_text e))
       | None \<Rightarrow> Inr (take 8 uuid, ''QUEUED''))"
    and "srv_queue (snd (SubmitJob now uuid srv req)) = exec (OpEnqueue (submission now uuid srv req)) (srv_queue srv)"
proof -
  define r where "r = submit_job (submission now uuid srv req) srv"
  have q: "srv_queue (snd r) = exec (OpEnqueue (submission now uuid srv req)) (srv_queue srv)"
    unfolding r_def by (rule submit_job_exec)
  obtain msg where m: "SubmitJob now uuid srv req =
     (case fst r of
         Some e \<Rightarrow> (Inl (ResourceExhausted (''queue full: '' @ sched_error_text e)), snd r)
       | None \<Rightarrow> (Inr (take 8 uuid, ''QUEUED''), srv_log now (take 8 uuid) ''INFO'' msg (snd r)))"
    using SubmitJob_eq [OF assms, of now uuid req] unfolding Let_def r_def [symmetric] by blast
  show "fst (SubmitJob now uuid srv req) =
      (case fst (submit_job (submission now uuid srv req) srv) of
         Some e \<Rightarrow> Inl (ResourceExhausted (''queue full: '' @ sched_error_text e))
       | None \<Rightarrow> Inr (take 8 uuid, ''QUEUED''))"
    unfolding m r_def [symmetric] by (cases "fst r") simp_all
  show "srv_queue (snd (SubmitJob now uuid srv req)) = exec (OpEnqueue (submission now uuid srv req)) (srv_queue srv)"
    unfolding m q [symmetric] by (cases "fst r") simp_all
qed

lemma SubmitJob_steps:
  assumes "jobs (srv_queue srv) (take 8 uuid) = None"
  shows "qsteps True (srv_queue srv) (srv_queue (snd (SubmitJob now uuid srv req)))"
proof (cases "srv_draining srv")
  case False
  then show ?thesis
    using qsteps_Enqueue [OF qsteps.none, of "srv_queue srv" "submission now uuid srv req"] assms
    by (simp add: SubmitJob_result(2) del: exec.simps)
qed (simp add: SubmitJob_draining qsteps.none)

lemma rank_fresh:
  assumes "gs_inv gs" "distinct (map (\<lambda>r. ID (mk r)) (i # ranks))" "\<forall>r\<in>set (i # ranks). jobs gs (ID (mk r)) = None"
  shows "\<forall>k\<in>set ranks. jobs (exec (OpEnqueue (mk i)) gs) (ID (mk k)) = None"
proof
  fix k assume k: "k \<in> set ranks"
  then have "ID (mk k) \<noteq> ID (mk i)" using assms(2) by (force simp: image_iff)
  then show "jobs (exec (OpEnqueue (mk i)) gs) (ID (mk k)) = None" using exec_Enqueue_jobs [OF assms(1)] assms(3) k by simp
qed

lemma submit_ranks_steps:
  assumes "gs_inv (srv_queue srv)" "distinct (map (\<lambda>r. ID (mk r)) ranks)"
    "\<forall>r\<in>set ranks. jobs (srv_queue srv) (ID (mk r)) = None"
  shows "qsteps True (srv_queue srv) (srv_queue (snd (submit_ranks now gid n mk ranks ids srv)))"
  using assms
proof (induction ranks arbitrary: srv ids)
  case (Cons r ranks)
  obtain e s1 where s1: "submit_job (mk r) srv = (e, s1)" by fastforce
  have q1: "srv_queue s1 = exec (OpEnqueue (mk r)) (srv_queue srv)" using submit_job_exec [of "mk r" srv] s1 by simp
  have fresh: "jobs (srv_queue srv) (ID (mk r)) = None" using Cons.prems(3) by simp
  have st: "qsteps True (srv_queue srv) (srv_queue s1)" unfolding q1 by (rule qsteps_Enqueue [OF qsteps.none fresh])
  show ?case
  proof (cases e)
    case None
    let ?s = "srv_log now (ID (mk r)) ''INFO''
         (''Distributed job rank '' @ Itoa (int r) @ ''/'' @ Itoa n @ '' queued in group '' @ gid) s1"
    have "\<forall>k\<in>set ranks. jobs (srv_queue s1) (ID (mk k)) = None" unfolding q1 by (rule rank_fresh [OF Cons.prems])
    then have "qsteps True (srv_queue s1) (srv_queue (snd (submit_ranks now gid n mk ranks (ids @ [ID (mk r)]) ?s)))"
      using Cons.IH [of ?s "ids @ [ID (mk r)]"] Cons.prems(2) qsteps_inv [OF st Cons.prems(1)] by simp
    then show ?thesis using qsteps_trans [OF _ st] s1 None by simp
  next
    case (Some x)
    then show ?thesis using st s1 by simp
  qed
qed (simp add: qsteps.none)

lemma Itoa_inj: "in_i64 a \<Longrightarrow> in_i64 b \<Longrightarrow> Itoa a = Itoa b \<Longrightarrow> a = b"
  by (metis Atoi_Itoa fst_conv)

lemma rank_job_ID [simp]: "ID (rank_job now gid n mp gpn pr user req r) = rank_id gid r"
  by (simp add: rank_job_def split: prod.split)

lemma rank_ids_distinct:
  assumes "n \<le> nat (2 ^ 31)"
  shows "distinct (map (rank_id gid) [0..<n])"
proof -
  have "inj_on (rank_id gid) {0..<n}"
  proof (rule inj_onI)
    fix a b assume ab: "a \<in> {0..<n}" "b \<in> {0..<n}" "rank_id gid a = rank_id gid b"
    then have "in_i64 (int a)" "in_i64 (int b)" using assms by (auto simp: in_i64_def)
    then have "int a = int b" using ab(3) by (intro Itoa_inj) (auto simp: rank_id_def)
    then show "a = b" by simp
  qed
  then show ?thesis by (simp add: distinct_map)
qed

lemma SubmitDistributedJob_steps:
  assumes inv: "gs_inv (srv_queue srv)"
    and fresh: "\<forall>rank. jobs (srv_queue srv) (rank_id (''dj-'' @ take 8 uuid) rank) = None"
  shows "qsteps True (srv_queue srv) (srv_queue (snd (SubmitDistributedJob now uuid srv req)))"
proof -
  define gid where "gid = ''dj-'' @ take 8 uuid"
  have "sint (sdNumNodes req) \<le> 2 ^ 31" using sint_range_size [of "sdNumNodes req"] by (simp add: word_size)
  then have n: "nat (if sint (sdNumNodes req) < 1 then 1 else sint (sdNumNodes req)) \<le> nat (2 ^ 31)" by auto
  have s: "qsteps True (srv_queue srv) (srv_queue (snd (case submit_ranks now gid k mk [0..<m] [] srv of
        (Inl e, s1) \<Rightarrow> (f e, s1) | (Inr ids, s1) \<Rightarrow> (h ids, s1\<lparr>srv_queue := RegisterGroup (srv_queue s1) (gr ids)\<rparr>))))"
    if "\<And>r. ID (mk r) = rank_id gid r" "m \<le> nat (2 ^ 31)" for k mk m gr
      and f :: "sched_error \<Rightarrow> grpc_error + string \<times> string list \<times> string" and h
  proof -
    obtain r s1 where r: "submit_ranks now gid k mk [0..<m] [] srv = (r, s1)" by fastforce
    have "qsteps True (srv_queue srv) (srv_queue (snd (submit_ranks now gid k mk [0..<m] [] srv)))"
      by (rule submit_ranks_steps [OF inv]) (use that rank_ids_distinct fresh in \<open>simp_all add: gid_def\<close>)
    then show ?thesis using r qsteps_Register by (auto split: sum.split)
  qed
  show ?thesis
  proof (cases "srv_draining srv")
    case False
    show ?thesis
      unfolding SubmitDistributedJob_def Let_def gid_def [symmetric] if_not_P [OF False]
      by (rule s [OF rank_job_ID n])
  qed (simp add: SubmitDistributedJob_def qsteps.none)
qed

lemma stop_on_worker_sel [simp]:
  "srv_queue (stop_on_worker job srv) = srv_queue srv" "srv_eval (stop_on_worker job srv) = srv_eval srv"
  "srv_timers (stop_on_worker job srv) = srv_timers srv" "srv_store (stop_on_worker job srv) = srv_store srv"
  "srv_fairshare (stop_on_worker job srv) = srv_fairshare srv" "srv_cb (stop_on_worker job srv) = srv_cb srv"
  "srv_pending (stop_on_worker job srv) = srv_pending srv"
  by (simp_all add: stop_on_worker_def)

lemma CancelJob_sel:
  "srv_queue (snd (CancelJob now srv jid)) = snd (snd (Cancel now (srv_queue srv) jid))"
  "srv_eval (snd (CancelJob now srv jid)) = srv_eval srv" "srv_timers (snd (CancelJob now srv jid)) = srv_timers srv"
  by (simp_all add: CancelJob_def split: prod.split option.split bool.split)

lemma cancel_siblings_keeps:
  fixes srv :: "'prg schedulerServer"
  shows "qsteps adm (srv_queue srv) (srv_queue (cancel_siblings now jid jids srv)) \<and>
     srv_eval (cancel_siblings now jid jids srv) = srv_eval srv"
proof (induction jids arbitrary: srv)
  case (Cons k jids)
  have c: "qsteps adm (srv_queue srv) (snd (snd (Cancel now (srv_queue srv) k)))" by (rule qsteps_Cancel [OF qsteps.none])
  obtain r ok q where q: "Cancel now (srv_queue srv) k = (r, ok, q)" by (metis prod_cases3)
  have n: "qsteps adm q (srv_queue (cancel_siblings now jid jids s)) \<and> srv_eval (cancel_siblings now jid jids s) = srv_eval s"
    if "srv_queue s = q" for s :: "'prg schedulerServer" using Cons.IH [of s] that by simp
  show ?case
    using n [of "srv\<lparr>srv_queue := q\<rparr>"] n [of "stop_on_worker (the r) (srv\<lparr>srv_queue := q\<rparr>)"] Cons.IH c q
      qsteps_trans [of adm q _ "srv_queue srv"]
    by (cases r) (auto split: bool.split)
qed (simp add: qsteps.none)

lemma handleGroupCompletion_keeps:
  "qsteps adm (srv_queue srv) (srv_queue (handleGroupCompletion now gid jid ok srv)) \<and>
     srv_eval (handleGroupCompletion now gid jid ok srv) = srv_eval srv"
  using cancel_siblings_keeps [of adm srv now jid]
  by (auto simp: handleGroupCompletion_def Let_def intro!: qsteps_GroupState intro: qsteps.none
      split: prod.split option.split bool.split)

lemma track_outcome_sel [simp]:
  "srv_queue (track_outcome now req srv) = srv_queue srv" "srv_eval (track_outcome now req srv) = srv_eval srv"
  "srv_timers (track_outcome now req srv) = srv_timers srv" "srv_store (track_outcome now req srv) = srv_store srv"
  "srv_fairshare (track_outcome now req srv) = srv_fairshare srv" "srv_sent (track_outcome now req srv) = srv_sent srv"
  "srv_tracker (track_outcome now req srv) = srv_tracker srv" "srv_pending (track_outcome now req srv) = srv_pending srv"
  by (simp_all add: track_outcome_def)

text \<open>The part of \<open>ReportResult\<close> before the retry decision.\<close>

definition reported :: "Time \<Rightarrow> 'prg schedulerServer \<Rightarrow> ReportResultRequest \<Rightarrow> Job \<Rightarrow> 'prg schedulerServer" where
  "reported now srv req job =
     (let srv0 = srv\<lparr>srv_queue := MarkCompleted now (srv_queue srv) (rrJobId req) (rrSuccess req) (rrOutput req) (rrError req)\<rparr>;
          srv1 = (if WorkerNode job \<noteq> [] then release_job (WorkerNode job) job srv0 else srv0);
          srv2 = track_outcome now req srv1
      in if 0 < job_seconds job
         then srv2\<lparr>srv_fairshare := RecordUsage (srv_fairshare srv2) (User job) (job_seconds job)\<rparr> else srv2)"

lemma reported_sel [simp]:
  "srv_queue (reported now srv req job) =
     MarkCompleted now (srv_queue srv) (rrJobId req) (rrSuccess req) (rrOutput req) (rrError req)"
  "srv_eval (reported now srv req job) = srv_eval srv" "srv_timers (reported now srv req job) = srv_timers srv"
  "srv_store (reported now srv req job) = srv_store srv" "srv_sent (reported now srv req job) = srv_sent srv"
  by (simp_all add: reported_def Let_def)

definition will_retry :: "ReportResultRequest \<Rightarrow> Job \<Rightarrow> bool" where
  "will_retry req job \<longleftrightarrow> \<not> rrSuccess req \<and> GroupID job = [] \<and> RetryCount job < MaxRetries job"

definition dead_letter :: "ReportResultRequest \<Rightarrow> Job \<Rightarrow> bool" where
  "dead_letter req job \<longleftrightarrow> \<not> rrSuccess req \<and> MaxRetries job \<le> RetryCount job \<and> 0 < MaxRetries job"

lemmas reported_fold = reported_def [unfolded Let_def, symmetric]

lemma ReportResult_known:
  assumes "GetJob (MarkCompleted now (srv_queue srv) (rrJobId req) (rrSuccess req) (rrOutput req) (rrError req)) (rrJobId req) = (Some job, True)"
  shows "\<exists>m1 m2 m3. ReportResult now db_ok srv req =
     (let srv3 = reported now srv req job
      in if will_retry req job
         then srv_log now (rrJobId req) ''WARN'' m1
           (srv3\<lparr>srv_timers := srv_timers srv3 @ [(now + max 0 (retry_backoff (i64 (RetryCount job + 1))), rrJobId req)]\<rparr>)
         else let srv4 = (case srv_store srv3 of
                Some s \<Rightarrow> if dead_letter req job
                  then srv_log now (rrJobId req) ''ERROR'' m2
                         (srv3\<lparr>srv_store := Some (unless_error s (SaveDeadLetter db_ok s job))\<rparr>)
                  else srv3
              | None \<Rightarrow> srv3);
              srv5 = (if GroupID job \<noteq> [] then handleGroupCompletion now (GroupID job) (rrJobId req) (rrSuccess req) srv4 else srv4);
              srv6 = srv_log now (rrJobId req) ''INFO'' m3 srv5
           in if rrError req \<noteq> [] then srv_log now (rrJobId req) ''ERROR'' (rrError req) srv6 else srv6)"
proof -
  have q: "srv_queue (srv\<lparr>srv_queue := g\<rparr>) = g" for g by simp
  show ?thesis
    unfolding ReportResult_def Let_def q assms prod.case option.case bool.case reported_fold
      will_retry_def dead_letter_def
    by (intro exI) (rule refl)
qed

lemma ReportResult_unknown:
  assumes "GetJob (MarkCompleted now (srv_queue srv) (rrJobId req) (rrSuccess req) (rrOutput req) (rrError req)) (rrJobId req) = (None, False)"
  shows "ReportResult now db_ok srv req =
    srv\<lparr>srv_queue := MarkCompleted now (srv_queue srv) (rrJobId req) (rrSuccess req) (rrOutput req) (rrError req)\<rparr>"
proof -
  have q: "srv_queue (srv\<lparr>srv_queue := g\<rparr>) = g" for g by simp
  show ?thesis unfolding ReportResult_def Let_def q assms by simp
qed

lemma GetJob_cases:
  obtains "GetJob gs jid = (None, False)" | j where "GetJob gs jid = (Some j, True)"
  by (cases "jobs gs jid") (auto simp: GetJob_def Job_Copy_def)

lemma ReportResult_keeps:
  "qsteps adm (srv_queue srv) (srv_queue (ReportResult now db_ok srv req)) \<and>
     srv_eval (ReportResult now db_ok srv req) = srv_eval srv"
proof -
  let ?q = "MarkCompleted now (srv_queue srv) (rrJobId req) (rrSuccess req) (rrOutput req) (rrError req)"
  have m: "qsteps adm (srv_queue srv) ?q" by (rule qsteps_Completed [OF qsteps.none])
  show ?thesis
  proof (cases rule: GetJob_cases [of ?q "rrJobId req"])
    case 1
    show ?thesis using ReportResult_unknown [OF 1] m by simp
  next
    case (2 job)
    have h: "qsteps adm (srv_queue srv) (srv_queue (handleGroupCompletion now gid jid ok s)) \<and>
        srv_eval (handleGroupCompletion now gid jid ok s) = srv_eval srv"
      if "srv_queue s = ?q" "srv_eval s = srv_eval srv" for s gid jid ok
      using handleGroupCompletion_keeps [of adm s now gid jid ok] qsteps_trans [OF _ m] that by simp
    show ?thesis
      using ReportResult_known [OF 2, of db_ok] m h
      by (auto simp: Let_def split: option.split)
  qed
qed

lemma fire_retry_steps:
  assumes "i < length (srv_timers srv) \<Longrightarrow> snd (srv_timers srv ! i) \<notin># waiting (srv_queue srv)"
  shows "qsteps adm (srv_queue srv) (srv_queue (fire_retry now i srv))"
proof (cases "i < length (srv_timers srv) \<and> fst (srv_timers srv ! i) \<le> now")
  case True
  let ?jid = "snd (srv_timers srv ! i)"
  have "qsteps adm (srv_queue srv) (exec (OpRequeue ?jid True) (srv_queue srv))"
    using qsteps.more [of adm "srv_queue srv" "srv_queue srv" "OpRequeue ?jid True", OF qsteps.none] assms True by (simp del: exec.simps)
  then show ?thesis using True by (auto simp: fire_retry_def Let_def split: sum.splits)
qed (auto simp: fire_retry_def qsteps.none)

lemma walltime_kill_sel [simp]:
  "srv_queue (walltime_kill now srv job) = snd (snd (Cancel now (srv_queue srv) (ID job)))"
  "srv_eval (walltime_kill now srv job) = srv_eval srv" "srv_timers (walltime_kill now srv job) = srv_timers srv"
  by (simp_all add: walltime_kill_def Let_def)

lemma walltime_loop_keeps:
  "qsteps adm (srv_queue srv) (srv_queue (walltime_loop now srv js)) \<and> srv_eval (walltime_loop now srv js) = srv_eval srv"
proof (induction js arbitrary: srv)
  case (Cons j js)
  have "qsteps adm (srv_queue srv) (srv_queue (walltime_kill now srv j))" by (simp add: qsteps_Cancel qsteps.none)
  then show ?case
    using Cons.IH [of srv] Cons.IH [of "walltime_kill now srv j"] qsteps_trans
    by (auto simp: qsteps_Cancel)
qed (simp add: qsteps.none)

lemma requeue_timed_out_keeps:
  fixes srv :: "'prg schedulerServer"
  shows "qsteps adm (srv_queue srv) (srv_queue (requeue_timed_out now srv jids)) \<and>
    srv_eval (requeue_timed_out now srv jids) = srv_eval srv"
proof (induction jids arbitrary: srv)
  case (Cons jid jids)
  obtain r ok q where q: "RequeueRunningJob (srv_queue srv) jid = (r, ok, q)" by (metis prod_cases3)
  have c: "qsteps adm (srv_queue srv) q" using qsteps_RequeueRunning [of adm "srv_queue srv" "srv_queue srv" jid, OF qsteps.none] q by simp
  have n: "qsteps adm (srv_queue srv) (srv_queue (requeue_timed_out now s jids)) \<and>
      srv_eval (requeue_timed_out now s jids) = srv_eval srv"
    if "srv_queue s = q" "srv_eval s = srv_eval srv" for s :: "'prg schedulerServer"
    using Cons.IH [of s] qsteps_trans [OF _ c] that by simp
  show ?case
    using Cons.IH [of srv] n q
    by (cases rule: GetJob_cases [of "srv_queue srv" jid]) (auto simp: Let_def)
qed (simp add: qsteps.none)

lemma lose_jobs_keeps:
  fixes srv :: "'prg schedulerServer"
  shows "qsteps adm (srv_queue srv) (srv_queue (lose_jobs now n srv js)) \<and> srv_eval (lose_jobs now n srv js) = srv_eval srv"
proof (induction js arbitrary: srv)
  case (Cons j js)
  let ?q = "MarkCompleted now (srv_queue srv) (ID j) False [] ''worker node lost''"
  have c: "qsteps adm (srv_queue srv) ?q" "qsteps adm (srv_queue srv) (SetGroupState ?q (GroupID j) st)" for st
    by (rule qsteps_Completed [OF qsteps.none], rule qsteps_GroupState [OF qsteps_Completed [OF qsteps.none]])
  have n: "qsteps adm (srv_queue srv) (srv_queue (lose_jobs now n s js)) \<and> srv_eval (lose_jobs now n s js) = srv_eval srv"
    if "qsteps adm (srv_queue srv) (srv_queue s)" "srv_eval s = srv_eval srv" for s :: "'prg schedulerServer"
    using Cons.IH [of s] qsteps_trans [OF _ that(1)] that(2) by simp
  show ?case
    using n c by (auto simp: Let_def split: option.split prod.split bool.split)
qed (simp add: qsteps.none)

lemma acknowledge_sel [simp]:
  "srv_queue (snd (acknowledge_start m b srv)) = srv_queue srv" "srv_eval (snd (acknowledge_start m b srv)) = srv_eval srv"
  by (simp_all add: acknowledge_start_def split: option.split)

lemma decay_sel [simp]: "srv_queue (decay_tick ok srv) = srv_queue srv" "srv_eval (decay_tick ok srv) = srv_eval srv"
  by (simp_all add: decay_tick_def Let_def)

end
