(* ===== verification/Master_Reach.thy ===== *)
theory Master_Reach
  imports Master_Runs
begin

text \<open>
  The master as a state machine: its start, one step per request, tick or event, and what
  holds in every state it reaches.
\<close>

subsection \<open>Start\<close>

text \<open>A store whose jobs sit under their own identifiers, as \<open>SaveJob\<close> puts them.\<close>

definition store_keyed :: "Store \<Rightarrow> bool" where
  "store_keyed s \<longleftrightarrow> (\<forall>k j. bucketJobs s k = Some (Encoded j) \<longrightarrow> ID j = k)"

lemma LoadJobs_distinct:
  assumes "store_keyed s" "distinct order"
  shows "distinct (map ID (LoadJobs order s))" "set (map ID (LoadJobs order s)) \<subseteq> set order"
  using assms(2)
proof (induction order)
  case (Cons k ks)
  {
    case 1
    then show ?case using Cons assms(1)
      by (auto simp: LoadJobs_def load_all_def store_keyed_def split: option.split data.split)
  next
    case 2
    then show ?case using Cons assms(1)
      by (auto simp: LoadJobs_def load_all_def store_keyed_def split: option.split data.split)
  }
qed (simp_all add: LoadJobs_def load_all_def)

lemma restore_jobs_queue:
  "fst (restore_jobs now ok js (gs, s)) =
     foldl (\<lambda>g j. exec (OpEnqueue j) g) gs (filter (\<lambda>j. State j = StateQueued) js)"
  by (induction js arbitrary: gs s) auto

lemma restore_groups_queue:
  "\<exists>grps. fst (restore_groups ok gl (gs, s)) = foldl RegisterGroup gs grps"
proof (induction gl arbitrary: gs s)
  case (Cons g gl)
  have step: "\<exists>grps. fst (restore_groups ok gl (RegisterGroup gs g', s')) = foldl RegisterGroup gs grps" for g' s'
  proof -
    obtain grps where "fst (restore_groups ok gl (RegisterGroup gs g', s')) = foldl RegisterGroup (RegisterGroup gs g') grps"
      using Cons.IH by blast
    then show ?thesis by (intro exI [of _ "g' # grps"]) simp
  qed
  show ?case using step by simp
qed (auto intro: exI [of _ "[]"])

lemma enqueue_all_reach:
  assumes "reach gs" "distinct (map ID js)" "\<forall>j\<in>set js. jobs gs (ID j) = None"
  shows "reach (foldl (\<lambda>g j. exec (OpEnqueue j) g) gs js)"
  using assms
proof (induction js arbitrary: gs)
  case (Cons j js)
  have fresh: "jobs gs (ID j) = None" using Cons.prems(3) by simp
  have "reach (exec (OpEnqueue j) gs)" by (rule reach.step [OF Cons.prems(1)]) (use fresh in simp)
  moreover have "jobs (exec (OpEnqueue j) gs) (ID k) = None" if "k \<in> set js" for k
  proof -
    have "ID k \<noteq> ID j" using Cons.prems(2) imageI [OF that, of ID] by auto
    then show ?thesis using exec_Enqueue_jobs [OF reach_inv [OF Cons.prems(1)] fresh] Cons.prems(3) that by simp
  qed
  ultimately show ?case using Cons.IH Cons.prems(2) by simp
qed simp

lemma register_all_reach: "reach gs \<Longrightarrow> reach (foldl RegisterGroup gs grps)"
proof (induction grps arbitrary: gs)
  case (Cons g grps)
  have "reach (RegisterGroup gs g)" using reach.step [OF Cons.prems, of "OpRegister g"] by simp
  then show ?case using Cons.IH by simp
qed simp

lemma StartMaster_reach:
  assumes "store_keyed s" "distinct job_order"
  shows "reach (srv_queue (StartMaster now ok job_order group_order cfg s))"
proof -
  define gs0 where "gs0 = NewGlobalScheduler\<lparr>MaxQueueSize := cfgMaxQueueSize cfg, OnJobChange := True, OnGroupChange := True\<rparr>"
  have r0: "reach gs0" unfolding gs0_def by (rule reach.start)
  have j0: "jobs gs0 = Map.empty" by (simp add: gs0_def New_empty)
  obtain gs1 s1 where r1: "restore_jobs now ok (LoadJobs job_order s) (gs0, s) = (gs1, s1)" by fastforce
  have "distinct (map ID (filter (\<lambda>j. State j = StateQueued) (LoadJobs job_order s)))"
    using LoadJobs_distinct(1) [OF assms] by (rule distinct_map_filter)
  then have "reach gs1"
    using enqueue_all_reach [OF r0] restore_jobs_queue [of now ok "LoadJobs job_order s" gs0 s] r1 j0 by simp
  moreover obtain gs2 s2 where r2: "restore_groups ok (LoadGroups group_order s1) (gs1, s1) = (gs2, s2)" by fastforce
  ultimately have "reach gs2"
    using restore_groups_queue [of ok "LoadGroups group_order s1" gs1 s1] register_all_reach by auto
  then show ?thesis
    by (simp add: StartMaster_def restore_def Let_def r1 r2 flip: gs0_def split: prod.split)
qed

subsection \<open>Steps\<close>

inductive master_step :: "('ast, 'prg) celEnv \<Rightarrow> 'prg schedulerServer \<Rightarrow> 'prg schedulerServer \<Rightarrow> bool"
  for env :: "('ast, 'prg) celEnv" where
  submit: "jobs (srv_queue srv) (take 8 uuid) = None \<Longrightarrow> master_step env srv (snd (SubmitJob now uuid srv req))"
| submit_gang: "\<forall>rank. jobs (srv_queue srv) (rank_id (''dj-'' @ take 8 uuid) rank) = None \<Longrightarrow>
    master_step env srv (snd (SubmitDistributedJob now uuid srv dreq))"
| cancel: "master_step env srv (snd (CancelJob now srv jid))"
| report: "master_step env srv (ReportResult now ok srv rreq)"
| retry: "i < length (srv_timers srv) \<Longrightarrow> snd (srv_timers srv ! i) \<notin># waiting (srv_queue srv) \<Longrightarrow>
    master_step env srv (fire_retry now i srv)"
| walltime: "master_step env srv (walltime_tick now order srv)"
| handshake: "master_step env srv (timeout_tick now order srv)"
| acknowledge: "master_step env srv (snd (acknowledge_start http_method body srv))"
| leave: "master_step env srv (OnLeave now order node srv)"
| decay: "master_step env srv (decay_tick ok srv)"
| dispatch: "dispatch_tick env now members order srv = Some srv' \<Longrightarrow> master_step env srv srv'"
| drain: "master_step env srv (srv\<lparr>srv_draining := True\<rparr>)"

inductive_simps master_step_simps: "master_step env srv srv'"

inductive master_reach :: "('ast, 'prg) celEnv \<Rightarrow> 'prg schedulerServer \<Rightarrow> bool"
  for env :: "('ast, 'prg) celEnv" where
  start: "store_keyed s \<Longrightarrow> distinct job_order \<Longrightarrow> master_reach env (StartMaster now ok job_order group_order cfg s)"
| step: "master_reach env srv \<Longrightarrow> master_step env srv srv' \<Longrightarrow> master_reach env srv'"

lemma submit_job_eval [simp]: "srv_eval (snd (submit_job j srv)) = srv_eval srv"
  by (simp add: submit_job_def Let_def split: prod.split sum.split)

lemma SubmitJob_eval [simp]: "srv_eval (snd (SubmitJob now uuid srv req)) = srv_eval srv"
proof (cases "srv_draining srv")
  case False
  define r where "r = submit_job (submission now uuid srv req) srv"
  show ?thesis using SubmitJob_eq [OF False, of now uuid req] submit_job_eval [of "submission now uuid srv req" srv]
    unfolding r_def [symmetric] Let_def by (cases "fst r") auto
qed (simp add: SubmitJob_draining)

lemma submit_ranks_eval [simp]: "srv_eval (snd (submit_ranks now gid n mk ranks ids srv)) = srv_eval srv"
proof (induction ranks arbitrary: srv ids)
  case (Cons r ranks)
  obtain e s1 where s1: "submit_job (mk r) srv = (e, s1)" by fastforce
  then have "srv_eval s1 = srv_eval srv" using submit_job_eval [of "mk r" srv] by simp
  then show ?case using Cons.IH s1 by (cases e) auto
qed simp

lemma SubmitDistributedJob_eval [simp]: "srv_eval (snd (SubmitDistributedJob now uuid srv req)) = srv_eval srv"
proof -
  have s: "srv_eval (snd (case submit_ranks now gid k mk rs [] srv of
        (Inl e, s1) \<Rightarrow> (f e, s1) | (Inr ids, s1) \<Rightarrow> (h ids, s1\<lparr>srv_queue := gr s1 ids\<rparr>))) = srv_eval srv"
    for gid k mk rs gr and f :: "sched_error \<Rightarrow> grpc_error + string \<times> string list \<times> string" and h
    using submit_ranks_eval [of now gid k mk rs "[]" srv] by (cases "submit_ranks now gid k mk rs [] srv") (auto split: sum.split)
  show ?thesis
  proof (cases "srv_draining srv")
    case False
    show ?thesis unfolding SubmitDistributedJob_def Let_def if_not_P [OF False] by (rule s)
  qed (simp add: SubmitDistributedJob_def)
qed

lemma fire_retry_eval [simp]: "srv_eval (fire_retry now i srv) = srv_eval srv"
  by (simp add: fire_retry_def Let_def split: sum.split prod.split)

lemma tick_steps:
  assumes "dispatch_tick env now members order srv = Some srv'" "gs_inv (srv_queue srv)" "cache_ok env (srv_eval srv)"
  shows "qsteps False (srv_queue srv) (srv_queue srv') \<and> cache_ok env (srv_eval srv')"
proof -
  have "tick_ok False env now members (srv_cb srv) (srv_queue srv) (srv_sent srv) srv'"
    by (rule dispatch_tick_ok) (use assms in \<open>auto simp: demands_def\<close>)
  then show ?thesis by (simp add: tick_ok_def settled_def)
qed

text \<open>Everything but a submission is a run of operations that enters no job.\<close>

lemma event_steps:
  fixes srv :: "'prg schedulerServer"
  shows "qsteps adm (srv_queue srv) (srv_queue (snd (CancelJob now srv jid)))"
    "qsteps adm (srv_queue srv) (srv_queue (ReportResult now ok srv rreq))"
    "(i < length (srv_timers srv) \<Longrightarrow> snd (srv_timers srv ! i) \<notin># waiting (srv_queue srv)) \<Longrightarrow>
       qsteps adm (srv_queue srv) (srv_queue (fire_retry now i srv))"
    "qsteps adm (srv_queue srv) (srv_queue (walltime_tick now order srv))"
    "qsteps adm (srv_queue srv) (srv_queue (timeout_tick now order srv))"
    "qsteps adm (srv_queue srv) (srv_queue (OnLeave now order node srv))"
proof -
  show "qsteps adm (srv_queue srv) (srv_queue (timeout_tick now order srv))"
    using requeue_timed_out_keeps [of adm "srv\<lparr>srv_pending := p\<rparr>" now for p] by (simp add: timeout_tick_def Let_def)
qed (simp_all add: CancelJob_sel qsteps_Cancel qsteps.none ReportResult_keeps fire_retry_steps walltime_loop_keeps walltime_tick_def
    lose_jobs_keeps OnLeave_def)

lemma event_eval [simp]:
  fixes srv :: "'prg schedulerServer"
  shows "srv_eval (ReportResult now ok srv rreq) = srv_eval srv" "srv_eval (walltime_tick now order srv) = srv_eval srv"
    "srv_eval (timeout_tick now order srv) = srv_eval srv" "srv_eval (OnLeave now order node srv) = srv_eval srv"
  using ReportResult_keeps [of True srv now ok rreq] walltime_loop_keeps [of True srv now]
    requeue_timed_out_keeps [of True "srv\<lparr>srv_pending := p\<rparr>" now for p] lose_jobs_keeps [of True srv now node]
  by (simp_all add: walltime_tick_def timeout_tick_def OnLeave_def Let_def)

lemma master_step_keeps:
  assumes "master_step env srv srv'" "gs_inv (srv_queue srv)" "cache_ok env (srv_eval srv)"
  shows "qsteps True (srv_queue srv) (srv_queue srv') \<and> cache_ok env (srv_eval srv')"
  using assms
proof (cases rule: master_step.cases)
  case (submit uuid now req)
  then show ?thesis using SubmitJob_steps assms(3) by simp
next
  case (submit_gang uuid now dreq)
  then show ?thesis using SubmitDistributedJob_steps assms(2,3) by simp
next
  case (dispatch now members order)
  then show ?thesis using tick_steps assms(2,3) qsteps_weaken by blast
qed (use assms(3) in \<open>simp_all add: event_steps CancelJob_sel(2) qsteps.none\<close>)

lemma StartMaster_eval: "srv_eval (StartMaster now ok jo go cfg s) = NewEvaluator"
  by (simp add: StartMaster_def split: prod.split)

lemma master_reach_queue: "master_reach env srv \<Longrightarrow> reach (srv_queue srv) \<and> cache_ok env (srv_eval srv)"
proof (induction rule: master_reach.induct)
  case (start s job_order now ok group_order cfg)
  show ?case by (simp add: StartMaster_eval StartMaster_reach [OF start] cache_ok_new)
next
  case (step srv srv')
  then show ?case using master_step_keeps reach_inv qsteps_reach by blast
qed


subsection \<open>Types of the table\<close>

definition job_states :: "string set" where
  "job_states = {StateQueued, StateRunning, StateCompleted, StateFailed, StateCancelled}"

definition well_typed :: "(string \<rightharpoonup> Job) \<Rightarrow> bool" where
  "well_typed T \<longleftrightarrow> (\<forall>jid j. T jid = Some j \<longrightarrow> ID j = jid \<and> State j \<in> job_states)"

lemma job_state_intros [simp]:
  "StateQueued \<in> job_states" "StateRunning \<in> job_states" "StateCompleted \<in> job_states"
  "StateFailed \<in> job_states" "StateCancelled \<in> job_states"
  by (simp_all add: job_states_def)

lemma spec_step_typed: "spec_step n op s t \<Longrightarrow> well_typed (fst s) \<Longrightarrow> well_typed (fst t)"
  by (cases rule: spec_step.cases)
    (auto simp: well_typed_def cancelled_def requeued_def finished_def noidx_def split: if_splits)

lemma reach_typed: "reach gs \<Longrightarrow> well_typed (table gs)"
proof (induction rule: reach.induct)
  case (start n a b)
  then show ?case by (simp add: well_typed_def table_def New_empty)
next
  case (step gs op)
  then show ?case
    using spec_step_typed [OF exec_refines_spec [OF reach_inv [OF step(1)] step(2)]] by (simp add: abs_of_def)
qed

subsection \<open>An example run\<close>

definition ex_request :: SubmitJobRequest where
  "ex_request = \<lparr>sjCelRequirement = ''true'', sjCommand = ''run'', sjPriority = 0, sjUser = [], sjWalltimeSeconds = 60,
     sjGpusRequired = 0, sjEnvVars = None\<rparr>"

definition ex_started :: "string schedulerServer" where
  "ex_started = StartMaster 0 True [] [] DefaultConfig empty_store"

definition ex_master :: "string schedulerServer" where
  "ex_master = snd (SubmitJob 5 ''abcdefgh-1'' ex_started ex_request)"

lemma ex_started_sel:
  "srv_queue ex_started = NewGlobalScheduler\<lparr>MaxQueueSize := 10000, OnJobChange := True, OnGroupChange := True\<rparr>"
  "\<not> srv_draining ex_started" "master_reach ex_env ex_started"
proof -
  show "master_reach ex_env ex_started" unfolding ex_started_def
    by (rule master_reach.start) (simp_all add: store_keyed_def empty_store_def)
qed (simp_all add: ex_started_def StartMaster_def restore_def Let_def LoadJobs_def load_all_def LoadGroups_def
      LoadFairshare_def empty_store_def DefaultConfig_def split: prod.split)

lemma ex_master_reach: "master_reach ex_env ex_master"
proof -
  have "jobs (srv_queue ex_started) (take 8 ''abcdefgh-1'') = None" by (simp add: ex_started_sel New_empty)
  then show ?thesis unfolding ex_master_def
    by (intro master_reach.step [OF ex_started_sel(3)] master_step.submit)
qed

lemma ex_master_table:
  "\<exists>j. table (srv_queue ex_master) ''abcdefgh'' = Some j \<and> State j = StateQueued \<and> ID j = ''abcdefgh''"
proof -
  let ?q = "srv_queue ex_started" and ?j = "submission 5 ''abcdefgh-1'' ex_started ex_request"
  have "gs_inv ?q" using master_reach_queue [OF ex_started_sel(3)] reach_inv by blast
  moreover have "jobs ?q (ID ?j) = None" "waiting ?q = {#}" "MaxQueueSize ?q = 10000"
    by (simp_all add: ex_started_sel New_empty waiting_def NewGlobalScheduler_eq)
  ultimately have "table (exec (OpEnqueue ?j) ?q) = (table ?q)(ID ?j \<mapsto> noidx (?j\<lparr>State := StateQueued\<rparr>))"
    by (intro exec_Enqueue_spec(1)) simp_all
  then show ?thesis
    unfolding ex_master_def SubmitJob_result(2) [OF ex_started_sel(2)] by (simp add: noidx_def)
qed



text \<open>
  C21. Every job in the table of a running master is stored under its own identifier and is
  in one of the five states.
\<close>

theorem master_well_typed:
  assumes "master_reach env srv" "table (srv_queue srv) jid = Some j"
  shows "ID j = jid \<and> State j \<in> {StateQueued, StateRunning, StateCompleted, StateFailed, StateCancelled}"
proof -
  have "well_typed (table (srv_queue srv))" using reach_typed master_reach_queue [OF assms(1)] by blast
  then show ?thesis using assms(2) by (simp add: well_typed_def job_states_def)
qed

theorem master_well_typed_witness:
  "\<exists>j. table (srv_queue ex_master) ''abcdefgh'' = Some j \<and>
     State j \<in> {StateQueued, StateRunning, StateCompleted, StateFailed, StateCancelled}"
  using ex_master_table master_well_typed [OF ex_master_reach] by blast

end
