(* ===== verification/Handler_Properties.thy ===== *)
theory Handler_Properties
  imports Master_Reach
begin

text \<open>
  What the requests of clients and workers achieve: submission, results with their retries
  and dead letters, cancellation, and the races in which a finished or cancelled job comes
  back.
\<close>

subsection \<open>Submission\<close>

lemma submit_full:
  assumes "0 < MaxQueueSize (srv_queue srv) \<and> MaxQueueSize (srv_queue srv) \<le> int (size (waiting (srv_queue srv)))"
    and "gs_inv (srv_queue srv)"
  shows "fst (submit_job job srv) = Some (QueueFull (MaxQueueSize (srv_queue srv)))"
    "table (exec (OpEnqueue job) (srv_queue srv)) = table (srv_queue srv)"
    "waiting (exec (OpEnqueue job) (srv_queue srv)) = waiting (srv_queue srv)"
proof -
  obtain g p where new: "new_job (srv_queue srv) job = (g, p)" by fastforce
  have g: "MaxQueueSize g = MaxQueueSize (srv_queue srv)" "queue g = queue (srv_queue srv)"
    using new by (auto simp: new_job_def)
  note n = new_job_inv [OF assms(2) new]
  have e: "Enqueue g p = Inl (QueueFull (MaxQueueSize (srv_queue srv)))" using assms(1) g by (simp add: Enqueue_def)
  then show "fst (submit_job job srv) = Some (QueueFull (MaxQueueSize (srv_queue srv)))"
    using new by (simp add: submit_job_def)
  show "table (exec (OpEnqueue job) (srv_queue srv)) = table (srv_queue srv)"
    "waiting (exec (OpEnqueue job) (srv_queue srv)) = waiting (srv_queue srv)"
    using new e n by simp_all
qed

lemma submit_room:
  assumes "\<not> (0 < MaxQueueSize (srv_queue srv) \<and> MaxQueueSize (srv_queue srv) \<le> int (size (waiting (srv_queue srv))))"
  shows "fst (submit_job job srv) = None"
proof -
  obtain g p where new: "new_job (srv_queue srv) job = (g, p)" by fastforce
  have g: "MaxQueueSize g = MaxQueueSize (srv_queue srv)" "queue g = queue (srv_queue srv)"
    using new by (auto simp: new_job_def)
  then show ?thesis using assms new Enqueue_full [of g p] by (auto simp: submit_job_def split: sum.split)
qed

lemma SubmitJob_accepted:
  assumes "gs_inv (srv_queue srv)" "jobs (srv_queue srv) (take 8 uuid) = None"
    and r: "SubmitJob now uuid srv req = (Inr (jid, status), srv')"
  shows "jid = take 8 uuid" "table (srv_queue srv') jid = Some (noidx ((submission now uuid srv req)\<lparr>State := StateQueued\<rparr>))"
    "waiting (srv_queue srv') = add_mset jid (waiting (srv_queue srv))"
proof -
  let ?j = "submission now uuid srv req"
  have live: "\<not> srv_draining srv" using r SubmitJob_draining [of srv now uuid req] by auto
  note s = SubmitJob_result [OF live, of now uuid req, unfolded r fst_conv snd_conv]
  show jid: "jid = take 8 uuid" using s(1) by (auto split: option.splits)
  have room: "\<not> (0 < MaxQueueSize (srv_queue srv) \<and> MaxQueueSize (srv_queue srv) \<le> int (size (waiting (srv_queue srv))))"
    using s(1) submit_full(1) [OF _ assms(1), of ?j] by (auto split: option.splits)
  show "table (srv_queue srv') jid = Some (noidx (?j\<lparr>State := StateQueued\<rparr>))"
    "waiting (srv_queue srv') = add_mset jid (waiting (srv_queue srv))"
    unfolding s(2) jid using exec_Enqueue_spec(1,2) [OF assms(1) _ room, of ?j] assms(2) by simp_all
qed

text \<open>
  C22. Submission: while the master drains, a job is refused and nothing changes; when the
  queue is at its limit, it is refused and table and queue keep their content; otherwise
  the reply carries the new identifier, and exactly this job is added to the table and to
  the queue, with the requested fields, the fair-share priority \<open>base + penalty\<close> (10 when no
  priority is given), the amounts read from the requirement and the configured retries.
\<close>

theorem SubmitJob_correct:
  assumes inv: "gs_inv (srv_queue srv)" and fresh: "jobs (srv_queue srv) (take 8 uuid) = None"
  shows "let (r, srv') = SubmitJob now uuid srv req; q = srv_queue srv; q' = srv_queue srv' in
    if srv_draining srv
    then r = Inl (Unavailable ''master is draining, not accepting new jobs'') \<and> srv' = srv
    else if 0 < MaxQueueSize q \<and> MaxQueueSize q \<le> int (size (waiting q))
    then r = Inl (ResourceExhausted (''queue full: queue full ('' @ Itoa (MaxQueueSize q) @ '' jobs)'')) \<and>
      table q' = table q \<and> waiting q' = waiting q
    else r = Inr (take 8 uuid, ''QUEUED'') \<and>
      table q' = (table q)(take 8 uuid \<mapsto> noidx ((submission now uuid srv req)\<lparr>State := StateQueued\<rparr>)) \<and>
      waiting q' = add_mset (take 8 uuid) (waiting q)"
proof (cases "srv_draining srv")
  case False
  let ?j = "submission now uuid srv req"
  note r = SubmitJob_result [OF False, of now uuid req]
  show ?thesis
  proof (cases "0 < MaxQueueSize (srv_queue srv) \<and> MaxQueueSize (srv_queue srv) \<le> int (size (waiting (srv_queue srv)))")
    case True
    then show ?thesis
      using r False submit_full [OF True inv, of ?j]
      by (simp add: Let_def case_prod_beta sched_error_text_def del: exec.simps)
  next
    case room: False
    have "jobs (srv_queue srv) (ID ?j) = None" using fresh by simp
    note e = exec_Enqueue_spec(1,2) [OF inv this room, unfolded submission_ID]
    have "fst (SubmitJob now uuid srv req) = Inr (take 8 uuid, ''QUEUED'')"
      unfolding r(1) submit_room [OF room] by simp
    then show ?thesis
      unfolding Let_def case_prod_beta r(2) e if_not_P [OF False] if_not_P [OF room] by simp
  qed
qed (simp add: SubmitJob_draining)

theorem SubmitJob_correct_witness:
  "fst (SubmitJob 5 ''abcdefgh-1'' ex_started ex_request) = Inr (''abcdefgh'', ''QUEUED'') \<and>
   waiting (srv_queue (snd (SubmitJob 5 ''abcdefgh-1'' ex_started ex_request))) = {#''abcdefgh''#}"
proof -
  have inv: "gs_inv (srv_queue ex_started)" using master_reach_queue [OF ex_started_sel(3)] reach_inv by blast
  have q: "jobs (srv_queue ex_started) (take 8 ''abcdefgh-1'') = None" "waiting (srv_queue ex_started) = {#}"
    "MaxQueueSize (srv_queue ex_started) = 10000" "queue (srv_queue ex_started) = []"
    by (simp_all add: ex_started_sel New_empty waiting_def NewGlobalScheduler_eq)
  show ?thesis
    using SubmitJob_correct [OF inv q(1), of 5 ex_request] q(2-4) ex_started_sel(2)
    by (simp add: Let_def case_prod_beta)
qed

lemma ex_master_accepted: "SubmitJob 5 ''abcdefgh-1'' ex_started ex_request = (Inr (''abcdefgh'', ''QUEUED''), ex_master)"
proof -
  have q: "waiting (srv_queue ex_started) = {#}" "MaxQueueSize (srv_queue ex_started) = 10000"
    by (simp_all add: ex_started_sel New_empty waiting_def NewGlobalScheduler_eq)
  show ?thesis
    using SubmitJob_result(1) [of ex_started 5 "''abcdefgh-1''" ex_request]
      submit_room [of ex_started "submission 5 ''abcdefgh-1'' ex_started ex_request"] q ex_started_sel(2)
    by (simp add: ex_master_def prod_eq_iff)
qed

subsection \<open>An example job on a worker\<close>

definition ex_rjob :: Job where
  "ex_rjob = (ex_job ''a'' [])\<lparr>MaxRetries := 3, WalltimeSeconds := 60\<rparr>"

definition ex_running :: GlobalScheduler where
  "ex_running = exec (OpRunning 7 ''a'' ''1'') (exec OpDequeue (exec (OpEnqueue ex_rjob) NewGlobalScheduler))"

definition ex_run_job :: Job where
  "ex_run_job = (noidx ex_rjob)\<lparr>State := StateRunning, WorkerNode := ''1'', StartTime := 7\<rparr>"

lemma ex_running_facts:
  "gs_inv ex_running" "table ex_running = [''a'' \<mapsto> ex_run_job]" "waiting ex_running = {#}" "groups ex_running = Map.empty"
proof -
  define g where "g = exec (OpEnqueue ex_rjob) NewGlobalScheduler"
  have id: "ID ex_rjob = ''a''" by (simp add: ex_rjob_def)
  note e = exec_Enqueue_spec [OF New_empty(1), of ex_rjob, folded g_def, unfolded id]
  have ig: "gs_inv g" unfolding g_def by (rule exec_inv) (simp_all add: New_empty)
  have w: "waiting g = {#''a''#}" "table g = [''a'' \<mapsto> noidx (ex_rjob\<lparr>State := StateQueued\<rparr>)]" "groups g = Map.empty"
    using e by (simp_all add: New_empty)
  have ne: "waiting g \<noteq> {#}" by (simp add: w)
  obtain r h where d: "Dequeue g = (r, h)" by fastforce
  obtain j :: Job where j: "gs_inv h" "same_jobs g h" "waiting g = add_mset (ID j) (waiting h)"
    using Dequeue_spec [OF ig ne d] by blast
  have h: "table h = table g" "waiting h = {#}" "groups h = Map.empty"
    using table_same_jobs [OF j(2)] j(3) w same_jobs_fields(2) [OF j(2)] by auto
  have x: "ex_running = MarkRunning 7 h ''a'' ''1''" using d by (simp add: ex_running_def g_def)
  have th: "table h ''a'' = Some (noidx (ex_rjob\<lparr>State := StateQueued\<rparr>))" using h w by simp
  note m = MarkRunning_spec [OF j(1) th _ x]
  show "gs_inv ex_running" "waiting ex_running = {#}" "groups ex_running = Map.empty"
    using m(1,2,3) h by (auto simp: same_rest_def)
  show "table ex_running = [''a'' \<mapsto> ex_run_job]"
    using m(4) h w by (simp add: ex_run_job_def noidx_def)
qed

lemma ex_run_job_sel [simp]:
  "State ex_run_job = StateRunning" "GroupID ex_run_job = []" "RetryCount ex_run_job = 0" "MaxRetries ex_run_job = 3"
  "WorkerNode ex_run_job = ''1''" "ID ex_run_job = ''a''" "User ex_run_job = []" "WalltimeSeconds ex_run_job = 60"
  "StartTime ex_run_job = 7"
  by (simp_all add: ex_run_job_def ex_rjob_def ex_job_def noidx_def zero_job_def)

definition ex_failure :: ReportResultRequest where
  "ex_failure = \<lparr>rrJobId = ''a'', rrWorkerNode = ''1'', rrSuccess = False, rrOutput = [], rrError = ''exit status 1''\<rparr>"

subsection \<open>Results\<close>

lemma report_job:
  assumes "gs_inv gs" "table gs jid = Some j"
  shows "\<exists>job. GetJob (MarkCompleted now gs jid ok out err) jid = (Some job, True) \<and> noidx job = finished now ok out err j \<and>
    MarkCompleted now gs jid ok out err = exec (OpCompleted now jid ok out err) gs"
proof -
  note m = MarkCompleted_spec [OF assms refl, of now ok out err]
  then show ?thesis using GetJob_table [OF m(1), of jid] by auto
qed

lemma finished_sel [simp]:
  "GroupID (finished now ok out err j) = GroupID j" "RetryCount (finished now ok out err j) = RetryCount j"
  "MaxRetries (finished now ok out err j) = MaxRetries j" "User (finished now ok out err j) = User j"
  "ID (finished now ok out err j) = ID j" "WorkerNode (finished now ok out err j) = WorkerNode j"
  "StartTime (finished now ok out err j) = StartTime j" "GPUsRequired (finished now ok out err j) = GPUsRequired j"
  by (simp_all add: finished_def)

lemma same_noidx_fields:
  "noidx a = b \<Longrightarrow> GroupID a = GroupID b \<and> RetryCount a = RetryCount b \<and> MaxRetries a = MaxRetries b \<and> User a = User b \<and>
     ID a = ID b \<and> WorkerNode a = WorkerNode b \<and> StartTime a = StartTime b \<and> EndTime a = EndTime b \<and> State a = State b"
  by (auto simp: noidx_def)

text \<open>The pause before retry number \<open>n\<close> is \<open>10 n\<^sup>2\<close> seconds, exact up to \<open>n = 30370\<close>.\<close>

lemma retry_backoff_exact:
  assumes "0 \<le> n" "n \<le> 30370"
  shows "retry_backoff n = 10 * n * n * Second"
proof -
  define m where "m = n * n"
  have m: "0 \<le> m" "m \<le> 30370 * 30370" using assms mult_mono [OF assms(2) assms(2)] by (simp_all add: m_def)
  have "retry_backoff n = i64 (i64 (i64 m * 10) * Second)" by (simp add: retry_backoff_def m_def)
  also have "\<dots> = 10 * m * Second" using m by (simp add: Second_def in_i64_def)
  finally show ?thesis by (simp add: m_def)
qed

text \<open>A failed single job with retries left: the effect of the report, and of its timer.\<close>

lemma report_retry:
  fixes srv :: "'prg schedulerServer" and now :: Time and ok :: bool
  assumes inv: "gs_inv (srv_queue srv)" and t: "table (srv_queue srv) (rrJobId req) = Some j"
    and fail: "\<not> rrSuccess req" and single: "GroupID j = []" and left: "RetryCount j < MaxRetries j"
  defines "f \<equiv> finished now False (rrOutput req) (rrError req) j" and "srv' \<equiv> ReportResult now ok srv req"
  shows "table (srv_queue srv') = (table (srv_queue srv))(rrJobId req \<mapsto> f)" "gs_inv (srv_queue srv')"
    "waiting (srv_queue srv') = waiting (srv_queue srv)" "srv_sent srv' = srv_sent srv" "srv_store srv' = srv_store srv"
    "srv_timers srv' = srv_timers srv @ [(now + max 0 (retry_backoff (i64 (RetryCount j + 1))), rrJobId req)]"
proof -
  let ?q = "MarkCompleted now (srv_queue srv) (rrJobId req) (rrSuccess req) (rrOutput req) (rrError req)"
  obtain job where job: "GetJob ?q (rrJobId req) = (Some job, True)"
    "noidx job = finished now (rrSuccess req) (rrOutput req) (rrError req) j"
    using report_job [OF inv t] by blast
  have sel: "GroupID job = GroupID j" "RetryCount job = RetryCount j" "MaxRetries job = MaxRetries j"
    using same_noidx_fields [OF job(2)] by simp_all
  then have w: "will_retry req job" using fail single left by (simp add: will_retry_def)
  obtain msg where r: "srv' = srv_log now (rrJobId req) ''WARN'' msg ((reported now srv req job)\<lparr>srv_timers :=
      srv_timers (reported now srv req job) @ [(now + max 0 (retry_backoff (i64 (RetryCount job + 1))), rrJobId req)]\<rparr>)"
    using ReportResult_known [OF job(1), of ok] w by (auto simp: srv'_def Let_def)
  note m = MarkCompleted_spec [OF inv t refl, of now "rrSuccess req" "rrOutput req" "rrError req"]
  show "table (srv_queue srv') = (table (srv_queue srv))(rrJobId req \<mapsto> f)" "gs_inv (srv_queue srv')"
    "waiting (srv_queue srv') = waiting (srv_queue srv)" "srv_sent srv' = srv_sent srv" "srv_store srv' = srv_store srv"
    "srv_timers srv' = srv_timers srv @ [(now + max 0 (retry_backoff (i64 (RetryCount j + 1))), rrJobId req)]"
    using m fail by (simp_all add: r f_def sel)
qed

lemma fire_retry_effect:
  assumes inv: "gs_inv (srv_queue srv)" and t: "table (srv_queue srv) jid = Some j"
    and w: "jid \<notin># waiting (srv_queue srv)" and tm: "srv_timers srv = pre @ (due, jid) # post" and due: "due \<le> now"
  defines "srv' \<equiv> fire_retry now (length pre) srv"
  shows "table (srv_queue srv') = (table (srv_queue srv))(jid \<mapsto> requeued True j)"
    "waiting (srv_queue srv') = add_mset jid (waiting (srv_queue srv))" "srv_timers srv' = pre @ post"
proof -
  obtain r q where rq: "Requeue (srv_queue srv) jid True = Inr (r, q)" "table q = (table (srv_queue srv))(jid \<mapsto> requeued True j)"
    "waiting q = add_mset jid (waiting (srv_queue srv))"
    using Requeue_spec [OF inv t w, of True] by blast
  have e: "srv' = srv\<lparr>srv_timers := pre @ post, srv_queue := q\<rparr>"
    using tm due rq(1) by (simp add: srv'_def fire_retry_def Let_def)
  show "table (srv_queue srv') = (table (srv_queue srv))(jid \<mapsto> requeued True j)"
    "waiting (srv_queue srv') = add_mset jid (waiting (srv_queue srv))" "srv_timers srv' = pre @ post"
    using rq by (simp_all add: e)
qed

text \<open>
  C23. Retries: a failure report for a single job with retries left marks the job failed,
  sends nothing, stores no dead letter, and starts exactly one timer, \<open>10 n\<^sup>2\<close> seconds long
  before retry \<open>n\<close>; when it fires the job waits again, with its retry counted and its
  worker, times and output cleared.
\<close>

theorem failed_job_retries:
  assumes "gs_inv (srv_queue srv)" "table (srv_queue srv) (rrJobId req) = Some j" "rrJobId req \<notin># waiting (srv_queue srv)"
    and "\<not> rrSuccess req" "GroupID j = []" "RetryCount j < MaxRetries j" "State j \<noteq> StateCancelled"
    and "0 \<le> RetryCount j" "RetryCount j < 30370"
  shows "let srv1 = ReportResult now ok srv req; n = RetryCount j + 1; due = now + 10 * n * n * Second;
      srv2 = fire_retry due (length (srv_timers srv)) srv1
    in table (srv_queue srv1) (rrJobId req) =
         Some (j\<lparr>State := StateFailed, Output := rrOutput req, Error := rrError req, EndTime := now\<rparr>) \<and>
       srv_sent srv1 = srv_sent srv \<and> srv_store srv1 = srv_store srv \<and>
       srv_timers srv1 = srv_timers srv @ [(due, rrJobId req)] \<and>
       table (srv_queue srv2) (rrJobId req) = Some (j\<lparr>State := StateQueued, RetryCount := n, WorkerNode := [],
         StartTime := zero_time, EndTime := zero_time, Output := [], Error := []\<rparr>) \<and>
       waiting (srv_queue srv2) = add_mset (rrJobId req) (waiting (srv_queue srv)) \<and> srv_timers srv2 = srv_timers srv"
proof -
  note r = report_retry [OF assms(1,2,4-6), of now ok]
  let ?f = "finished now False (rrOutput req) (rrError req) j" and ?s = "ReportResult now ok srv req"
  have n: "i64 (RetryCount j + 1) = RetryCount j + 1" using assms(8,9) by (simp add: in_i64_def)
  have b: "max 0 (retry_backoff (RetryCount j + 1)) = 10 * (RetryCount j + 1) * (RetryCount j + 1) * Second"
    using retry_backoff_exact [of "RetryCount j + 1"] assms(8,9) by (simp add: max_def Second_def mult_nonneg_nonneg)
  have t1: "table (srv_queue ?s) (rrJobId req) = Some ?f" "rrJobId req \<notin># waiting (srv_queue ?s)"
    "srv_timers ?s = srv_timers srv @ (now + 10 * (RetryCount j + 1) * (RetryCount j + 1) * Second, rrJobId req) # []"
    using r n b assms(3) by simp_all
  note f = fire_retry_effect [OF r(2) t1(1,2,3) order_refl]
  show ?thesis
    using r f b n assms(7) t1 by (simp add: Let_def finished_def requeued_def)
qed

theorem failed_job_retries_witness:
  "srv_timers (ReportResult 9 True (ex_server ex_running) ex_failure) = [(9 + 10 * Second, ''a'')]"
  using failed_job_retries [of "ex_server ex_running" ex_failure ex_run_job 9 True] ex_running_facts
  by (simp add: ex_failure_def Let_def ex_server_def state_defs)

text \<open>
  C39. A cancelled job comes back: a running single job with retries left is cancelled, the
  cancellation makes its worker report the failure \<open>cancelled\<close>, and \<open>ReportResult\<close>, which
  does not look at the state, starts a retry timer; when it fires the cancelled job is
  queued again.
\<close>

theorem cancelled_job_is_resurrected:
  assumes inv: "gs_inv (srv_queue srv)" and t: "table (srv_queue srv) jid = Some j" and run: "State j = StateRunning"
    and "GroupID j = []" "RetryCount j < MaxRetries j"
  shows "let (reply, srv1) = CancelJob t1 srv jid;
      srv2 = ReportResult t2 ok srv1 \<lparr>rrJobId = jid, rrWorkerNode = WorkerNode j, rrSuccess = False, rrOutput = out, rrError = ''cancelled''\<rparr>;
      srv3 = fire_retry (fst (last (srv_timers srv2))) (length (srv_timers srv)) srv2
    in cjStatus reply = ''CANCELLED'' \<and>
       map_option State (table (srv_queue srv1) jid) = Some StateCancelled \<and>
       map_option State (table (srv_queue srv2) jid) = Some StateCancelled \<and>
       map_option State (table (srv_queue srv3) jid) = Some StateQueued \<and> jid \<in># waiting (srv_queue srv3)"
proof -
  obtain r k q where c: "Cancel t1 (srv_queue srv) jid = (r, k, q)" by (metis prod_cases3)
  have act: "active j" using run by (simp add: active_def)
  note cs = Cancel_active [OF inv t act c]
  obtain job where job: "r = Some job" using cs(2) by auto
  obtain reply srv1 where s1: "CancelJob t1 srv jid = (reply, srv1)" by fastforce
  have q1: "srv_queue srv1 = q" using CancelJob_sel(1) [of t1 srv jid] s1 c by simp
  have tm1: "srv_timers srv1 = srv_timers srv" using CancelJob_sel(3) [of t1 srv jid] s1 by simp
  have st: "cjStatus reply = ''CANCELLED''" using s1 c job cs(1) by (auto simp: CancelJob_def)
  let ?req = "\<lparr>rrJobId = jid, rrWorkerNode = WorkerNode j, rrSuccess = False, rrOutput = out, rrError = ''cancelled''\<rparr>"
  let ?s2 = "ReportResult t2 ok srv1 ?req"
  have w1: "jid \<notin># waiting q"
  proof -
    obtain p where p: "jobs (srv_queue srv) jid = Some p" "j = noidx (mem (srv_queue srv) p)"
      using t by (auto simp: table_def split: option.splits)
    then have "jid \<notin># waiting (srv_queue srv)" using gs_invD(7) [OF inv p(1)] in_waiting_iff [OF inv p(1)] run by auto
    then show ?thesis using cs(6) by simp
  qed
  have t1: "table (srv_queue srv1) (rrJobId ?req) = Some (cancelled t1 j)" using cs(5) q1 by simp
  have i1: "gs_inv (srv_queue srv1)" using cs(3) q1 by simp
  note rp = report_retry [OF i1 t1, of t2 ok]
  have fin: "finished t2 False out ''cancelled'' (cancelled t1 j) = cancelled t1 j" by (simp add: finished_def cancelled_def)
  have r2: "table (srv_queue ?s2) jid = Some (cancelled t1 j)" "gs_inv (srv_queue ?s2)" "jid \<notin># waiting (srv_queue ?s2)"
    "\<exists>due. srv_timers ?s2 = srv_timers srv @ (due, jid) # []"
    using rp assms(4,5) w1 q1 tm1 fin by (simp_all add: cancelled_def)
  then obtain due where due: "srv_timers ?s2 = srv_timers srv @ (due, jid) # []" by blast
  note f = fire_retry_effect [OF r2(2,1,3) due order_refl]
  show ?thesis using s1 st t1 r2 f due by (simp add: Let_def cancelled_def requeued_def)
qed

theorem cancelled_job_is_resurrected_witness:
  "''a'' \<in># waiting (srv_queue (fire_retry (9 + 10 * Second) 0
     (ReportResult 9 True (snd (CancelJob 8 (ex_server ex_running) ''a''))
       \<lparr>rrJobId = ''a'', rrWorkerNode = ''1'', rrSuccess = False, rrOutput = [], rrError = ''cancelled''\<rparr>)))"
proof -
  let ?req = "\<lparr>rrJobId = ''a'', rrWorkerNode = ''1'', rrSuccess = False, rrOutput = [], rrError = ''cancelled''\<rparr>"
  let ?s = "snd (CancelJob 8 (ex_server ex_running) ''a'')"
  obtain r k q where c: "Cancel 8 ex_running ''a'' = (r, k, q)" by (metis prod_cases3)
  have act: "active ex_run_job" "table ex_running ''a'' = Some ex_run_job" by (simp_all add: active_def ex_running_facts)
  note cs = Cancel_active [OF ex_running_facts(1) act(2,1) c]
  have q: "srv_queue ?s = q" "srv_timers ?s = []" using c by (simp_all add: CancelJob_sel) (simp add: ex_server_def)
  have i1: "gs_inv (srv_queue ?s)" and t1: "table (srv_queue ?s) (rrJobId ?req) = Some (cancelled 8 ex_run_job)"
    using cs q by simp_all
  have tm: "srv_timers (ReportResult 9 True ?s ?req) = [(9 + 10 * Second, ''a'')]"
    using report_retry(6) [OF i1 t1, of 9 True] retry_backoff_exact [of 1] q by (simp add: cancelled_def i64_def Second_def)
  show ?thesis
    using cancelled_job_is_resurrected [of "ex_server ex_running" "''a''" ex_run_job 8 9 True "[]"] ex_running_facts tm
    by (simp add: Let_def case_prod_beta) (simp add: ex_server_def)
qed

end
