(* ===== verification/Loop_Properties.thy ===== *)
theory Loop_Properties
  imports Handler_Properties
begin

text \<open>
  What the master's background activities do: the dispatch handshake, the walltime
  enforcer and the loss of a worker.
\<close>

definition is_running :: "GlobalScheduler \<Rightarrow> string \<Rightarrow> bool" where
  "is_running gs jid = (case table gs jid of None \<Rightarrow> False | Some j \<Rightarrow> State j = StateRunning)"

subsection \<open>The dispatch handshake\<close>

definition back_in_queue :: "Job \<Rightarrow> Job" where
  "back_in_queue j = j\<lparr>State := StateQueued, WorkerNode := [], StartTime := zero_time\<rparr>"

lemma requeue_timed_out_spec:
  fixes srv :: "'prg schedulerServer" and now :: Time
  assumes "gs_inv (srv_queue srv)" "distinct jids"
  defines "srv' \<equiv> requeue_timed_out now srv jids"
  shows "gs_inv (srv_queue srv') \<and>
    table (srv_queue srv') = (\<lambda>jid. if jid \<in> set jids \<and> is_running (srv_queue srv) jid
       then map_option back_in_queue (table (srv_queue srv) jid) else table (srv_queue srv) jid) \<and>
    waiting (srv_queue srv') = waiting (srv_queue srv) + mset (filter (is_running (srv_queue srv)) jids)"
  using assms(1,2) unfolding srv'_def
proof (induction jids arbitrary: srv)
  case (Cons jid jids)
  show ?case
  proof (cases "is_running (srv_queue srv) jid")
    case False
    have "requeue_timed_out now srv (jid # jids) = requeue_timed_out now srv jids"
      using GetJob_table [OF Cons.prems(1), of jid] False by (auto simp: is_running_def)
    then show ?thesis using Cons.IH [OF Cons.prems(1)] Cons.prems(2) False by (auto simp: fun_eq_iff)
  next
    case True
    then obtain j where j: "table (srv_queue srv) jid = Some j" "State j = StateRunning"
      by (auto simp: is_running_def split: option.splits)
    obtain r ok q where rq: "RequeueRunningJob (srv_queue srv) jid = (r, ok, q)" by (metis prod_cases3)
    note rr = RequeueRunningJob_spec [OF Cons.prems(1) j rq]
    obtain job where job: "GetJob (srv_queue srv) jid = (Some job, True)" "j = noidx job"
      using GetJob_table [OF Cons.prems(1), of jid] j(1) by auto
    obtain s2 where s2: "requeue_timed_out now srv (jid # jids) = requeue_timed_out now s2 jids" "srv_queue s2 = q"
      using job j(2) rq by (auto simp: Let_def)
    have run: "is_running q k \<longleftrightarrow> is_running (srv_queue srv) k \<and> k \<noteq> jid" for k
      by (simp add: is_running_def rr(5))
    have t: "table q = (table (srv_queue srv))(jid \<mapsto> back_in_queue j)" using rr(5) by (simp add: back_in_queue_def)
    have f: "filter (is_running q) jids = filter (is_running (srv_queue srv)) jids"
      using Cons.prems(2) run by (auto intro!: filter_cong)
    let ?s = "requeue_timed_out now s2 jids"
    have ih: "gs_inv (srv_queue ?s)" "table (srv_queue ?s) = (\<lambda>jid. if jid \<in> set jids \<and> is_running q jid
         then map_option back_in_queue (table q jid) else table q jid)"
      "waiting (srv_queue ?s) = waiting q + mset (filter (is_running q) jids)"
      using Cons.IH [of s2] Cons.prems(2) rr(3) s2(2) by auto
    have "table (srv_queue ?s) = (\<lambda>k. if k \<in> set (jid # jids) \<and> is_running (srv_queue srv) k
       then map_option back_in_queue (table (srv_queue srv) k) else table (srv_queue srv) k)"
      using Cons.prems(2) True j(1) by (auto simp: ih(2) t run fun_eq_iff)
    moreover have "waiting (srv_queue ?s) = waiting (srv_queue srv) + mset (filter (is_running (srv_queue srv)) (jid # jids))"
      unfolding ih(3) f rr(6) using True by simp
    ultimately show ?thesis using ih(1) s2(1) by simp
  qed
qed simp

definition overdue :: "Time \<Rightarrow> (string \<rightharpoonup> Time) \<Rightarrow> string \<Rightarrow> bool" where
  "overdue now pending jid = (case pending jid of None \<Rightarrow> False | Some t \<Rightarrow> t + 10 * Second < now)"

lemma timed_out_jobs_eq: "timed_out_jobs now order pending = filter (overdue now pending) order"
proof -
  have "10 * Second < time_Sub now t \<longleftrightarrow> t + 10 * Second < now" for t
    using time_Sub_greater [of "10 * Second" now t] by (simp add: Second_def)
  then have "(case pending jid of None \<Rightarrow> False | Some t \<Rightarrow> 10 * Second < time_Sub now t) = overdue now pending jid" for jid
    by (simp add: overdue_def split: option.split)
  then show ?thesis by (simp add: timed_out_jobs_def)
qed

lemma overdue_pending: "range_order order pending \<Longrightarrow> overdue now pending jid \<Longrightarrow> jid \<in> set order"
  by (auto simp: overdue_def range_order_def split: option.splits)

lemma handshake_spec:
  assumes "gs_inv (srv_queue srv)" "range_order order (srv_pending srv)"
  shows "let srv' = timeout_tick now order srv; q = srv_queue srv; late = (\<lambda>jid. overdue now (srv_pending srv) jid \<and> is_running q jid)
    in table (srv_queue srv') = (\<lambda>jid. if late jid then map_option back_in_queue (table q jid) else table q jid) \<and>
       waiting (srv_queue srv') = waiting q + mset (filter late order) \<and>
       srv_pending srv' = (\<lambda>jid. if overdue now (srv_pending srv) jid then None else srv_pending srv jid) \<and>
       srv_sent srv' = srv_sent srv"
proof -
  let ?out = "timed_out_jobs now order (srv_pending srv)"
  define s where "s = srv\<lparr>srv_pending := (\<lambda>jid. if jid \<in> set ?out then None else srv_pending srv jid)\<rparr>"
  have o: "jid \<in> set ?out \<longleftrightarrow> overdue now (srv_pending srv) jid" for jid
    using overdue_pending [OF assms(2)] by (auto simp: timed_out_jobs_eq)
  have eq: "timeout_tick now order srv = requeue_timed_out now s ?out" by (simp add: timeout_tick_def Let_def s_def)
  have s: "srv_queue s = srv_queue srv" "srv_sent s = srv_sent srv"
    "srv_pending s = (\<lambda>jid. if overdue now (srv_pending srv) jid then None else srv_pending srv jid)"
    by (simp_all add: s_def o)
  have rest: "srv_pending (requeue_timed_out now s jids) = srv_pending s \<and> srv_sent (requeue_timed_out now s jids) = srv_sent s" for s jids
    by (induction jids arbitrary: s) (auto simp: Let_def split: prod.split option.split bool.split)
  have "filter (is_running (srv_queue srv)) ?out =
      filter (\<lambda>jid. overdue now (srv_pending srv) jid \<and> is_running (srv_queue srv) jid) order"
    by (simp add: timed_out_jobs_eq conj_commute)
  moreover have "distinct ?out" using assms(2) by (simp add: timed_out_jobs_eq range_order_def)
  ultimately show ?thesis
    using requeue_timed_out_spec [of s ?out now, unfolded s] assms(1) rest [of s ?out]
    by (simp add: eq Let_def o s)
qed

text \<open>
  C26. The dispatch handshake: a check requeues exactly the running jobs whose dispatch has
  gone unacknowledged for more than ten seconds. They wait again, without a worker, every
  other job keeps its state, the overdue entries (and no others) are dropped from the
  table of pending dispatches, and nothing is sent.
\<close>

theorem handshake_exact:
  assumes "gs_inv (srv_queue srv)" "range_order order (srv_pending srv)"
  shows "let srv' = timeout_tick now order srv; q = srv_queue srv; late = (\<lambda>jid. overdue now (srv_pending srv) jid \<and> is_running q jid)
    in table (srv_queue srv') = (\<lambda>jid. if late jid then map_option back_in_queue (table q jid) else table q jid) \<and>
       waiting (srv_queue srv') = waiting q + mset (filter late order) \<and>
       srv_pending srv' = (\<lambda>jid. if overdue now (srv_pending srv) jid then None else srv_pending srv jid) \<and>
       srv_sent srv' = srv_sent srv"
  by (rule handshake_spec [OF assms])

theorem handshake_exact_witness:
  "waiting (srv_queue (timeout_tick (8 + 10 * Second) [''a''] ((ex_server ex_running)\<lparr>srv_pending := [''a'' \<mapsto> 7]\<rparr>))) = {#''a''#}"
  using handshake_exact [of "(ex_server ex_running)\<lparr>srv_pending := [''a'' \<mapsto> 7]\<rparr>" "[''a'']" "8 + 10 * Second"] ex_running_facts
  by (simp add: Let_def range_order_def overdue_def is_running_def)

subsection \<open>Walltime\<close>

lemma ListJobs_spec:
  assumes inv: "gs_inv gs"
  shows "map ID (ListJobs order gs st) = filter (\<lambda>jid. \<exists>j. table gs jid = Some j \<and> (st = [] \<or> State j = st)) order"
    and "j \<in> set (ListJobs order gs st) \<Longrightarrow> table gs (ID j) = Some (noidx j) \<and> (st = [] \<or> State j = st)"
proof -
  show "map ID (ListJobs order gs st) = filter (\<lambda>jid. \<exists>j. table gs jid = Some j \<and> (st = [] \<or> State j = st)) order"
  proof (induction order)
    case (Cons k ks)
    then show ?case using gs_invD(4) [OF inv, of k] by (auto simp: ListJobs_def table_def split: option.split)
  qed (simp add: ListJobs_def)
  assume "j \<in> set (ListJobs order gs st)"
  then obtain k where k: "j \<in> set (case jobs gs k of None \<Rightarrow> []
       | Some p \<Rightarrow> if st = [] \<or> State (mem gs p) = st then [mem gs p] else [])"
    by (auto simp: ListJobs_def)
  then obtain p where "jobs gs k = Some p" "j = mem gs p" "st = [] \<or> State j = st"
    by (cases "jobs gs k") (auto split: if_splits)
  then show "table gs (ID j) = Some (noidx j) \<and> (st = [] \<or> State j = st)"
    using gs_invD(4) [OF inv] by (simp add: table_def)
qed

lemma not_waiting_running:
  assumes "gs_inv gs" "table gs jid = Some j" "State j = StateRunning"
  shows "jid \<notin># waiting gs"
proof -
  obtain p where p: "jobs gs jid = Some p" "j = noidx (mem gs p)"
    using assms(2) by (auto simp: table_def split: option.splits)
  then show ?thesis using gs_invD(7) [OF assms(1) p(1)] in_waiting_iff [OF assms(1) p(1)] assms(3) by auto
qed

definition expired :: "Time \<Rightarrow> Job \<Rightarrow> bool" where
  "expired now j \<longleftrightarrow> State j = StateRunning \<and> 0 < WalltimeSeconds j \<and> walltime_deadline j < now"

lemma expired_noidx [simp]: "expired now (noidx j) = expired now j"
  by (simp add: expired_def noidx_def walltime_deadline_def)

lemma Cancel_running:
  fixes now :: Time
  assumes "gs_inv gs" "table gs jid = Some j" "State j = StateRunning"
  defines "q \<equiv> snd (snd (Cancel now gs jid))"
  shows "gs_inv q" "table q = (table gs)(jid \<mapsto> cancelled now j)" "waiting q = waiting gs"
proof -
  obtain r k g where c: "Cancel now gs jid = (r, k, g)" by (metis prod_cases3)
  have "active j" using assms(3) by (simp add: active_def)
  note s = Cancel_active [OF assms(1,2) this c]
  show "gs_inv q" "table q = (table gs)(jid \<mapsto> cancelled now j)" "waiting q = waiting gs"
    using s not_waiting_running [OF assms(1-3)] by (simp_all add: q_def c diff_single_trivial)
qed

lemma walltime_kill_sent:
  "srv_sent (walltime_kill now srv job) = srv_sent srv @ [cancel_payload (WorkerNode job) (ID job)]"
  by (simp add: walltime_kill_def Let_def)

lemma walltime_loop_spec:
  fixes srv :: "'prg schedulerServer"
  assumes "gs_inv (srv_queue srv)" "distinct (map ID js)"
    "\<forall>j\<in>set js. table (srv_queue srv) (ID j) = Some (noidx j) \<and> State j = StateRunning"
  shows "let srv' = walltime_loop now srv js in
    table (srv_queue srv') = (\<lambda>jid. if \<exists>j\<in>set js. ID j = jid \<and> expired now j
       then map_option (cancelled now) (table (srv_queue srv) jid) else table (srv_queue srv) jid) \<and>
    waiting (srv_queue srv') = waiting (srv_queue srv) \<and>
    srv_sent srv' = srv_sent srv @ map (\<lambda>j. cancel_payload (WorkerNode j) (ID j)) (filter (expired now) js)"
  using assms
proof (induction js arbitrary: srv)
  case (Cons j js)
  have tj: "table (srv_queue srv) (ID j) = Some (noidx j)" "State j = StateRunning" using Cons.prems(3) by auto
  show ?case
  proof (cases "expired now j")
    case False
    then have "walltime_loop now srv (j # js) = walltime_loop now srv js" using tj(2) by (auto simp: expired_def)
    then show ?thesis using Cons False by (auto simp: Let_def fun_eq_iff)
  next
    case True
    let ?s = "walltime_kill now srv j"
    have "State (noidx j) = StateRunning" using tj(2) by (simp add: noidx_def)
    note c = Cancel_running [OF Cons.prems(1) tj(1) this, of now]
    have q: "table (srv_queue ?s) = (table (srv_queue srv))(ID j \<mapsto> cancelled now (noidx j))"
      "waiting (srv_queue ?s) = waiting (srv_queue srv)" "gs_inv (srv_queue ?s)" using c by simp_all
    have others: "\<forall>k\<in>set js. table (srv_queue ?s) (ID k) = Some (noidx k) \<and> State k = StateRunning"
    proof
      fix k assume k: "k \<in> set js"
      then have "ID k \<noteq> ID j" using Cons.prems(2) by (simp add: rev_image_eqI) (metis image_eqI)
      then show "table (srv_queue ?s) (ID k) = Some (noidx k) \<and> State k = StateRunning"
        using Cons.prems(3) k c(2) by simp
    qed
    have "distinct (map ID js)" "ID j \<notin> ID ` set js" using Cons.prems(2) by auto
    note ih = Cons.IH [OF q(3) this(1) others] this(2)
    have "walltime_loop now srv (j # js) = walltime_loop now ?s js" using True by (simp add: expired_def)
    then show ?thesis
      using ih True tj(1) by (auto simp: Let_def c(2,3) fun_eq_iff walltime_kill_sent cancelled_def)
  qed
qed simp

text \<open>
  C27. The walltime enforcer cancels exactly the running jobs with a limit whose deadline
  has passed: each of them, and no other job, becomes cancelled, its worker is told, and
  nothing else is sent; the queue does not change.
\<close>

theorem walltime_exact:
  assumes inv: "gs_inv (srv_queue srv)" and o: "range_order order (jobs (srv_queue srv))"
  shows "let srv' = walltime_tick now order srv; T = table (srv_queue srv);
      late = (\<lambda>jid. case T jid of None \<Rightarrow> False | Some j \<Rightarrow> expired now j)
    in table (srv_queue srv') = (\<lambda>jid. if late jid then map_option (cancelled now) (T jid) else T jid) \<and>
       waiting (srv_queue srv') = waiting (srv_queue srv) \<and>
       srv_sent srv' = srv_sent srv @
         map (\<lambda>jid. cancel_payload (WorkerNode (the (T jid))) jid) (filter late order)"
proof -
  let ?js = "RunningJobs order (srv_queue srv)" and ?T = "table (srv_queue srv)"
  have spec: "\<forall>j\<in>set ?js. ?T (ID j) = Some (noidx j) \<and> State j = StateRunning"
    using ListJobs_spec(2) [OF inv] by (auto simp: RunningJobs_def StateRunning_def)
  have ids: "map ID ?js = filter (is_running (srv_queue srv)) order"
    unfolding RunningJobs_def ListJobs_spec(1) [OF inv]
    by (intro filter_cong) (auto simp: is_running_def StateRunning_def split: option.splits)
  have d: "distinct (map ID ?js)" using o unfolding ids by (simp add: range_order_def)
  let ?late = "\<lambda>jid. case ?T jid of None \<Rightarrow> False | Some j \<Rightarrow> expired now j"
  have late: "?late jid \<longleftrightarrow> (\<exists>j\<in>set ?js. ID j = jid \<and> expired now j)" for jid
  proof
    assume l: "?late jid"
    then obtain j where j: "?T jid = Some j" "expired now j" by (auto split: option.splits)
    then have "jid \<in> set (map ID ?js)" using o inv unfolding ids
      by (auto simp: is_running_def expired_def range_order_def table_def split: option.splits)
    then obtain k where "k \<in> set ?js" "ID k = jid" by auto
    then show "\<exists>j\<in>set ?js. ID j = jid \<and> expired now j" using spec j by (intro bexI [of _ k]) auto
  qed (use spec in auto)
  have sent: "map (\<lambda>j. cancel_payload (WorkerNode j) (ID j)) (filter (expired now) ?js) =
      map (\<lambda>jid. cancel_payload (WorkerNode (the (?T jid))) jid) (filter ?late order)"
  proof -
    have "filter ?late order = filter ?late (map ID ?js)" unfolding ids filter_filter
      by (intro filter_cong) (auto simp: is_running_def expired_def split: option.splits)
    also have "\<dots> = map ID (filter (expired now) ?js)" unfolding filter_map
      by (intro arg_cong [where f = "map ID"] filter_cong) (use spec in \<open>auto simp: comp_def\<close>)
    finally show ?thesis using spec by (auto simp: noidx_def)
  qed
  show ?thesis
    using walltime_loop_spec [OF inv d spec, of now] unfolding walltime_tick_def Let_def late sent by blast
qed

lemma dom_table: "dom (table gs) = dom (jobs gs)"
  by (auto simp: table_def split: option.splits)

lemma ex_running_order: "range_order [''a''] (jobs ex_running)"
  using dom_table [of ex_running] by (simp add: range_order_def ex_running_facts)

theorem walltime_exact_witness:
  "srv_sent (walltime_tick (8 + 60 * Second) [''a''] (ex_server ex_running)) = [cancel_payload ''1'' ''a'']"
proof -
  have "expired (8 + 60 * Second) ex_run_job"
    by (simp add: expired_def walltime_deadline_def time_Add_def Second_def in_i64_def)
  then show ?thesis
    using walltime_exact [of "ex_server ex_running" "[''a'']" "8 + 60 * Second"] ex_running_facts ex_running_order
    by (simp add: Let_def)
qed

subsection \<open>A worker leaves\<close>

definition on_node :: "GlobalScheduler \<Rightarrow> string \<Rightarrow> string \<Rightarrow> bool" where
  "on_node gs n jid = (case table gs jid of None \<Rightarrow> False | Some j \<Rightarrow> State j = StateRunning \<and> WorkerNode j = n)"

lemma RunningJobsOnNode_spec:
  assumes inv: "gs_inv gs"
  shows "map ID (RunningJobsOnNode order gs n) = filter (on_node gs n) order"
    and "j \<in> set (RunningJobsOnNode order gs n) \<Longrightarrow> table gs (ID j) = Some (noidx j) \<and> State j = StateRunning \<and> WorkerNode j = n"
proof -
  show "map ID (RunningJobsOnNode order gs n) = filter (on_node gs n) order"
  proof (induction order)
    case (Cons k ks)
    then show ?case using gs_invD(4) [OF inv, of k]
      by (auto simp: RunningJobsOnNode_def on_node_def table_def noidx_def split: option.split)
  qed (simp add: RunningJobsOnNode_def)
  assume "j \<in> set (RunningJobsOnNode order gs n)"
  then obtain k where "j \<in> set (case jobs gs k of None \<Rightarrow> []
       | Some p \<Rightarrow> if State (mem gs p) = StateRunning \<and> WorkerNode (mem gs p) = n then [mem gs p] else [])"
    by (auto simp: RunningJobsOnNode_def)
  then obtain p where "jobs gs k = Some p" "j = mem gs p" "State j = StateRunning \<and> WorkerNode j = n"
    by (cases "jobs gs k") (auto split: if_splits)
  then show "table gs (ID j) = Some (noidx j) \<and> State j = StateRunning \<and> WorkerNode j = n"
    using gs_invD(4) [OF inv] by (simp add: table_def)
qed

definition lost :: "Time \<Rightarrow> Job \<Rightarrow> Job" where
  "lost now j = finished now False [] ''worker node lost'' j"

lemma lost_lost [simp]: "lost now (lost now j) = lost now j"
  by (simp add: lost_def finished_def)

definition fail_running :: "JobGroup \<Rightarrow> JobGroup" where
  "fail_running g = (if gState g = GroupRunning then g\<lparr>gState := GroupFailed\<rparr> else g)"

lemma fail_running_twice [simp]: "fail_running (fail_running g) = fail_running g"
  by (simp add: fail_running_def GroupRunning_def GroupFailed_def)

text \<open>One lost job.\<close>

definition lose_one :: "Time \<Rightarrow> string \<Rightarrow> 'prg schedulerServer \<Rightarrow> Job \<Rightarrow> 'prg schedulerServer" where
  "lose_one now n srv job = lose_jobs now n srv [job]"

lemma lose_jobs_Cons: "lose_jobs now n srv (job # js) = lose_jobs now n (lose_one now n srv job) js"
  by (simp add: lose_one_def Let_def)

lemma lose_one_spec:
  fixes srv :: "'prg schedulerServer" and now :: Time and n :: string
  assumes inv: "gs_inv (srv_queue srv)" and t: "table (srv_queue srv) (ID job) = Some j"
  defines "s \<equiv> lose_one now n srv job"
  shows "gs_inv (srv_queue s)" "table (srv_queue s) = (table (srv_queue srv))(ID job \<mapsto> lost now j)"
    "waiting (srv_queue s) = waiting (srv_queue srv)" "srv_sent s = srv_sent srv"
    "groups (srv_queue s) = (\<lambda>gid. if gid = GroupID job \<and> gid \<noteq> [] then map_option fail_running (groups (srv_queue srv) gid)
       else groups (srv_queue srv) gid)"
    "srv_tracker s = Release (srv_tracker srv) n (GPUsRequired job) (CPUsRequired job) (MemoryRequiredMB job)"
proof -
  let ?q = "MarkCompleted now (srv_queue srv) (ID job) False [] ''worker node lost''"
  note m = MarkCompleted_spec [OF inv t refl, of now False "[]" "''worker node lost''"]
  have g: "groups ?q = groups (srv_queue srv)" using m(2) by (simp add: same_rest_def)
  have s: "srv_queue s = (if GroupID job \<noteq> [] \<and> (\<exists>g. groups ?q (GroupID job) = Some g \<and> gState g = GroupRunning)
      then SetGroupState ?q (GroupID job) GroupFailed else ?q)" "srv_sent s = srv_sent srv"
    "srv_tracker s = Release (srv_tracker srv) n (GPUsRequired job) (CPUsRequired job) (MemoryRequiredMB job)"
    by (auto simp: s_def lose_one_def Let_def GetGroup_def JobGroup_Copy_def GroupRunning_def GroupFailed_def split: option.split)
  show "gs_inv (srv_queue s)" "table (srv_queue s) = (table (srv_queue srv))(ID job \<mapsto> lost now j)"
    "waiting (srv_queue s) = waiting (srv_queue srv)" "srv_sent s = srv_sent srv"
    "srv_tracker s = Release (srv_tracker srv) n (GPUsRequired job) (CPUsRequired job) (MemoryRequiredMB job)"
    using m s by (simp_all add: lost_def)
  show "groups (srv_queue s) = (\<lambda>gid. if gid = GroupID job \<and> gid \<noteq> [] then map_option fail_running (groups (srv_queue srv) gid)
       else groups (srv_queue srv) gid)"
    using g by (auto simp: s(1) SetGroupState_def fail_running_def fun_eq_iff split: option.split)
qed

lemma lose_jobs_spec:
  fixes srv :: "'prg schedulerServer"
  assumes "gs_inv (srv_queue srv)" "\<forall>j\<in>set js. \<exists>jt. table (srv_queue srv) (ID j) = Some jt"
  shows "let s = lose_jobs now n srv js in
    table (srv_queue s) = (\<lambda>jid. if jid \<in> ID ` set js then map_option (lost now) (table (srv_queue srv) jid) else table (srv_queue srv) jid) \<and>
    waiting (srv_queue s) = waiting (srv_queue srv) \<and> srv_sent s = srv_sent srv \<and>
    groups (srv_queue s) = (\<lambda>gid. if gid \<in> GroupID ` set js \<and> gid \<noteq> [] then map_option fail_running (groups (srv_queue srv) gid)
       else groups (srv_queue srv) gid) \<and>
    srv_tracker s = foldl (\<lambda>gt j. Release gt n (GPUsRequired j) (CPUsRequired j) (MemoryRequiredMB j)) (srv_tracker srv) js"
  using assms
proof (induction js arbitrary: srv)
  case (Cons j js)
  obtain jt where jt: "table (srv_queue srv) (ID j) = Some jt" using Cons.prems(2) by auto
  let ?s = "lose_one now n srv j"
  note l = lose_one_spec [OF Cons.prems(1) jt, of now n]
  have "\<forall>k\<in>set js. \<exists>kt. table (srv_queue ?s) (ID k) = Some kt" using Cons.prems(2) by (simp add: l(2))
  note ih = Cons.IH [OF l(1) this]
  show ?case
    unfolding Let_def lose_jobs_Cons
    using ih by (auto simp: Let_def l fun_eq_iff option.map_comp comp_def jt)
qed simp

text \<open>
  C28. The loss of a worker: exactly the jobs running on it fail with \<open>worker node lost\<close>,
  their resources are released on that node, and their running groups fail. No other job
  changes, in particular not the ranks of the same gang on other nodes, and no cancel
  message is sent to anyone.
\<close>

theorem worker_lost_exact:
  assumes inv: "gs_inv (srv_queue srv)" and o: "range_order order (jobs (srv_queue srv))"
  shows "let srv' = OnLeave now order n srv; q = srv_queue srv; T = table q; js = RunningJobsOnNode order q n
    in table (srv_queue srv') = (\<lambda>jid. if on_node q n jid then map_option (lost now) (T jid) else T jid) \<and>
       waiting (srv_queue srv') = waiting q \<and> srv_sent srv' = srv_sent srv \<and>
       map ID js = filter (on_node q n) order \<and>
       groups (srv_queue srv') = (\<lambda>gid. if gid \<in> GroupID ` set js \<and> gid \<noteq> [] then map_option fail_running (groups q gid) else groups q gid) \<and>
       srv_tracker srv' = foldl (\<lambda>gt j. Release gt n (GPUsRequired j) (CPUsRequired j) (MemoryRequiredMB j)) (srv_tracker srv) js"
proof -
  let ?q = "srv_queue srv" let ?js = "RunningJobsOnNode order ?q n"
  note r = RunningJobsOnNode_spec [OF inv]
  have "ID ` set ?js = set (map ID ?js)" by simp
  also have "\<dots> = {jid. on_node ?q n jid}" unfolding r(1)
    using o inv by (auto simp: range_order_def on_node_def table_def split: option.splits)
  finally have ids: "jid \<in> ID ` set ?js \<longleftrightarrow> on_node ?q n jid" for jid by simp
  have "\<forall>j\<in>set ?js. \<exists>jt. table ?q (ID j) = Some jt" using r(2) by blast
  from lose_jobs_spec [OF inv this, of now n] show ?thesis
    unfolding OnLeave_def Let_def ids using r(1) by blast
qed

theorem worker_lost_exact_witness:
  "map_option State (table (srv_queue (OnLeave 9 [''a''] ''1'' (ex_server ex_running))) ''a'') = Some StateFailed"
  using worker_lost_exact [of "ex_server ex_running" "[''a'']" 9 "''1''"] ex_running_facts ex_running_order
  by (simp add: Let_def on_node_def lost_def finished_def state_defs)

end
