(* ===== verification/Result_Properties.thy ===== *)
theory Result_Properties
  imports Loop_Properties
begin

text \<open>
  Results that end a job: dead letters, gangs that fail as a whole, results that arrive
  after the handshake gave the job up, and the GPUs a job is told to use.
\<close>

subsection \<open>Dead letters\<close>

lemma report_final:
  assumes inv: "gs_inv (srv_queue srv)" and t: "table (srv_queue srv) (rrJobId req) = Some j"
    and nr: "\<not> (\<not> rrSuccess req \<and> GroupID j = [] \<and> RetryCount j < MaxRetries j)"
  shows "\<exists>job srv3 srv4 msg msg2.
    noidx job = finished now (rrSuccess req) (rrOutput req) (rrError req) j \<and> srv3 = reported now srv req job \<and>
    srv4 = (case srv_store srv of
       Some s \<Rightarrow> if \<not> rrSuccess req \<and> MaxRetries j \<le> RetryCount j \<and> 0 < MaxRetries j
         then srv_log now (rrJobId req) ''ERROR'' msg (srv3\<lparr>srv_store := Some (unless_error s (SaveDeadLetter ok s job))\<rparr>)
         else srv3
     | None \<Rightarrow> srv3) \<and>
    ReportResult now ok srv req =
      (let srv5 = (if GroupID j \<noteq> [] then handleGroupCompletion now (GroupID j) (rrJobId req) (rrSuccess req) srv4 else srv4);
           srv6 = srv_log now (rrJobId req) ''INFO'' msg2 srv5
       in if rrError req \<noteq> [] then srv_log now (rrJobId req) ''ERROR'' (rrError req) srv6 else srv6)"
proof -
  obtain job where job: "GetJob (MarkCompleted now (srv_queue srv) (rrJobId req) (rrSuccess req) (rrOutput req) (rrError req)) (rrJobId req) = (Some job, True)"
    "noidx job = finished now (rrSuccess req) (rrOutput req) (rrError req) j"
    using report_job [OF inv t] by blast
  have sel: "GroupID job = GroupID j" "RetryCount job = RetryCount j" "MaxRetries job = MaxRetries j"
    using same_noidx_fields [OF job(2)] by simp_all
  have w: "\<not> will_retry req job" using nr by (auto simp: will_retry_def sel)
  show ?thesis
    using ReportResult_known [OF job(1), of ok] job(2)
    unfolding Let_def if_not_P [OF w] dead_letter_def sel reported_sel(4) by blast
qed

text \<open>
  C25. Dead letters: a failure report for a single job whose retries are used up starts no
  timer and keeps the failed job, with its output and error, in the store's dead letters,
  where it can be read under its identifier.
\<close>

theorem exhausted_job_is_kept:
  assumes inv: "gs_inv (srv_queue srv)" and t: "table (srv_queue srv) (rrJobId req) = Some j" and id: "rrJobId req \<noteq> []"
    and fail: "\<not> rrSuccess req" and single: "GroupID j = []" and used: "0 < MaxRetries j" "MaxRetries j \<le> RetryCount j"
    and st: "srv_store srv = Some s"
  shows "let srv' = ReportResult now True srv req; f = finished now False (rrOutput req) (rrError req) j in
    srv_timers srv' = srv_timers srv \<and> table (srv_queue srv') (rrJobId req) = Some f \<and>
    map_option (\<lambda>s. GetDeadLetter s (rrJobId req)) (srv_store srv') = Some (Inr (stored_job f))"
proof -
  obtain job msg msg2 where r: "noidx job = finished now (rrSuccess req) (rrOutput req) (rrError req) j"
    "ReportResult now True srv req =
      (let srv4 = srv_log now (rrJobId req) ''ERROR'' msg
             ((reported now srv req job)\<lparr>srv_store := Some (unless_error s (SaveDeadLetter True s job))\<rparr>);
           srv6 = srv_log now (rrJobId req) ''INFO'' msg2 srv4
       in if rrError req \<noteq> [] then srv_log now (rrJobId req) ''ERROR'' (rrError req) srv6 else srv6)"
    using report_final [OF inv t, of now True] fail single used st by (auto simp: Let_def)
  have jid: "ID job = rrJobId req"
    using same_noidx_fields [OF r(1)] t gs_invD(4) [OF inv] by (auto simp: table_def split: option.splits)
  have "stored_job job = stored_job (finished now False (rrOutput req) (rrError req) j)"
    using r(1) fail stored_job_sel(6) [of job] by simp
  then have "GetDeadLetter (unless_error s (SaveDeadLetter True s job)) (rrJobId req) =
      Inr (stored_job (finished now False (rrOutput req) (rrError req) j))"
    using id jid by (simp add: GetDeadLetter_def SaveDeadLetter_def read_record_def)
  then show ?thesis
    using MarkCompleted_spec(4) [OF inv t refl, of now False "rrOutput req" "rrError req"] fail
    by (cases "rrError req = []") (simp_all add: Let_def r(2))
qed

theorem exhausted_job_is_kept_witness:
  "map_option (\<lambda>s. GetDeadLetter s ''a'')
     (srv_store (ReportResult 9 True ((ex_server (exec (OpEnqueue (ex_rjob\<lparr>RetryCount := 3\<rparr>)) NewGlobalScheduler))\<lparr>srv_store := Some empty_store\<rparr>) ex_failure))
   = Some (Inr (stored_job (finished 9 False [] ''exit status 1'' (noidx (ex_rjob\<lparr>RetryCount := 3, State := StateQueued\<rparr>)))))"
proof -
  let ?j = "ex_rjob\<lparr>RetryCount := 3\<rparr>"
  let ?q = "exec (OpEnqueue ?j) NewGlobalScheduler"
  have id: "ID ?j = ''a''" by (simp add: ex_rjob_def)
  have inv: "gs_inv ?q" by (rule exec_inv) (simp_all add: New_empty)
  have t: "table ?q ''a'' = Some (noidx (?j\<lparr>State := StateQueued\<rparr>))"
    using exec_Enqueue_spec(1) [OF New_empty(1), of ?j] id by (simp add: New_empty del: exec.simps)
  show ?thesis
    using exhausted_job_is_kept [of "(ex_server ?q)\<lparr>srv_store := Some empty_store\<rparr>" ex_failure, OF _ _ _ _ _ _ _ _ , of "noidx (?j\<lparr>State := StateQueued\<rparr>)" empty_store 9]
      inv t by (simp add: ex_failure_def Let_def ex_rjob_def ex_job_def noidx_def zero_job_def del: exec.simps)
qed


subsection \<open>A rank that fails\<close>

definition told :: "GlobalScheduler \<Rightarrow> string \<Rightarrow> string \<Rightarrow> bool" where
  "told gs jid k = (k \<noteq> jid \<and> (case table gs k of None \<Rightarrow> False | Some j \<Rightarrow> active j \<and> WorkerNode j \<noteq> []))"

definition stopped :: "Time \<Rightarrow> Job \<Rightarrow> Job" where
  "stopped now j = (if active j then cancelled now j else j)"

lemma stopped_twice [simp]: "stopped now (stopped now j) = stopped now j"
  by (simp add: stopped_def cancelled_def active_def state_defs)

lemma Cancel_any:
  fixes now :: Time
  assumes inv: "gs_inv gs" and c: "Cancel now gs jid = (r, ok, q)"
  shows "gs_inv q" "table q = (\<lambda>k. if k = jid then map_option (stopped now) (table gs k) else table gs k)"
    "groups q = groups gs" "ok \<longleftrightarrow> (\<exists>j. table gs jid = Some j \<and> active j)"
    "map_option noidx r = map_option (stopped now) (table gs jid)"
proof -
  have "gs_inv q \<and> table q = (\<lambda>k. if k = jid then map_option (stopped now) (table gs k) else table gs k) \<and>
    groups q = groups gs \<and> (ok \<longleftrightarrow> (\<exists>j. table gs jid = Some j \<and> active j)) \<and>
    map_option noidx r = map_option (stopped now) (table gs jid)"
  proof (cases "\<exists>j. table gs jid = Some j \<and> active j")
    case True
    then obtain j where j: "table gs jid = Some j" "active j" by blast
    show ?thesis using Cancel_active [OF inv j c] j by (auto simp: stopped_def same_rest_def fun_eq_iff)
  next
    case False
    then have "snd (Cancel now gs jid) = (False, gs) \<and> map_option noidx (fst (Cancel now gs jid)) = table gs jid"
      by (intro Cancel_inactive) (auto split: option.split)
    moreover have "map_option (stopped now) (table gs jid) = table gs jid"
      using False by (cases "table gs jid") (auto simp: stopped_def)
    ultimately show ?thesis using c inv False by (auto simp: fun_eq_iff)
  qed
  then show "gs_inv q" "table q = (\<lambda>k. if k = jid then map_option (stopped now) (table gs k) else table gs k)"
    "groups q = groups gs" "ok \<longleftrightarrow> (\<exists>j. table gs jid = Some j \<and> active j)"
    "map_option noidx r = map_option (stopped now) (table gs jid)" by blast+
qed

lemma stop_on_worker_sent: "srv_sent (stop_on_worker job srv) = srv_sent srv @
    (if WorkerNode job \<noteq> [] then [cancel_payload (WorkerNode job) (ID job)] else [])"
  by (simp add: stop_on_worker_def)

lemma cancel_siblings_spec:
  fixes srv :: "'prg schedulerServer" and now :: Time and jid :: string
  assumes "gs_inv (srv_queue srv)" "distinct jids" "well_typed (table (srv_queue srv))"
  defines "s \<equiv> cancel_siblings now jid jids srv" and "T \<equiv> table (srv_queue srv)"
  shows "table (srv_queue s) = (\<lambda>k. if k \<in> set jids \<and> k \<noteq> jid then map_option (stopped now) (T k) else T k) \<and>
    groups (srv_queue s) = groups (srv_queue srv) \<and> srv_timers s = srv_timers srv \<and>
    srv_sent s = srv_sent srv @ map (\<lambda>k. cancel_payload (WorkerNode (the (T k))) k) (filter (told (srv_queue srv) jid) jids)"
  using assms(1-3) unfolding s_def T_def
proof (induction jids arbitrary: srv)
  case (Cons k jids)
  show ?case
  proof (cases "k = jid")
    case True
    then show ?thesis using Cons.IH [of srv] Cons.prems by (auto simp: told_def fun_eq_iff)
  next
    case False
    obtain r ok q where c: "Cancel now (srv_queue srv) k = (r, ok, q)" by (metis prod_cases3)
    note ca = Cancel_any [OF Cons.prems(1) c]
    define s1 where "s1 = (if ok then stop_on_worker (the r) (srv\<lparr>srv_queue := q\<rparr>) else srv\<lparr>srv_queue := q\<rparr>)"
    have q1: "srv_queue s1 = q" "srv_timers s1 = srv_timers srv" by (simp_all add: s1_def)
    have r: "r \<noteq> None" if ok using that ca(4,5) by auto
    have step: "cancel_siblings now jid (k # jids) srv = cancel_siblings now jid jids s1"
      using False c r by (auto simp: s1_def split: option.split bool.split)
    have sent: "srv_sent s1 = srv_sent srv @
        (if told (srv_queue srv) jid k then [cancel_payload (WorkerNode (the (table (srv_queue srv) k))) k] else [])"
    proof (cases ok)
      case True
      obtain j where j: "table (srv_queue srv) k = Some j" "active j" using ca(4) True by auto
      obtain job where job: "r = Some job" using r [OF True] by auto
      have nj: "noidx job = cancelled now j" using ca(5) j job by (simp add: stopped_def)
      have "WorkerNode job = WorkerNode j" "ID job = ID j" using same_noidx_fields [OF nj] by (simp_all add: cancelled_def)
      moreover have "ID j = k" using Cons.prems(3) j(1) by (auto simp: well_typed_def)
      ultimately show ?thesis using True j job False by (simp add: s1_def stop_on_worker_sent told_def)
    next
      case no: False
      then show ?thesis using ca(4) False by (auto simp: s1_def told_def split: option.split)
    qed
    have wt: "well_typed (table q)" unfolding well_typed_def
    proof (intro allI impI)
      fix x j assume "table q x = Some j"
      then obtain j0 where j0: "table (srv_queue srv) x = Some j0" "j = j0 \<or> j = stopped now j0"
        by (auto simp: ca(2) split: if_splits)
      have "ID j0 = x \<and> State j0 \<in> job_states" using Cons.prems(3) j0(1) unfolding well_typed_def by blast
      then show "ID j = x \<and> State j \<in> job_states" using j0(2) by (auto simp: stopped_def cancelled_def)
    qed
    have kn: "k \<notin> set jids" and d: "distinct jids" using Cons.prems(2) by auto
    have tl: "told q jid x = told (srv_queue srv) jid x" "table q x = table (srv_queue srv) x" if "x \<in> set jids" for x
      using that kn by (auto simp: told_def ca(2))
    have f: "map (\<lambda>k. cancel_payload (WorkerNode (the (table q k))) k) (filter (told q jid) jids) =
        map (\<lambda>k. cancel_payload (WorkerNode (the (table (srv_queue srv) k))) k) (filter (told (srv_queue srv) jid) jids)"
    proof -
      have "filter (told q jid) jids = filter (told (srv_queue srv) jid) jids" using tl by (intro filter_cong) auto
      then show ?thesis using tl by auto
    qed
    note ih = Cons.IH [of s1, unfolded q1, OF ca(1) d wt]
    show ?thesis
      using ih kn False unfolding step f sent by (auto simp: ca(2,3) fun_eq_iff)
  qed
qed simp

text \<open>What a failed rank does to its group.\<close>

lemma group_failure_spec:
  fixes srv :: "'prg schedulerServer" and now :: Time and jid :: string
  assumes "gs_inv (srv_queue srv)" "well_typed (table (srv_queue srv))"
    and g: "groups (srv_queue srv) gid = Some g" "gState g \<noteq> GroupCompleted" "gState g \<noteq> GroupFailed" "distinct (gJobIDs g)"
  defines "s \<equiv> handleGroupCompletion now gid jid False srv" and "T \<equiv> table (srv_queue srv)"
  shows "table (srv_queue s) = (\<lambda>k. if k \<in> set (gJobIDs g) \<and> k \<noteq> jid then map_option (stopped now) (T k) else T k)"
    "groups (srv_queue s) gid = Some (g\<lparr>gState := GroupFailed\<rparr>)" "srv_timers s = srv_timers srv"
    "srv_sent s = srv_sent srv @ map (\<lambda>k. cancel_payload (WorkerNode (the (T k))) k) (filter (told (srv_queue srv) jid) (gJobIDs g))"
proof -
  define c where "c = cancel_siblings now jid (gJobIDs g) srv"
  note cs = cancel_siblings_spec [OF assms(1) g(4) assms(2), of now jid, folded c_def T_def]
  have h: "s = c\<lparr>srv_queue := SetGroupState (srv_queue c) gid GroupFailed\<rparr>"
    using g(1-3) by (simp add: s_def handleGroupCompletion_def GetGroup_def JobGroup_Copy_def c_def group_state_defs Let_def)
  show "table (srv_queue s) = (\<lambda>k. if k \<in> set (gJobIDs g) \<and> k \<noteq> jid then map_option (stopped now) (T k) else T k)"
    "srv_timers s = srv_timers srv"
    "srv_sent s = srv_sent srv @ map (\<lambda>k. cancel_payload (WorkerNode (the (T k))) k) (filter (told (srv_queue srv) jid) (gJobIDs g))"
    using cs by (simp_all add: h)
  show "groups (srv_queue s) gid = Some (g\<lparr>gState := GroupFailed\<rparr>)" using cs g(1) by (simp add: h SetGroupState_def)
qed

lemma well_typed_finished:
  "well_typed T \<Longrightarrow> T jid = Some j \<Longrightarrow> well_typed (T(jid \<mapsto> finished now ok out err j))"
  by (auto simp: well_typed_def finished_def)

text \<open>
  C24. A failing rank stops its gang: when a rank of a gang that has not ended reports a
  failure, that rank is failed, every other rank that was queued or running is cancelled,
  exactly those with a worker are sent a cancel order, in rank order, the group is failed,
  no retry is scheduled, and jobs outside the gang are untouched.
\<close>

theorem rank_failure_stops_gang:
  assumes inv: "gs_inv (srv_queue srv)" and wt: "well_typed (table (srv_queue srv))"
    and t: "table (srv_queue srv) (rrJobId req) = Some j" and gid: "GroupID j \<noteq> []"
    and g: "groups (srv_queue srv) (GroupID j) = Some g" "gState g \<noteq> GroupCompleted" "gState g \<noteq> GroupFailed" "distinct (gJobIDs g)"
    and fail: "\<not> rrSuccess req"
  shows "let srv' = ReportResult now ok srv req; q = srv_queue srv; T = table q; jid = rrJobId req in
    table (srv_queue srv') = (\<lambda>k. if k = jid then Some (finished now False (rrOutput req) (rrError req) j)
       else if k \<in> set (gJobIDs g) then map_option (stopped now) (T k) else T k) \<and>
    srv_sent srv' = srv_sent srv @ map (\<lambda>k. cancel_payload (WorkerNode (the (T k))) k) (filter (told q jid) (gJobIDs g)) \<and>
    groups (srv_queue srv') (GroupID j) = Some (g\<lparr>gState := GroupFailed\<rparr>) \<and> srv_timers srv' = srv_timers srv"
proof -
  let ?q = "srv_queue srv" and ?jid = "rrJobId req" and ?f = "finished now False (rrOutput req) (rrError req) j"
  obtain job srv3 srv4 msg msg2 where r: "srv3 = reported now srv req job"
    "srv4 = (case srv_store srv of
       Some s \<Rightarrow> if \<not> rrSuccess req \<and> MaxRetries j \<le> RetryCount j \<and> 0 < MaxRetries j
         then srv_log now ?jid ''ERROR'' msg (srv3\<lparr>srv_store := Some (unless_error s (SaveDeadLetter ok s job))\<rparr>)
         else srv3
     | None \<Rightarrow> srv3)"
    "ReportResult now ok srv req =
      (let srv5 = (if GroupID j \<noteq> [] then handleGroupCompletion now (GroupID j) ?jid (rrSuccess req) srv4 else srv4);
           srv6 = srv_log now ?jid ''INFO'' msg2 srv5
       in if rrError req \<noteq> [] then srv_log now ?jid ''ERROR'' (rrError req) srv6 else srv6)"
    using report_final [OF inv t, of now ok] gid by blast
  note m = MarkCompleted_spec [OF inv t refl, of now False "rrOutput req" "rrError req"]
  have s4: "srv_queue srv4 = MarkCompleted now ?q ?jid False (rrOutput req) (rrError req)" "srv_sent srv4 = srv_sent srv"
    "srv_timers srv4 = srv_timers srv"
    using r(1,2) fail by (auto split: option.split)
  have q4: "gs_inv (srv_queue srv4)" "table (srv_queue srv4) = (table ?q)(?jid \<mapsto> ?f)" "groups (srv_queue srv4) = groups ?q"
    using m by (simp_all add: s4 same_rest_def)
  have wt4: "well_typed (table (srv_queue srv4))" unfolding q4(2) by (rule well_typed_finished [OF wt t])
  have g4: "groups (srv_queue srv4) (GroupID j) = Some g" using g(1) q4(3) by simp
  note c = group_failure_spec [OF q4(1) wt4 g4 g(2-4), of now ?jid]
  have told: "told (srv_queue srv4) ?jid k = told ?q ?jid k" for k by (simp add: told_def q4(2))
  let ?s = "handleGroupCompletion now (GroupID j) ?jid False srv4"
  have pl: "map (\<lambda>k. cancel_payload (WorkerNode (the (table (srv_queue srv4) k))) k) (filter (told ?q ?jid) (gJobIDs g)) =
      map (\<lambda>k. cancel_payload (WorkerNode (the (table ?q k))) k) (filter (told ?q ?jid) (gJobIDs g))"
    by (auto simp: q4(2) told_def)
  have "table (srv_queue ?s) = (\<lambda>k. if k = ?jid then Some ?f
       else if k \<in> set (gJobIDs g) then map_option (stopped now) (table ?q k) else table ?q k)"
    "srv_sent ?s = srv_sent srv @ map (\<lambda>k. cancel_payload (WorkerNode (the (table ?q k))) k) (filter (told ?q ?jid) (gJobIDs g))"
    using c(1,4) unfolding told pl by (auto simp: s4(2) q4(2) fun_eq_iff)
  then show ?thesis unfolding Let_def r(3) if_P [OF gid] using fail c(2,3) s4(3) by simp
qed

text \<open>The example's gang, with both ranks running.\<close>

lemma run_rank:
  fixes n :: string
  assumes inv: "gs_inv gs" and t: "table gs jid = Some j" "active j"
  defines "g \<equiv> exec (OpRunning 7 jid n) (exec (OpRemove jid) gs)"
  shows "gs_inv g" "table g = (table gs)(jid \<mapsto> j\<lparr>State := StateRunning, WorkerNode := n, StartTime := 7\<rparr>)" "groups g = groups gs"
proof -
  obtain r h where rm: "RemoveByID gs jid = (r, h)" by fastforce
  note s = RemoveByID_spec(1,2) [OF inv rm]
  have a: "table h = table gs" "jid \<notin># waiting h" using Remove_active [OF inv t] rm by auto
  have g: "g = MarkRunning 7 h jid n" by (simp add: g_def rm)
  note m = MarkRunning_spec [OF s(1) _ a(2) g, of j]
  show "gs_inv g" "table g = (table gs)(jid \<mapsto> j\<lparr>State := StateRunning, WorkerNode := n, StartTime := 7\<rparr>)" "groups g = groups gs"
    using m a t same_jobs_fields(2) [OF s(2)] by (auto simp: same_rest_def)
qed

definition ex_ranks :: GlobalScheduler where
  "ex_ranks = exec (OpRunning 7 ''g-r1'' ''2'') (exec (OpRemove ''g-r1'')
     (exec (OpRunning 7 ''g-r0'' ''1'') (exec (OpRemove ''g-r0'') ex_gang)))"

definition ex_rank :: "string \<Rightarrow> string \<Rightarrow> Job" where
  "ex_rank jid n = (noidx (ex_job jid ''g''))\<lparr>State := StateRunning, WorkerNode := n, StartTime := 7\<rparr>"

lemma ex_ranks_facts:
  "gs_inv ex_ranks" "table ex_ranks = [''g-r0'' \<mapsto> ex_rank ''g-r0'' ''1'', ''g-r1'' \<mapsto> ex_rank ''g-r1'' ''2'']"
  "groups ex_ranks = [''g'' \<mapsto> ex_group]"
proof -
  define g0 where "g0 = exec (OpRunning 7 ''g-r0'' ''1'') (exec (OpRemove ''g-r0'') ex_gang)"
  have t0: "table ex_gang ''g-r0'' = Some ((noidx (ex_job ''g-r0'' ''g''))\<lparr>State := StateQueued\<rparr>)"
    "active ((noidx (ex_job ''g-r0'' ''g''))\<lparr>State := StateQueued\<rparr>)"
    by (simp_all add: ex_gang_facts active_def)
  note r0 = run_rank [OF ex_gang_facts(1) t0, of "''1''", folded g0_def]
  have t1: "table g0 ''g-r1'' = Some ((noidx (ex_job ''g-r1'' ''g''))\<lparr>State := StateQueued\<rparr>)"
    "active ((noidx (ex_job ''g-r1'' ''g''))\<lparr>State := StateQueued\<rparr>)"
    by (simp_all add: r0 ex_gang_facts active_def)
  note r1 = run_rank [OF r0(1) t1, of "''2''"]
  show "gs_inv ex_ranks" "groups ex_ranks = [''g'' \<mapsto> ex_group]"
    "table ex_ranks = [''g-r0'' \<mapsto> ex_rank ''g-r0'' ''1'', ''g-r1'' \<mapsto> ex_rank ''g-r1'' ''2'']"
    unfolding ex_ranks_def g0_def [symmetric] using r1 r0 by (simp_all add: ex_gang_facts ex_rank_def fun_upd_twist)
qed

theorem rank_failure_stops_gang_witness:
  "map JobID (srv_sent (ReportResult 9 True (ex_server ex_ranks) (ex_failure\<lparr>rrJobId := ''g-r0''\<rparr>))) = [''g-r1'']"
proof -
  have x: "GroupID (ex_rank jid n) = ''g''" "active (ex_rank jid n)" "WorkerNode (ex_rank jid n) = n"
    "ID (ex_rank jid n) = jid" "State (ex_rank jid n) = StateRunning" for jid n
    by (simp_all add: ex_rank_def ex_job_def active_def noidx_def)
  have wt: "well_typed (table ex_ranks)" by (simp add: well_typed_def ex_ranks_facts x)
  show ?thesis
    using rank_failure_stops_gang [of "ex_server ex_ranks" "ex_failure\<lparr>rrJobId := ''g-r0''\<rparr>" "ex_rank ''g-r0'' ''1''" ex_group 9 True]
      ex_ranks_facts wt x
    by (simp add: ex_failure_def ex_group_def group_state_defs Let_def told_def cancel_payload_def)
qed

subsection \<open>A result after the handshake gave up\<close>

text \<open>
  C40. A result that arrives after the handshake gave the job up completes the job but
  leaves it in the queue: the job is \<open>COMPLETED\<close> and still waits, to be dispatched again.
\<close>

theorem late_result_leaves_job_queued:
  assumes inv: "gs_inv (srv_queue srv)" and o: "range_order order (srv_pending srv)"
    and t: "table (srv_queue srv) (rrJobId req) = Some j" "State j = StateRunning" "GroupID j = []"
    and late: "overdue t1 (srv_pending srv) (rrJobId req)" and ok: "rrSuccess req"
  shows "let srv2 = ReportResult t2 db_ok (timeout_tick t1 order srv) req in
    map_option State (table (srv_queue srv2) (rrJobId req)) = Some StateCompleted \<and> rrJobId req \<in># waiting (srv_queue srv2)"
proof -
  let ?s1 = "timeout_tick t1 order srv" and ?jid = "rrJobId req"
  have run: "is_running (srv_queue srv) ?jid" using t by (simp add: is_running_def)
  have jo: "?jid \<in> set order" by (rule overdue_pending [OF o late])
  have h: "table (srv_queue ?s1) ?jid = Some (back_in_queue j)" "?jid \<in># waiting (srv_queue ?s1)"
    using handshake_spec [OF inv o, of t1] t late run jo by (simp_all add: Let_def)
  have i1: "gs_inv (srv_queue ?s1)"
    by (rule qsteps_inv [OF event_steps(5) inv])
  have g: "GroupID (back_in_queue j) = []" using t(3) by (simp add: back_in_queue_def)
  obtain msg where r: "ReportResult t2 db_ok ?s1 req = msg" "srv_queue msg = MarkCompleted t2 (srv_queue ?s1) ?jid True (rrOutput req) (rrError req)"
    using report_final [OF i1 h(1), of t2 db_ok] ok g by (auto simp: Let_def split: option.splits if_splits)
  have "State (back_in_queue j) \<noteq> StateCancelled" by (simp add: back_in_queue_def state_defs)
  then show ?thesis
    using MarkCompleted_spec(3,4) [OF i1 h(1) refl, of t2 True "rrOutput req" "rrError req"] h(2) r
    by (simp add: Let_def finished_def)
qed

theorem late_result_leaves_job_queued_witness:
  "''a'' \<in># waiting (srv_queue (ReportResult (30 * Second) True
     (timeout_tick (20 * Second) [''a''] ((ex_server ex_running)\<lparr>srv_pending := [''a'' \<mapsto> 7]\<rparr>))
     (ex_failure\<lparr>rrSuccess := True\<rparr>)))"
  using late_result_leaves_job_queued [of "(ex_server ex_running)\<lparr>srv_pending := [''a'' \<mapsto> 7]\<rparr>" "[''a'']"
      "ex_failure\<lparr>rrSuccess := True\<rparr>" ex_run_job "20 * Second" "30 * Second" True] ex_running_facts
  by (simp add: Let_def range_order_def overdue_def ex_failure_def Second_def)

subsection \<open>GPUs\<close>

text \<open>
  Two jobs on one node are told to use the same GPUs: the device list a dispatched job
  gets always starts at device 0, whatever is in use, so two jobs that each need \<open>n\<close> GPUs
  and run on the same (NVIDIA or unknown) node both receive the devices \<open>0, ..., n - 1\<close>.
\<close>

theorem same_gpus_for_two_jobs:
  assumes "0 < n" "GPUsRequired j1 = n" "GPUsRequired j2 = n" "EnvVars j1 = None" "EnvVars j2 = None"
    and "node_vendor node members \<notin> {''amd'', ''intel'', ''apple''}"
  shows "map (\<lambda>p. (TargetNode p, JobID p, the (pEnvVars p) ''CUDA_VISIBLE_DEVICES''))
      (srv_sent (dispatchJob t2 members (dispatchJob t1 members srv j1 node) j2 node)) =
    map (\<lambda>p. (TargetNode p, JobID p, the (pEnvVars p) ''CUDA_VISIBLE_DEVICES'')) (srv_sent srv) @
      [(node, ID j1, Some (gpuDevices n)), (node, ID j2, Some (gpuDevices n))]"
  using assms by (simp add: dispatchJob_def Let_def gpu_env_def set_default_def)

theorem same_gpus_for_two_jobs_witness:
  "map (\<lambda>p. (TargetNode p, JobID p, the (pEnvVars p) ''CUDA_VISIBLE_DEVICES''))
      (srv_sent (dispatchJob 1 ex_members (dispatchJob 0 ex_members (ex_server ex_single)
         ((ex_job ''a'' [])\<lparr>EnvVars := None, GPUsRequired := 1\<rparr>) ''1'') ((ex_job ''b'' [])\<lparr>EnvVars := None, GPUsRequired := 1\<rparr>) ''1'')) =
    [(''1'', ''a'', Some ''0''), (''1'', ''b'', Some ''0'')]"
proof -
  have v: "node_vendor ''1'' ex_members \<notin> {''amd'', ''intel'', ''apple''}"
    by (simp add: ex_members_def ex_Unmarshal as_string_def)
  have "gpuDevices 1 = ''0''" by code_simp
  then show ?thesis
    using same_gpus_for_two_jobs [of 1 "(ex_job ''a'' [])\<lparr>EnvVars := None, GPUsRequired := 1\<rparr>"
        "(ex_job ''b'' [])\<lparr>EnvVars := None, GPUsRequired := 1\<rparr>" "''1''" ex_members 1 0 "ex_server ex_single"] v
    by simp
qed

end
