(* ===== verification/Restart.thy ===== *)
theory Restart
  imports Handler_Properties
begin

text \<open>
  The restoration of state in \<open>StartMaster\<close>: what a restarted master knows of the jobs and
  groups its store holds, and what it writes back.
\<close>

lemma enqueue_all_spec:
  assumes "gs_inv gs" "distinct (map ID js)" "\<forall>j\<in>set js. jobs gs (ID j) = None"
    "MaxQueueSize gs \<le> 0 \<or> int (size (waiting gs) + length js) \<le> MaxQueueSize gs"
  defines "g \<equiv> foldl (\<lambda>g j. exec (OpEnqueue j) g) gs js"
  shows "gs_inv g" "waiting g = waiting gs + mset (map ID js)" "groups g = groups gs"
    "table g = (\<lambda>jid. case find (\<lambda>j. ID j = jid) js of Some j \<Rightarrow> Some (noidx (j\<lparr>State := StateQueued\<rparr>)) | None \<Rightarrow> table gs jid)"
proof -
  have "gs_inv g \<and> waiting g = waiting gs + mset (map ID js) \<and> groups g = groups gs \<and>
    table g = (\<lambda>jid. case find (\<lambda>j. ID j = jid) js of Some j \<Rightarrow> Some (noidx (j\<lparr>State := StateQueued\<rparr>)) | None \<Rightarrow> table gs jid)"
    using assms(1-4) unfolding g_def
  proof (induction js arbitrary: gs)
    case (Cons j js)
    let ?g = "exec (OpEnqueue j) gs"
    have fresh: "jobs gs (ID j) = None" using Cons.prems(3) by simp
    have room: "\<not> (0 < MaxQueueSize gs \<and> MaxQueueSize gs \<le> int (size (waiting gs)))" using Cons.prems(4) by auto
    note e = exec_Enqueue_spec [OF Cons.prems(1) fresh room]
    have inv: "gs_inv ?g" by (rule exec_inv [OF Cons.prems(1)]) (use fresh in simp)
    have ne: "ID k \<noteq> ID j" if "k \<in> set js" for k using Cons.prems(2) that by simp (metis image_eqI)
    have f: "\<forall>k\<in>set js. jobs ?g (ID k) = None" using Cons.prems(3) ne e(5) by simp
    have r: "MaxQueueSize ?g \<le> 0 \<or> int (size (waiting ?g) + length js) \<le> MaxQueueSize ?g"
      using Cons.prems(4) unfolding e(2,3) by auto
    have d: "distinct (map ID js)" using Cons.prems(2) by simp
    have nf: "find (\<lambda>k. ID k = ID j) js = None" using ne by (auto simp: find_None_iff)
    show ?case
      using Cons.IH [OF inv d f r] nf e by (auto simp: fun_eq_iff simp del: exec.simps split: option.split)
  qed simp
  then show "gs_inv g" "waiting g = waiting gs + mset (map ID js)" "groups g = groups gs"
    "table g = (\<lambda>jid. case find (\<lambda>j. ID j = jid) js of Some j \<Rightarrow> Some (noidx (j\<lparr>State := StateQueued\<rparr>)) | None \<Rightarrow> table gs jid)"
    by auto
qed

text \<open>What the store holds for a job that was running.\<close>

definition restarted :: "Time \<Rightarrow> Job \<Rightarrow> Job" where
  "restarted now j = j\<lparr>State := StateFailed, Error := ''master restarted'', EndTime := now\<rparr>"

lemma restore_jobs_store:
  assumes "distinct (map ID js)" "\<forall>j\<in>set js. ID j \<noteq> []"
  shows "bucketJobs (snd (restore_jobs now True js (gs, s))) = (\<lambda>jid.
      case find (\<lambda>j. ID j = jid \<and> State j = StateRunning) js of
        Some j \<Rightarrow> Some (Encoded (stored_job (restarted now j))) | None \<Rightarrow> bucketJobs s jid) \<and>
    bucketGroups (snd (restore_jobs now True js (gs, s))) = bucketGroups s"
  using assms
proof (induction js arbitrary: gs s)
  case (Cons j js)
  have ne: "ID k \<noteq> ID j" if "k \<in> set js" for k using Cons.prems(1) that by simp (metis image_eqI)
  have nf: "find (\<lambda>k. ID k = ID j \<and> State k = StateRunning) js = None" using ne by (auto simp: find_None_iff)
  have d: "distinct (map ID js)" "\<forall>k\<in>set js. ID k \<noteq> []" using Cons.prems by auto
  have q: "StateQueued \<noteq> StateRunning" by (simp add: state_defs)
  show ?case
    using Cons.IH [OF d] nf Cons.prems(2) q
    by (auto simp: fun_eq_iff SaveJob_put put_job_def restarted_def split: option.split)
qed simp

lemma restore_groups_spec:
  assumes "distinct (map gGroupID gl)" "\<forall>g\<in>set gl. gGroupID g \<noteq> []"
  defines "stop \<equiv> \<lambda>g. if gState g = GroupPending \<or> gState g = GroupRunning then g\<lparr>gState := GroupFailed\<rparr> else g"
  shows "groups (fst (restore_groups True gl (gs, s))) = (\<lambda>gid.
      case find (\<lambda>g. gGroupID g = gid) gl of Some g \<Rightarrow> Some (stop g) | None \<Rightarrow> groups gs gid) \<and>
    bucketJobs (snd (restore_groups True gl (gs, s))) = bucketJobs s \<and>
    table (fst (restore_groups True gl (gs, s))) = table gs \<and> waiting (fst (restore_groups True gl (gs, s))) = waiting gs"
  using assms(1,2)
proof (induction gl arbitrary: gs s)
  case (Cons g gl)
  have "find (\<lambda>k. gGroupID k = gGroupID g) gl = None" using Cons.prems(1) by (auto simp: find_None_iff image_iff)
  then show ?case
    using Cons.IH Cons.prems
    by (auto simp: fun_eq_iff stop_def RegisterGroup_def SaveGroup_def group_state_defs waiting_notify_group split: option.split)
qed simp

subsection \<open>The restarted master\<close>

definition store_ok :: "Store \<Rightarrow> bool" where
  "store_ok s \<longleftrightarrow> store_keyed s \<and> bucketJobs s [] = None \<and> bucketGroups s [] = None \<and>
     (\<forall>k g. bucketGroups s k = Some (Encoded g) \<longrightarrow> gGroupID g = k)"

lemma load_all_find:
  assumes "\<forall>k x. b k = Some (Encoded x) \<longrightarrow> key x = k" "range_order order b"
  shows "find (\<lambda>x. key x = k \<and> P x) (load_all order b) =
      (case b k of Some (Encoded x) \<Rightarrow> if P x then Some x else None | _ \<Rightarrow> None)" (is "?l = ?r")
    and "distinct (map key (load_all order b))"
proof -
  have mem: "x \<in> set (load_all order b) \<longleftrightarrow> (\<exists>k. b k = Some (Encoded x))" for x by (rule load_all_mem [OF assms(2)])
  show "?l = ?r"
  proof (cases "\<exists>x. b k = Some (Encoded x) \<and> P x")
    case True
    then obtain x where x: "b k = Some (Encoded x)" "P x" by blast
    have "find (\<lambda>x. key x = k \<and> P x) (load_all order b) = Some y \<Longrightarrow> y = x" for y
      using x mem assms(1) by (auto simp: find_Some_iff) (metis data.inject nth_mem option.inject)
    moreover have "find (\<lambda>x. key x = k \<and> P x) (load_all order b) \<noteq> None"
      using x mem assms(1) by (auto simp: find_None_iff)
    ultimately show ?thesis using x by fastforce
  next
    case False
    then have "find (\<lambda>x. key x = k \<and> P x) (load_all order b) = None"
      using mem assms(1) by (auto simp: find_None_iff)
    then show ?thesis using False by (auto split: option.split data.split)
  qed
  have "distinct order" using assms(2) by (simp add: range_order_def)
  then have "distinct (map key (load_all order b)) \<and> set (map key (load_all order b)) \<subseteq> set order"
    by (induction order) (use assms(1) in \<open>auto simp: load_all_def split: option.split data.split\<close>)
  then show "distinct (map key (load_all order b))" by blast
qed

lemma find_filter: "find P (filter Q xs) = find (\<lambda>x. P x \<and> Q x) xs"
  by (induction xs) auto

lemma length_load_all: "length (load_all order b) \<le> length order"
  by (induction order) (auto simp: load_all_def split: option.split data.split)

text \<open>The scheduler of a new master.\<close>

definition fresh_scheduler :: "Config \<Rightarrow> GlobalScheduler" where
  "fresh_scheduler cfg = NewGlobalScheduler\<lparr>MaxQueueSize := cfgMaxQueueSize cfg, OnJobChange := True, OnGroupChange := True\<rparr>"

lemma fresh_scheduler_empty:
  "gs_inv (fresh_scheduler cfg)" "table (fresh_scheduler cfg) = Map.empty" "jobs (fresh_scheduler cfg) = Map.empty"
  "waiting (fresh_scheduler cfg) = {#}" "groups (fresh_scheduler cfg) = Map.empty"
  "MaxQueueSize (fresh_scheduler cfg) = cfgMaxQueueSize cfg"
  by (simp_all add: fresh_scheduler_def New_empty table_def fun_eq_iff waiting_def) (simp add: NewGlobalScheduler_eq)

lemma restored_jobs:
  assumes s: "store_ok s" and jo: "range_order job_order (bucketJobs s)"
    and room: "cfgMaxQueueSize cfg \<le> 0 \<or> int (length job_order) \<le> cfgMaxQueueSize cfg"
    and r: "restore_jobs now True (LoadJobs job_order s) (fresh_scheduler cfg, s) = (gs1, s1)"
  shows "table gs1 jid = (case bucketJobs s jid of Some (Encoded j) \<Rightarrow> if State j = StateQueued then Some (noidx j) else None | _ \<Rightarrow> None)"
    "count (waiting gs1) jid = (case bucketJobs s jid of Some (Encoded j) \<Rightarrow> if State j = StateQueued then 1 else 0 | _ \<Rightarrow> 0)"
    "groups gs1 = Map.empty" "bucketGroups s1 = bucketGroups s"
    "bucketJobs s1 jid = (case bucketJobs s jid of
      Some (Encoded j) \<Rightarrow> Some (Encoded (if State j = StateRunning then stored_job (restarted now j) else j)) | v \<Rightarrow> v)"
proof -
  have k: "\<forall>k x. bucketJobs s k = Some (Encoded x) \<longrightarrow> ID x = k" and ne: "bucketJobs s [] = None"
    using s by (auto simp: store_ok_def store_keyed_def)
  let ?js = "LoadJobs job_order s" and ?qd = "\<lambda>j. State j = StateQueued"
  note fj = load_all_find [OF k jo, folded LoadJobs_def] and g0 = fresh_scheduler_empty
  have gs1: "gs1 = foldl (\<lambda>g j. exec (OpEnqueue j) g) (fresh_scheduler cfg) (filter ?qd ?js)"
    using restore_jobs_queue [of now True ?js "fresh_scheduler cfg" s] r by simp
  have d: "distinct (map ID (filter ?qd ?js))" using fj(2) by (rule distinct_map_filter)
  have "length (filter ?qd ?js) \<le> length job_order"
    using le_trans [OF length_filter_le [of ?qd ?js]] length_load_all [of job_order "bucketJobs s"] by (simp add: LoadJobs_def)
  then have "MaxQueueSize (fresh_scheduler cfg) \<le> 0 \<or>
      int (size (waiting (fresh_scheduler cfg)) + length (filter ?qd ?js)) \<le> MaxQueueSize (fresh_scheduler cfg)"
    using room g0 by auto
  note e = enqueue_all_spec [OF g0(1) d _ this, folded gs1, unfolded g0 find_filter, simplified]
  have "\<forall>j\<in>set ?js. ID j \<noteq> []" using load_all_mem [OF jo] k ne by (fastforce simp: LoadJobs_def)
  note b = restore_jobs_store [OF fj(2) this, of now "fresh_scheduler cfg" s, unfolded r, simplified]
  have "jid \<in> ID ` set (filter ?qd ?js) \<longleftrightarrow> (\<exists>j. bucketJobs s jid = Some (Encoded j) \<and> ?qd j)"
    using load_all_mem [OF jo] k by (fastforce simp: LoadJobs_def)
  then show "count (waiting gs1) jid = (case bucketJobs s jid of Some (Encoded j) \<Rightarrow> if State j = StateQueued then 1 else 0 | _ \<Rightarrow> 0)"
    using d [unfolded distinct_count_atmost_1] e(2) by (auto split: option.split data.split)
  show "table gs1 jid = (case bucketJobs s jid of Some (Encoded j) \<Rightarrow> if State j = StateQueued then Some (noidx j) else None | _ \<Rightarrow> None)"
    using e(4) fj(1) [of jid ?qd] by (auto simp: noidx_def split: option.split data.split)
  show "groups gs1 = Map.empty" "bucketGroups s1 = bucketGroups s" using e(3) b by simp_all
  show "bucketJobs s1 jid = (case bucketJobs s jid of
      Some (Encoded j) \<Rightarrow> Some (Encoded (if State j = StateRunning then stored_job (restarted now j) else j)) | v \<Rightarrow> v)"
    using b fj(1) [of jid "\<lambda>j. State j = StateRunning"] by (auto split: option.split data.split)
qed


definition ex_disk :: Store where
  "ex_disk = empty_store\<lparr>bucketJobs := [''a'' \<mapsto> Encoded ex_run_job, ''b'' \<mapsto> Encoded ((ex_job ''b'' [])\<lparr>State := StateQueued\<rparr>)]\<rparr>"


end
