(* ===== verification/Json_Encode.thy ===== *)
theory Json_Encode
  imports Json "HOL-Library.List_Lexorder" "HOL-Library.Char_ord"
begin

text \<open>
  What the program uses of \<open>json.Marshal\<close>: strings with the escapes of the Go encoder,
  numbers, lists and objects without blanks. Every printed value is read back by the
  scanner of \<open>Json\<close>; a string comes back with its ill-formed bytes replaced by \<open>U+FFFD\<close>.
\<close>

subsection \<open>Strings\<close>

definition hex_digit :: "nat \<Rightarrow> char" where
  "hex_digit n = (if n < 10 then char_of (48 + n) else char_of (87 + n))"

definition html_safe :: "char \<Rightarrow> bool" where
  "html_safe c \<longleftrightarrow> 32 \<le> (of_char c :: nat) \<and> (of_char c :: nat) < 128 \<and>
     c \<noteq> CHR 0x22 \<and> c \<noteq> CHR 0x5C \<and> c \<noteq> CHR ''<'' \<and> c \<noteq> CHR ''>'' \<and> c \<noteq> CHR ''&''"

definition escaped :: "char \<Rightarrow> string" where
  "escaped c =
     (if c = CHR 0x22 \<or> c = CHR 0x5C then [CHR 0x5C, c]
      else if c = CHR 0x08 then [CHR 0x5C, CHR ''b''] else if c = CHR 0x0C then [CHR 0x5C, CHR ''f'']
      else if c = CHR 0x0A then [CHR 0x5C, CHR ''n''] else if c = CHR 0x0D then [CHR 0x5C, CHR ''r'']
      else if c = CHR 0x09 then [CHR 0x5C, CHR ''t'']
      else [CHR 0x5C, CHR ''u'', CHR ''0'', CHR ''0'', hex_digit (of_char c div 16), hex_digit (of_char c mod 16)])"

text \<open>The byte length of a rune is only asked at a byte that is not ASCII.\<close>

function quoted :: "string \<Rightarrow> string" where
  "quoted s =
     (case s of
        [] \<Rightarrow> []
      | c # r \<Rightarrow>
          if (of_char c :: nat) < 128 then (if html_safe c then [c] else escaped c) @ quoted r
          else let n = rune_len s in
            if n = 0 then CHR 0x5C # ''ufffd'' @ quoted r
            else if take n s = [CHR 0xE2, CHR 0x80, CHR 0xA8] then CHR 0x5C # ''u2028'' @ quoted (drop n s)
            else if take n s = [CHR 0xE2, CHR 0x80, CHR 0xA9] then CHR 0x5C # ''u2029'' @ quoted (drop n s)
            else take n s @ quoted (drop n s))"
  by auto
termination by (relation "measure length") (auto simp: rune_len_def)

text \<open>A string as it is read back, and the strings that are kept.\<close>

function cleaned :: "string \<Rightarrow> string" where
  "cleaned s =
     (case s of
        [] \<Rightarrow> []
      | c # r \<Rightarrow>
          if (of_char c :: nat) < 128 then c # cleaned r
          else let n = rune_len s in
            if n = 0 then utf8 65533 @ cleaned r else take n s @ cleaned (drop n s))"
  by auto
termination by (relation "measure length") (auto simp: rune_len_def)

declare quoted.simps [simp del] cleaned.simps [simp del]

definition utf8_ok :: "string \<Rightarrow> bool" where
  "utf8_ok s \<longleftrightarrow> cleaned s = s"

lemma utf8_okD [simp]: "utf8_ok s \<Longrightarrow> cleaned s = s"
  by (simp add: utf8_ok_def)

lemma quoted_Nil [simp]: "quoted [] = []" and cleaned_Nil [simp]: "cleaned [] = []" and unquote_Nil [simp]: "unquote [] = Some []"
  by (simp_all add: quoted.simps cleaned.simps unquote.simps)

lemma ascii_ok: "list_all (\<lambda>c. (of_char c :: nat) < 128) s \<Longrightarrow> utf8_ok s"
  unfolding utf8_ok_def by (induction s) (simp_all add: cleaned.simps)

text \<open>A rune is recognised by its own bytes, which are no ASCII.\<close>

definition byte_at :: "string \<Rightarrow> nat \<Rightarrow> nat" where
  "byte_at s i = (if i < length s then of_char (s ! i) else 0)"

definition rune4 :: "nat \<Rightarrow> nat \<Rightarrow> nat \<Rightarrow> nat \<Rightarrow> nat" where
  "rune4 b0 b1 b2 b3 =
     (if 194 \<le> b0 \<and> b0 \<le> 223 \<and> cont_byte b1 then 2
      else if 224 \<le> b0 \<and> b0 \<le> 239 \<and> cont_byte b1 \<and> cont_byte b2 \<and>
        (b0 = 224 \<longrightarrow> 160 \<le> b1) \<and> (b0 = 237 \<longrightarrow> b1 \<le> 159) then 3
      else if 240 \<le> b0 \<and> b0 \<le> 244 \<and> cont_byte b1 \<and> cont_byte b2 \<and> cont_byte b3 \<and>
        (b0 = 240 \<longrightarrow> 144 \<le> b1) \<and> (b0 = 244 \<longrightarrow> b1 \<le> 143) then 4
      else 0)"

lemma rune_len_rune4: "rune_len s = rune4 (byte_at s 0) (byte_at s 1) (byte_at s 2) (byte_at s 3)"
  unfolding rune_len_def rune4_def byte_at_def Let_def by simp

lemma rune4_bytes:
  "rune4 b0 b1 b2 b3 = n \<Longrightarrow> n \<noteq> 0 \<Longrightarrow>
     2 \<le> n \<and> n \<le> 4 \<and> 128 \<le> b0 \<and> 128 \<le> b1 \<and> (3 \<le> n \<longrightarrow> 128 \<le> b2) \<and> (4 \<le> n \<longrightarrow> 128 \<le> b3)"
  by (auto simp: rune4_def cont_byte_def split: if_splits)

lemma rune4_prefix:
  "rune4 b0 b1 b2 b3 = n \<Longrightarrow> n \<noteq> 0 \<Longrightarrow> (3 \<le> n \<longrightarrow> c2 = b2) \<Longrightarrow> (4 \<le> n \<longrightarrow> c3 = b3) \<Longrightarrow> rune4 b0 b1 c2 c3 = n"
  by (auto simp: rune4_def split: if_splits)

lemma rune_bytes:
  assumes "rune_len s \<noteq> 0"
  shows "2 \<le> rune_len s \<and> rune_len s \<le> length s \<and> (\<forall>i<rune_len s. 128 \<le> byte_at s i)"
proof -
  have ls: "i < length s" if "128 \<le> byte_at s i" for i
    using that by (auto simp: byte_at_def split: if_splits)
  have n: "2 \<le> rune_len s" "rune_len s \<le> 4" and b: "\<forall>i<rune_len s. 128 \<le> byte_at s i"
    using rune4_bytes [OF rune_len_rune4 [symmetric] assms]
    by (auto simp: less_Suc_eq numeral_eq_Suc le_Suc_eq)
  have "rune_len s - 1 < length s" using b n by (intro ls) auto
  then show ?thesis using n b by auto
qed

lemma rune_byte: "b \<in> set (take (rune_len s) s) \<Longrightarrow> 128 \<le> (of_char b :: nat)"
  using rune_bytes [of s] by (cases "rune_len s = 0") (auto simp: in_set_conv_nth byte_at_def)

lemma rune_len_take [simp]:
  assumes "rune_len s \<noteq> 0"
  shows "rune_len (take (rune_len s) s @ t) = rune_len s" "length (take (rune_len s) s) = rune_len s"
proof -
  note n = rune_bytes [OF assms]
  have l: "length (take (rune_len s) s) = rune_len s" using n by simp
  have b: "byte_at (take (rune_len s) s @ t) i = byte_at s i" if "i < rune_len s" for i
    using that n by (simp add: byte_at_def nth_append)
  show "rune_len (take (rune_len s) s @ t) = rune_len s"
    unfolding rune_len_rune4 [of "take (rune_len s) s @ t"] using n b
    by (simp, intro rune4_prefix [OF rune_len_rune4 [of s, symmetric, simplified] assms]) simp_all
  show "length (take (rune_len s) s) = rune_len s" by (rule l)
qed

subsection \<open>Reading a printed string\<close>

lemma str_body_plain:
  "\<forall>b\<in>set xs. b \<noteq> CHR 0x22 \<and> b \<noteq> CHR 0x5C \<Longrightarrow>
     str_body (xs @ u) = map_option (\<lambda>(r, t). (xs @ r, t)) (str_body u)"
  by (induction xs; cases "str_body u") (auto simp: case_prod_beta)

lemma str_body_escaped:
  "str_body (escaped c @ u) = map_option (\<lambda>(r, t). (escaped c @ r, t)) (str_body u)"
proof -
  have h: "hex_digit n \<noteq> CHR 0x22 \<and> hex_digit n \<noteq> CHR 0x5C" if "n < 16" for n
  proof -
    have "48 \<le> (of_char (hex_digit n) :: nat) \<and> (of_char (hex_digit n) :: nat) \<noteq> 92"
      using that by (simp add: hex_digit_def of_char_of)
    then show ?thesis by auto
  qed
  have "(of_char c :: nat) < 256" by simp
  then have "(of_char c :: nat) div 16 < 16" by linarith
  then show ?thesis
    using h [of "of_char c div 16"] h [of "of_char c mod 16"]
    by (cases "str_body u") (simp_all add: escaped_def case_prod_beta)
qed

lemma rune_plain: "b \<in> set (take (rune_len s) s) \<Longrightarrow> b \<noteq> CHR 0x22 \<and> b \<noteq> CHR 0x5C"
  using rune_byte [of b s] by auto

lemma str_body_quoted: "str_body (quoted s @ CHR 0x22 # t) = Some (quoted s, t)"
proof (induction s rule: quoted.induct)
  case (1 s)
  show ?case
  proof (cases s)
    case (Cons c r)
    let ?n = "rune_len s"
    consider "(of_char c :: nat) < 128" "html_safe c" | "(of_char c :: nat) < 128" "\<not> html_safe c"
      | "128 \<le> (of_char c :: nat)" "?n = 0" | "128 \<le> (of_char c :: nat)" "?n \<noteq> 0"
      by linarith
    then show ?thesis
    proof cases
      case 1
      then show ?thesis using "1.IH"(1) [OF Cons] Cons
        by (subst (1 2) quoted.simps) (simp add: html_safe_def)
    next
      case 2
      then show ?thesis using "1.IH"(1) [OF Cons] Cons
        by (subst (1 2) quoted.simps) (simp add: str_body_escaped)
    next
      case 3
      then show ?thesis using "1.IH"(2) [OF Cons _ refl] Cons
        by (subst (1 2) quoted.simps) (simp add: Let_def)
    next
      case 4
      have p: "str_body (take ?n s @ u) = map_option (\<lambda>(r, t). (take ?n s @ r, t)) (str_body u)" for u
        by (rule str_body_plain) (use rune_plain in blast)
      show ?thesis using 4 "1.IH"(3-5) [OF Cons _ refl] p [of "quoted (drop ?n s) @ CHR 0x22 # t"] Cons
        by (subst (1 2) quoted.simps) (simp add: Let_def)
    qed
  qed simp
qed

lemma unquote_plain: "32 \<le> (of_char c :: nat) \<Longrightarrow> (of_char c :: nat) < 128 \<Longrightarrow> c \<noteq> CHR 0x5C \<Longrightarrow>
    unquote (c # s) = map_option (Cons c) (unquote s)"
  by (subst unquote.simps) simp

lemma unquote_short: "e \<noteq> CHR ''u'' \<Longrightarrow> escape_char e = Some d \<Longrightarrow>
    unquote (CHR 0x5C # e # s) = map_option (Cons d) (unquote s)"
  by (subst unquote.simps) simp

lemma unquote_u: "hex4 a b x y = Some n \<Longrightarrow> n < 55296 \<or> 56320 \<le> n \<Longrightarrow>
    unquote (CHR 0x5C # CHR ''u'' # a # b # x # y # s) = map_option (append (utf8 n)) (unquote s)"
  by (subst unquote.simps) auto

lemma unquote_wide:
  "128 \<le> (of_char c :: nat) \<Longrightarrow> rune_len (c # r) = n \<Longrightarrow> n \<noteq> 0 \<Longrightarrow>
     unquote (c # r) = map_option (append (take n (c # r))) (unquote (drop n (c # r)))"
  by (subst unquote.simps) (auto simp: Let_def)

lemma unquote_rune:
  assumes "rune_len s \<noteq> 0"
  shows "unquote (take (rune_len s) s @ t) = map_option (append (take (rune_len s) s)) (unquote t)"
proof -
  have n: "2 \<le> rune_len s" "rune_len s \<le> length s" using rune_bytes [OF assms] by auto
  then obtain c r where s: "s = c # r" by (cases s) auto
  then have c: "128 \<le> (of_char c :: nat)" using n rune_byte [of c s] by (cases "rune_len s") auto
  have e: "take (rune_len s) s @ t = c # (take (rune_len s - 1) r @ t)"
    using n by (cases "rune_len s") (auto simp: s)
  show ?thesis
    using unquote_wide [OF c rune_len_take(1) [OF assms, of t, unfolded e] assms] n unfolding e [symmetric] by simp
qed

lemma hex_val_digit: "n < 16 \<Longrightarrow> hex_val (hex_digit n) = Some n"
  by (simp add: hex_val_def hex_digit_def of_char_of)

lemma unquote_escaped:
  assumes "(of_char c :: nat) < 128" "\<not> html_safe c"
  shows "unquote (escaped c @ s) = map_option (Cons c) (unquote s)"
proof (cases "c \<in> {CHR 0x22, CHR 0x5C, CHR 0x08, CHR 0x0C, CHR 0x0A, CHR 0x0D, CHR 0x09}")
  case True
  then have "\<exists>e. escaped c = [CHR 0x5C, e] \<and> e \<noteq> CHR ''u'' \<and> escape_char e = Some c"
    by (auto simp: escaped_def escape_char_def)
  then show ?thesis using unquote_short by auto
next
  case False
  have "(of_char c :: nat) div 16 < 16" using assms(1) by linarith
  then have "hex4 (CHR ''0'') (CHR ''0'') (hex_digit (of_char c div 16)) (hex_digit (of_char c mod 16)) = Some (of_char c)"
    by (simp add: hex4_def hex_val_digit) (simp add: hex_val_def)
  then show ?thesis using False assms(1)
    by (simp add: escaped_def unquote_u utf8_def append_Cons [abs_def])
qed

lemma unquote_quoted: "unquote (quoted s) = Some (cleaned s)"
proof (induction s rule: quoted.induct)
  case (1 s)
  show ?case
  proof (cases s)
    case (Cons c r)
    let ?n = "rune_len s"
    consider "(of_char c :: nat) < 128" "html_safe c" | "(of_char c :: nat) < 128" "\<not> html_safe c"
      | "128 \<le> (of_char c :: nat)" "?n = 0" | "128 \<le> (of_char c :: nat)" "?n \<noteq> 0"
      by linarith
    then show ?thesis
    proof cases
      case 1
      then show ?thesis using "1.IH"(1) [OF Cons] Cons
        by (subst quoted.simps, subst cleaned.simps) (simp add: html_safe_def unquote_plain)
    next
      case 2
      then show ?thesis using "1.IH"(1) [OF Cons] Cons
        by (subst quoted.simps, subst cleaned.simps) (simp add: unquote_escaped)
    next
      case 3
      have h: "hex4 (CHR ''f'') (CHR ''f'') (CHR ''f'') (CHR ''d'') = Some 65533" by (simp add: hex4_def hex_val_def)
      have "quoted s = CHR 0x5C # ''ufffd'' @ quoted r" using 3 Cons by (subst quoted.simps) (simp add: Let_def)
      moreover have "cleaned s = utf8 65533 @ cleaned r" using 3 Cons by (subst cleaned.simps) (simp add: Let_def)
      moreover have "unquote (quoted r) = Some (cleaned r)" using 3 "1.IH"(2) [OF Cons _ refl] by simp
      ultimately show ?thesis using unquote_u [OF h, of "quoted r"] by simp
    next
      case 4
      have h: "hex4 (CHR ''2'') (CHR ''0'') (CHR ''2'') (CHR ''8'') = Some 8232"
        "hex4 (CHR ''2'') (CHR ''0'') (CHR ''2'') (CHR ''9'') = Some 8233" by (simp_all add: hex4_def hex_val_def)
      have u: "utf8 8232 = [CHR 0xE2, CHR 0x80, CHR 0xA8]" "utf8 8233 = [CHR 0xE2, CHR 0x80, CHR 0xA9]" by (simp_all add: utf8_def char_of_def bit_simps)
      have ih: "unquote (quoted (drop ?n s)) = Some (cleaned (drop ?n s))"
        using 4 "1.IH"(3-5) [OF Cons _ refl] by (cases "take ?n s = [CHR 0xE2, CHR 0x80, CHR 0xA8]") auto
      have c: "cleaned s = take ?n s @ cleaned (drop ?n s)"
        using 4 Cons by (subst cleaned.simps) (simp add: Let_def)
      have q: "quoted s =
          (if take ?n s = [CHR 0xE2, CHR 0x80, CHR 0xA8] then CHR 0x5C # ''u2028''
           else if take ?n s = [CHR 0xE2, CHR 0x80, CHR 0xA9] then CHR 0x5C # ''u2029'' else take ?n s) @ quoted (drop ?n s)"
        using 4 Cons by (subst quoted.simps) (simp add: Let_def)
      consider "take ?n s = [CHR 0xE2, CHR 0x80, CHR 0xA8]" | "take ?n s = [CHR 0xE2, CHR 0x80, CHR 0xA9]"
        | "take ?n s \<noteq> [CHR 0xE2, CHR 0x80, CHR 0xA8]" "take ?n s \<noteq> [CHR 0xE2, CHR 0x80, CHR 0xA9]" by blast
      then show ?thesis
      proof cases
        case 1
        then show ?thesis using unquote_u [OF h(1), of "quoted (drop ?n s)"] by (simp add: c q u ih)
      next
        case 2
        then show ?thesis using unquote_u [OF h(2), of "quoted (drop ?n s)"] by (simp add: c q u ih)
      next
        case 3
        then show ?thesis using unquote_rune [OF 4(2), of "quoted (drop ?n s)"] by (simp add: c q ih)
      qed
    qed
  qed simp
qed

text \<open>The token of a printed string.\<close>

lemma next_tok_string: "next_tok (CHR 0x22 # quoted s @ CHR 0x22 # t) = Some (TStr (cleaned s), t)"
  by (simp add: next_tok_def json_space_def str_body_quoted unquote_quoted)

subsection \<open>Values\<close>

definition print_string :: "string \<Rightarrow> string" where
  "print_string s = CHR 0x22 # quoted s @ [CHR 0x22]"

fun print_json :: "json \<Rightarrow> string" where
  "print_json JNull = ''null''"
| "print_json (JBool b) = (if b then ''true'' else ''false'')"
| "print_json (JNumber lit) = lit"
| "print_json (JString s) = print_string s"
| "print_json (JArray vs) = CHR ''['' # Join (map print_json vs) '','' @ '']''"
| "print_json (JObject fs) =
     CHR 0x7B # Join (map (\<lambda>(k, v). print_string k @ CHR '':'' # print_json v) fs) '','' @ [CHR 0x7D]"

text \<open>What is read back, and the values the encoder can be given: numbers are literals, the nesting is bounded.\<close>

fun cleaned_json :: "json \<Rightarrow> json" where
  "cleaned_json (JString s) = JString (cleaned s)"
| "cleaned_json (JArray vs) = JArray (map cleaned_json vs)"
| "cleaned_json (JObject fs) = JObject (map (\<lambda>(k, v). (cleaned k, cleaned_json v)) fs)"
| "cleaned_json v = v"

definition literal :: "string \<Rightarrow> bool" where
  "literal lit \<longleftrightarrow> list_all num_char lit \<and> number_of lit \<noteq> None"

fun printable :: "nat \<Rightarrow> json \<Rightarrow> bool" where
  "printable d (JNumber lit) = literal lit"
| "printable d (JArray vs) = (d < maxNestingDepth \<and> list_all (printable (Suc d)) vs)"
| "printable d (JObject fs) = (d < maxNestingDepth \<and> list_all (\<lambda>(k, v). printable (Suc d) v) fs)"
| "printable d v = True"

definition ends_number :: "string \<Rightarrow> bool" where
  "ends_number t \<longleftrightarrow> t = [] \<or> \<not> num_char (hd t)"

lemma ends_number_close [simp]:
  "ends_number []" "ends_number (CHR '','' # t)" "ends_number (CHR '']'' # t)" "ends_number (CHR 0x7D # t)"
  by (simp_all add: ends_number_def num_char_def is_digit_def)

lemma number_of_Nil [simp]: "number_of [] = None"
  by (simp add: number_of_def)

lemma num_char_plain: "num_char c \<Longrightarrow> \<not> json_space c \<and> c \<noteq> CHR 0x7B \<and> c \<noteq> CHR 0x7D \<and> c \<noteq> CHR ''['' \<and>
    c \<noteq> CHR '']'' \<and> c \<noteq> CHR '':'' \<and> c \<noteq> CHR '','' \<and> c \<noteq> CHR 0x22"
  by (auto simp: num_char_def is_digit_def json_space_def)

lemma next_tok_number:
  assumes "literal lit" "ends_number t"
  shows "next_tok (lit @ t) = Some (TNum lit, t)"
proof -
  obtain c r where lit: "lit = c # r" using assms(1) by (cases lit) (auto simp: literal_def)
  have all: "list_all num_char lit" and n: "number_of lit \<noteq> None" using assms(1) by (auto simp: literal_def)
  have tk: "takeWhile num_char (lit @ t) = lit" "dropWhile num_char (lit @ t) = t"
    using all assms(2) by (auto simp: ends_number_def list_all_iff takeWhile_append dropWhile_append takeWhile_eq_all_conv
        dropWhile_eq_Nil_conv) (cases t; simp)+
  have c: "num_char c" using all lit by simp
  then show ?thesis
    using tk n num_char_plain [OF c] by (simp add: next_tok_def lit)
qed

lemma next_tok_simps [simp]:
  "next_tok (CHR ''['' # t) = Some (TLBrack, t)" "next_tok (CHR '']'' # t) = Some (TRBrack, t)"
  "next_tok (CHR 0x7B # t) = Some (TLBrace, t)" "next_tok (CHR 0x7D # t) = Some (TRBrace, t)"
  "next_tok (CHR '':'' # t) = Some (TColon, t)" "next_tok (CHR '','' # t) = Some (TComma, t)"
  "next_tok (print_string s @ t) = Some (TStr (cleaned s), t)"
  by (simp_all add: next_tok_def json_space_def print_string_def str_body_quoted unquote_quoted)

lemma next_tok_words:
  "next_tok (''null'' @ t) = Some (TNull, t)" "next_tok (''true'' @ t) = Some (TTrue, t)" "next_tok (''false'' @ t) = Some (TFalse, t)"
  by (simp_all add: next_tok_def json_space_def num_char_def is_digit_def HasPrefix_def)

lemma json_run_step:
  "next_tok s = Some (t, r) \<Longrightarrow> json_step st ps t = Some (st', ps') \<Longrightarrow> \<forall>v. ps \<noteq> HaveValue v \<or> st \<noteq> [] \<Longrightarrow>
     json_run st ps s = json_run st' ps' r"
  by (subst json_run.simps) (auto split: list.splits pstate.splits)

subsection \<open>Reading a printed value\<close>

definition reads :: "json \<Rightarrow> nat \<Rightarrow> bool" where
  "reads v d \<longleftrightarrow> (\<forall>st ps t. length st = d \<longrightarrow> ps = NeedValue \<or> ps = NeedValueOrClose \<longrightarrow> ends_number t \<longrightarrow>
     json_run st ps (print_json v @ t) = json_run st (HaveValue (cleaned_json v)) t)"

lemma readsD: "reads v (length st) \<Longrightarrow> ps = NeedValue \<or> ps = NeedValueOrClose \<Longrightarrow> ends_number t \<Longrightarrow>
    json_run st ps (print_json v @ t) = json_run st (HaveValue (cleaned_json v)) t"
  unfolding reads_def by blast

lemmas tok_run = next_tok_simps [THEN json_run_step]

lemma read_elements:
  assumes "vs \<noteq> []" "\<forall>v\<in>set vs. reads v (Suc (length st))" "ps = NeedValue \<or> ps = NeedValueOrClose"
  shows "json_run (InArray acc # st) ps (Join (map print_json vs) '','' @ CHR '']'' # t) =
    json_run st (HaveValue (JArray (acc @ map cleaned_json vs))) t"
  using assms
proof (induction vs arbitrary: acc ps)
  case (Cons v vs)
  note v = readsD [of v "InArray acc # st" ps]
  show ?case
  proof (cases vs)
    case Nil
    have "json_run (InArray acc # st) (HaveValue (cleaned_json v)) (CHR '']'' # t) =
        json_run st (HaveValue (JArray (acc @ [cleaned_json v]))) t"
      by (rule tok_run(2)) (simp_all add: json_step_def after_value_def)
    then show ?thesis using Cons.prems v [of "CHR '']'' # t"] Nil by simp
  next
    case (Cons w ws)
    let ?t = "Join (map print_json vs) '','' @ CHR '']'' # t"
    have "json_run (InArray acc # st) (HaveValue (cleaned_json v)) (CHR '','' # ?t) =
        json_run (InArray (acc @ [cleaned_json v]) # st) NeedValue ?t"
      by (rule tok_run(6)) (simp_all add: json_step_def after_value_def)
    then show ?thesis
      using Cons.prems v [of "CHR '','' # ?t"] Cons.IH [of NeedValue "acc @ [cleaned_json v]"] Cons by simp
  qed
qed simp

lemma read_key:
  assumes "ps = NeedKey \<or> ps = NeedKeyOrClose"
  shows "json_run (InObject acc # st) ps (print_string k @ CHR '':'' # t) = json_run (InField acc (cleaned k) # st) NeedValue t"
proof -
  have "json_run (InObject acc # st) ps (print_string k @ CHR '':'' # t) =
      json_run (InObject acc # st) (NeedColon (cleaned k)) (CHR '':'' # t)"
    by (rule tok_run(7)) (use assms in \<open>auto simp: json_step_def key_start_def\<close>)
  also have "\<dots> = json_run (InField acc (cleaned k) # st) NeedValue t"
    by (rule tok_run(5)) (simp_all add: json_step_def)
  finally show ?thesis .
qed

definition print_field :: "string \<times> json \<Rightarrow> string" where
  "print_field = (\<lambda>(k, v). print_string k @ CHR '':'' # print_json v)"

lemma read_fields:
  assumes "fs \<noteq> []" "\<forall>kv\<in>set fs. reads (snd kv) (Suc (length st))" "ps = NeedKey \<or> ps = NeedKeyOrClose"
  shows "json_run (InObject acc # st) ps (Join (map print_field fs) '','' @ CHR 0x7D # t) =
    json_run st (HaveValue (JObject (acc @ map (\<lambda>(k, v). (cleaned k, cleaned_json v)) fs))) t"
  using assms
proof (induction fs arbitrary: acc ps)
  case (Cons kv fs)
  obtain k v where kv: "kv = (k, v)" by (cases kv)
  note v = readsD [of v "InField acc (cleaned k) # st" NeedValue]
  show ?case
  proof (cases fs)
    case Nil
    have "json_run (InField acc (cleaned k) # st) (HaveValue (cleaned_json v)) (CHR 0x7D # t) =
        json_run st (HaveValue (JObject (acc @ [(cleaned k, cleaned_json v)]))) t"
      by (rule tok_run(4)) (simp_all add: json_step_def after_value_def)
    then show ?thesis using Cons.prems v [of "CHR 0x7D # t"] Nil
      by (simp add: kv print_field_def read_key)
  next
    case (Cons w ws)
    let ?t = "Join (map print_field fs) '','' @ CHR 0x7D # t"
    have "json_run (InField acc (cleaned k) # st) (HaveValue (cleaned_json v)) (CHR '','' # ?t) =
        json_run (InObject (acc @ [(cleaned k, cleaned_json v)]) # st) NeedKey ?t"
      by (rule tok_run(6)) (simp_all add: json_step_def after_value_def)
    moreover have "Join (map print_field (kv # fs)) '','' = print_string k @ CHR '':'' # print_json v @ CHR '','' # Join (map print_field fs) '',''"
      by (simp add: Cons kv) (simp add: print_field_def)
    ultimately show ?thesis
      using Cons.prems v [of "CHR '','' # ?t"] Cons.IH [of NeedKey "acc @ [(cleaned k, cleaned_json v)]"] Cons
      by (simp only: kv, simp add: read_key)
  qed
qed simp

lemma read_value: "printable d v \<Longrightarrow> reads v d"
proof (induction v arbitrary: d)
  case (JNumber lit)
  show ?case unfolding reads_def
    using json_run_step [OF next_tok_number [of lit]] JNumber by (auto simp: json_step_def value_start_def)
next
  case JNull
  show ?case unfolding reads_def
    using json_run_step [OF next_tok_words(1)] by (auto simp: json_step_def value_start_def)
next
  case (JBool b)
  show ?case unfolding reads_def
    using json_run_step [OF next_tok_words(2)] json_run_step [OF next_tok_words(3)]
    by (auto simp: json_step_def value_start_def)
next
  case (JString s)
  show ?case unfolding reads_def
    using tok_run(7) by (auto simp: json_step_def value_start_def)
next
  case (JArray vs)
  then have vs: "\<forall>v\<in>set vs. reads v (Suc d)" "d < maxNestingDepth" by (auto simp: list_all_iff)
  show ?case unfolding reads_def
  proof (intro allI impI)
    fix st ps t assume st: "length (st :: frame list) = d" "ps = NeedValue \<or> ps = NeedValueOrClose"
    have o: "json_run st ps (CHR ''['' # r) = json_run (InArray [] # st) NeedValueOrClose r" for r
      by (rule tok_run(1)) (use st vs in \<open>auto simp: json_step_def value_start_def open_container_def\<close>)
    have "json_run (InArray [] # st) NeedValueOrClose (CHR '']'' # t) = json_run st (HaveValue (JArray [])) t"
      by (rule tok_run(2)) (simp_all add: json_step_def)
    then show "json_run st ps (print_json (JArray vs) @ t) = json_run st (HaveValue (cleaned_json (JArray vs))) t"
      using read_elements [of vs st NeedValueOrClose "[]" t] vs st by (cases "vs = []") (simp_all add: o)
  qed
next
  case (JObject fs)
  then have fs: "\<forall>kv\<in>set fs. reads (snd kv) (Suc d)" "d < maxNestingDepth" by (fastforce simp: list_all_iff)+
  show ?case unfolding reads_def
  proof (intro allI impI)
    fix st ps t assume st: "length (st :: frame list) = d" "ps = NeedValue \<or> ps = NeedValueOrClose"
    have o: "json_run st ps (CHR 0x7B # r) = json_run (InObject [] # st) NeedKeyOrClose r" for r
      by (rule tok_run(3)) (use st fs in \<open>auto simp: json_step_def value_start_def open_container_def\<close>)
    have "json_run (InObject [] # st) NeedKeyOrClose (CHR 0x7D # t) = json_run st (HaveValue (JObject [])) t"
      by (rule tok_run(4)) (simp_all add: json_step_def)
    then show "json_run st ps (print_json (JObject fs) @ t) = json_run st (HaveValue (cleaned_json (JObject fs))) t"
      using read_fields [of fs st NeedKeyOrClose "[]" t] fs st
      by (cases "fs = []") (simp_all add: o print_field_def)
  qed
qed

text \<open>A printed value is read back from the front of any text that does not go on with a digit, and from the text alone.\<close>

theorem json_prefix_print: "printable 0 v \<Longrightarrow> ends_number t \<Longrightarrow> json_prefix (print_json v @ t) = Some (cleaned_json v, t)"
  unfolding json_prefix_def
  using readsD [OF read_value, of "[]" v NeedValue t] by (simp add: json_run.simps)

theorem json_text_print: "printable 0 v \<Longrightarrow> json_text (print_json v) = Some (cleaned_json v)"
  using json_prefix_print [of v "[]"] by (simp add: json_text_def)

end
