(* ===== verification/Wire.thy ===== *)
theory Wire
  imports Json_Encode Master_Loops
begin

text \<open>
  The messages between master and worker as texts: \<open>DispatchPayload\<close>
  (\<open>pkg/messaging/payload.go\<close>), marshalled by the master and unmarshalled by the worker, and
  the body of the start acknowledgement. The round trips rest on \<open>json_text_print\<close>: what
  the encoder prints the scanner reads back.
\<close>

subsection \<open>Printed integers\<close>

lemma digits_of_zero: "hd (digits_of n) = CHR ''0'' \<Longrightarrow> n = 0"
proof (induction n rule: digits_of.induct)
  case (1 n)
  show ?case
  proof (cases "n < 10")
    case True
    have "(of_char (hd (digits_of n)) :: nat) = 48 + n" using True by (simp add: digits_of.simps)
    then show ?thesis unfolding "1.prems" by simp
  next
    case False
    then have "hd (digits_of n) = hd (digits_of (n div 10))" by (subst digits_of.simps) simp
    then show ?thesis using "1.IH" [OF False] "1.prems" False by simp
  qed
qed

lemma digits_val_append: "digits_val (xs @ [c]) = digits_val xs * 10 + digit_val c"
  by (simp add: digits_val_def)

lemma digits_val_digits: "digits_val (digits_of n) = int n"
proof (induction n rule: digits_of.induct)
  case (1 n)
  show ?case
  proof (cases "n < 10")
    case True
    then show ?thesis by (simp add: digits_of.simps digits_val_def)
  next
    case False
    have "int (n div 10) * 10 + int (n mod 10) = int n"
      by (metis div_mult_mod_eq of_nat_add of_nat_mult of_nat_numeral)
    then show ?thesis using "1.IH" [OF False] False
      by (subst digits_of.simps) (simp add: digits_val_append)
  qed
qed

lemma digits_all: "list_all is_digit (digits_of n)"
  using digits_of_digits by (auto simp: list_all_iff)

lemma number_of_plain:
  assumes "list_all is_digit ds" "ds \<noteq> []" "hd ds = CHR ''0'' \<longrightarrow> tl ds = []"
  shows "number_of ds = Some (of_int (digits_val ds))" "number_of (CHR ''-'' # ds) = Some (- of_int (digits_val ds))"
proof -
  have t: "takeWhile is_digit ds = ds" "dropWhile is_digit ds = []"
    using assms(1) by (auto simp: list_all_iff)
  have h: "hd ds \<noteq> CHR ''-''" using assms(1,2) by (cases ds) (auto simp: is_digit_def)
  show "number_of ds = Some (of_int (digits_val ds))" "number_of (CHR ''-'' # ds) = Some (- of_int (digits_val ds))"
    using h assms by (auto simp add: list_all_iff number_of_def Let_def t exponent_of_def)
qed

lemma number_of_Itoa: "number_of (Itoa n) = Some (of_int n)"
proof -
  have "hd (digits_of m) = CHR ''0'' \<longrightarrow> tl (digits_of m) = []" for m
    using digits_of_zero [of m] by (auto simp: digits_of.simps [of 0])
  then show ?thesis
    using number_of_plain [OF digits_all] by (simp add: Itoa_def digits_val_digits)
qed

lemma literal_Itoa [simp]: "literal (Itoa n)"
proof -
  have "list_all num_char (digits_of m)" for m
    using digits_all [of m] by (auto simp: list_all_iff num_char_def)
  then show ?thesis unfolding literal_def number_of_Itoa by (simp add: Itoa_def num_char_def)
qed

lemma number_val_Itoa [simp]: "number_val (Itoa n) = of_int n"
  by (simp add: number_val_def number_of_Itoa)

subsection \<open>DispatchPayload\<close>

text \<open>The fields in the order of the struct; a map is printed in the order of its keys and left out when empty.\<close>

definition string_map :: "(string \<rightharpoonup> string) \<Rightarrow> json" where
  "string_map m = JObject (map (\<lambda>k. (k, JString (get_or [] m k))) (sorted_list_of_set (dom m)))"

definition payload_json :: "DispatchPayload \<Rightarrow> json" where
  "payload_json p =
     JObject ([(''target_node'', JString (TargetNode p)), (''job_id'', JString (JobID p)),
               (''command'', JString (pCommand p)), (''walltime_seconds'', JNumber (Itoa (pWalltimeSeconds p))),
               (''action'', JString (Action p))] @
              (case pEnvVars p of None \<Rightarrow> [] | Some m \<Rightarrow> if dom m = {} then [] else [(''env_vars'', string_map m)]))"

definition Marshal_payload :: "DispatchPayload \<Rightarrow> string" where
  "Marshal_payload p = print_json (payload_json p)"

text \<open>
  Decoding into a struct. Field names match in any case, where \<open>U+017F\<close> counts as an
  \<open>S\<close> and \<open>U+212A\<close> as a \<open>K\<close>; unknown fields are skipped, later fields win, \<open>null\<close> keeps a string
  or a number and resets a map, entries are added to a map that is there. A value of
  another type is an error, on which the callers drop the whole message.
\<close>

function fold_name :: "string \<Rightarrow> string" where
  "fold_name s =
     (case s of
        [] \<Rightarrow> []
      | c # r \<Rightarrow>
          if HasPrefix s [CHR 0xC5, CHR 0xBF] then CHR ''S'' # fold_name (drop 2 s)
          else if HasPrefix s [CHR 0xE2, CHR 0x84, CHR 0xAA] then CHR ''K'' # fold_name (drop 3 s)
          else upper_char c # fold_name r)"
  by auto
termination by (relation "measure length") auto

declare fold_name.simps [simp del]

definition string_into :: "json \<Rightarrow> string \<Rightarrow> string option" where
  "string_into v old = (case v of JString s \<Rightarrow> Some s | JNull \<Rightarrow> Some old | _ \<Rightarrow> None)"

definition int_into :: "json \<Rightarrow> int \<Rightarrow> int option" where
  "int_into v old =
     (case v of JNumber lit \<Rightarrow> (case Atoi lit of (n, None) \<Rightarrow> Some n | _ \<Rightarrow> None) | JNull \<Rightarrow> Some old | _ \<Rightarrow> None)"

fun entries_into :: "(string \<times> json) list \<Rightarrow> (string \<rightharpoonup> string) \<Rightarrow> (string \<rightharpoonup> string) option" where
  "entries_into [] m = Some m"
| "entries_into ((k, v) # fs) m =
     (case string_into v [] of None \<Rightarrow> None | Some s \<Rightarrow> entries_into fs (m(k \<mapsto> s)))"

definition map_into :: "json \<Rightarrow> (string \<rightharpoonup> string) option \<Rightarrow> (string \<rightharpoonup> string) option option" where
  "map_into v old =
     (case v of
        JNull \<Rightarrow> Some None
      | JObject fs \<Rightarrow> map_option Some (entries_into fs (case old of None \<Rightarrow> Map.empty | Some m \<Rightarrow> m))
      | _ \<Rightarrow> None)"

definition payload_field :: "string \<Rightarrow> json \<Rightarrow> DispatchPayload \<Rightarrow> DispatchPayload option" where
  "payload_field k v p =
     (if k = ''TARGET_NODE'' then map_option (\<lambda>s. p\<lparr>TargetNode := s\<rparr>) (string_into v (TargetNode p))
      else if k = ''JOB_ID'' then map_option (\<lambda>s. p\<lparr>JobID := s\<rparr>) (string_into v (JobID p))
      else if k = ''COMMAND'' then map_option (\<lambda>s. p\<lparr>pCommand := s\<rparr>) (string_into v (pCommand p))
      else if k = ''WALLTIME_SECONDS'' then map_option (\<lambda>n. p\<lparr>pWalltimeSeconds := n\<rparr>) (int_into v (pWalltimeSeconds p))
      else if k = ''ACTION'' then map_option (\<lambda>s. p\<lparr>Action := s\<rparr>) (string_into v (Action p))
      else if k = ''ENV_VARS'' then map_option (\<lambda>m. p\<lparr>pEnvVars := m\<rparr>) (map_into v (pEnvVars p))
      else Some p)"

fun payload_fields :: "(string \<times> json) list \<Rightarrow> DispatchPayload \<Rightarrow> DispatchPayload option" where
  "payload_fields [] p = Some p"
| "payload_fields ((k, v) # fs) p =
     (case payload_field (fold_name k) v p of None \<Rightarrow> None | Some p' \<Rightarrow> payload_fields fs p')"

definition zero_payload :: DispatchPayload where
  "zero_payload = \<lparr>TargetNode = [], JobID = [], pCommand = [], pWalltimeSeconds = 0, Action = [], pEnvVars = None\<rparr>"

definition Unmarshal_payload :: "string \<Rightarrow> DispatchPayload option" where
  "Unmarshal_payload s =
     (case json_text s of
        Some (JObject fs) \<Rightarrow> payload_fields fs zero_payload
      | Some JNull \<Rightarrow> Some zero_payload
      | _ \<Rightarrow> None)"

text \<open>The payloads whose texts are well-formed UTF-8, and the one thing printing forgets: an empty map is no map.\<close>

definition payload_ok :: "DispatchPayload \<Rightarrow> bool" where
  "payload_ok p \<longleftrightarrow> utf8_ok (TargetNode p) \<and> utf8_ok (JobID p) \<and> utf8_ok (pCommand p) \<and> utf8_ok (Action p) \<and>
     in_i64 (pWalltimeSeconds p) \<and>
     (case pEnvVars p of None \<Rightarrow> True | Some m \<Rightarrow> finite (dom m) \<and> (\<forall>k v. m k = Some v \<longrightarrow> utf8_ok k \<and> utf8_ok v))"

definition env_of :: "DispatchPayload \<Rightarrow> string \<rightharpoonup> string" where
  "env_of p = (case pEnvVars p of None \<Rightarrow> Map.empty | Some m \<Rightarrow> m)"

definition normal_payload :: "DispatchPayload \<Rightarrow> DispatchPayload" where
  "normal_payload p = p\<lparr>pEnvVars := if dom (env_of p) = {} then None else Some (env_of p)\<rparr>"

lemma entries_into_strings:
  "entries_into (map (\<lambda>k. (k, JString (f k))) ks) m = Some (\<lambda>k. if k \<in> set ks then Some (f k) else m k)"
proof (induction ks arbitrary: m)
  case (Cons k ks)
  then show ?case by (auto simp: string_into_def fun_eq_iff)
qed simp

lemma names_ok:
  "utf8_ok ''target_node''" "utf8_ok ''job_id''" "utf8_ok ''command''" "utf8_ok ''walltime_seconds''" "utf8_ok ''action''" "utf8_ok ''env_vars''"
  by (simp_all add: ascii_ok)

lemma fold_names:
  "fold_name ''target_node'' = ''TARGET_NODE''" "fold_name ''job_id'' = ''JOB_ID''" "fold_name ''command'' = ''COMMAND''"
  "fold_name ''walltime_seconds'' = ''WALLTIME_SECONDS''" "fold_name ''action'' = ''ACTION''" "fold_name ''env_vars'' = ''ENV_VARS''"
  by (simp_all add: fold_name.simps HasPrefix_def upper_char_def char_of_def bit_simps)

lemma printable_string_map: "Suc 0 \<le> maxNestingDepth \<Longrightarrow> printable (Suc 0) (string_map m)"
  by (simp add: string_map_def maxNestingDepth_def list_all_iff)

lemma cleaned_string_map:
  assumes "finite (dom m)" "\<forall>k v. m k = Some v \<longrightarrow> utf8_ok k \<and> utf8_ok v"
  shows "cleaned_json (string_map m) = string_map m"
proof -
  have "utf8_ok k \<and> utf8_ok (get_or [] m k)" if "k \<in> set (sorted_list_of_set (dom m))" for k
    using that assms by (auto simp: get_or_def split: option.splits)
  then show ?thesis by (simp add: string_map_def)
qed

lemma payload_printable: "printable 0 (payload_json p)"
  by (simp add: payload_json_def printable_string_map maxNestingDepth_def split: option.splits)

lemma payload_cleaned: "payload_ok p \<Longrightarrow> cleaned_json (payload_json p) = payload_json p"
  by (auto simp: payload_ok_def payload_json_def cleaned_string_map names_ok split: option.splits)

lemma map_into_string_map:
  assumes "finite (dom m)"
  shows "map_into (string_map m) None = Some (Some m)"
proof -
  have "(\<lambda>k. if k \<in> dom m then Some (get_or [] m k) else None) = m"
    by (auto simp: fun_eq_iff get_or_def split: option.splits)
  then show ?thesis using assms by (simp add: map_into_def string_map_def entries_into_strings)
qed

lemma payload_read:
  assumes "payload_ok p"
  shows "Unmarshal_payload (Marshal_payload p) = Some (normal_payload p)"
proof -
  have t: "json_text (Marshal_payload p) = Some (payload_json p)"
    unfolding Marshal_payload_def using json_text_print [OF payload_printable] payload_cleaned [OF assms] by simp
  have w: "int_into (JNumber (Itoa (pWalltimeSeconds p))) x = Some (pWalltimeSeconds p)" for x
    using assms by (simp add: int_into_def payload_ok_def Atoi_Itoa)
  show ?thesis
  proof (cases "pEnvVars p")
    case None
    then show ?thesis
      by (simp add: Unmarshal_payload_def t payload_json_def payload_field_def fold_names string_into_def w normal_payload_def
          env_of_def zero_payload_def)
  next
    case (Some m)
    then have "finite (dom m)" using assms by (simp add: payload_ok_def)
    then show ?thesis using Some map_into_string_map [of m]
      by (simp add: Unmarshal_payload_def t payload_json_def payload_field_def fold_names string_into_def w normal_payload_def
          env_of_def zero_payload_def)
  qed
qed

interpretation dispatch: codec Marshal_payload Unmarshal_payload payload_ok normal_payload
  by unfold_locales (rule payload_read)

text \<open>
  C30. The dispatch message round trip: for a payload whose strings are well-formed UTF-8
  and whose wall time fits 64 bits, the worker decodes from the text the master publishes
  exactly the payload that was marshalled (target, job, command, wall time, action and
  every environment variable); only an empty environment becomes an absent one.
\<close>

theorem payload_roundtrip:
  assumes "payload_ok p"
  shows "Unmarshal_payload (Marshal_payload p) = Some (normal_payload p) \<and> env_of (normal_payload p) = env_of p"
  using payload_read [OF assms] by (auto simp: normal_payload_def env_of_def split: option.splits)

definition sample_payload :: DispatchPayload where
  "sample_payload = \<lparr>TargetNode = ''w1'', JobID = ''a'', pCommand = ''echo '' @ [CHR 0x22, CHR 0xC3, CHR 0xA9, CHR ''<'', CHR 0x0A],
     pWalltimeSeconds = - 60, Action = ''execute'', pEnvVars = Some [''RANK'' \<mapsto> ''0'']\<rparr>"

theorem payload_roundtrip_witness:
  "Unmarshal_payload (Marshal_payload sample_payload) = Some sample_payload"
proof -
  have "utf8_ok (pCommand sample_payload)"
    by (simp add: utf8_ok_def sample_payload_def cleaned.simps rune_len_def cont_byte_def)
  then have "payload_ok sample_payload"
    by (simp add: payload_ok_def) (simp add: sample_payload_def ascii_ok in_i64_def)
  then show ?thesis
    using payload_roundtrip [of sample_payload] by (simp add: normal_payload_def env_of_def sample_payload_def)
qed

end
