(* ===== verification/Worker.thy ===== *)
theory Worker
  imports Wire
begin

text \<open>
  The worker agent, \<open>internal/daemon/worker.go\<close>: the message loop, the goroutine of every
  job (acknowledge, register, execute, report, clean up), the reporting and subscribing
  loops with their pauses, and the start-up. What the operating system and the network do
  (the result of a command, whether a post or a connection succeeds) is an argument.
\<close>

subsection \<open>Contexts\<close>

text \<open>
  A context ends once: by its deadline or by its cancel function, whichever comes first.
\<close>

datatype ctx_error = DeadlineExceeded | Canceled

record Context =
  ctxDeadline :: "Time option"
  ctxErr :: "ctx_error option"

definition ctx_Err :: "Time \<Rightarrow> Context \<Rightarrow> ctx_error option" where
  "ctx_Err now c =
     (case ctxErr c of
        Some e \<Rightarrow> Some e
      | None \<Rightarrow> (case ctxDeadline c of Some d \<Rightarrow> if d \<le> now then Some DeadlineExceeded else None | None \<Rightarrow> None))"

definition ctx_cancel :: "Time \<Rightarrow> Context \<Rightarrow> Context" where
  "ctx_cancel now c = c\<lparr>ctxErr := (case ctx_Err now c of Some e \<Rightarrow> Some e | None \<Rightarrow> Some Canceled)\<rparr>"

lemma ctx_Err_cancel: "ctx_Err later (ctx_cancel now c) = (case ctx_Err now c of Some e \<Rightarrow> Some e | None \<Rightarrow> Some Canceled)"
  by (simp add: ctx_cancel_def ctx_Err_def split: option.splits)

text \<open>The context of a job: its wall time in seconds, converted with 64-bit wrap-around.\<close>

definition job_context :: "Time \<Rightarrow> DispatchPayload \<Rightarrow> Context" where
  "job_context now p =
     \<lparr>ctxDeadline = (if 0 < pWalltimeSeconds p then Some (time_Add now (i64 (pWalltimeSeconds p * Second))) else None),
      ctxErr = None\<rparr>"

subsection \<open>The job's command and its environment\<close>

text \<open>
  \<open>exec.Cmd\<close> passes the list of assignments with the last one of a name winning; without
  variables of its own the job inherits the environment. \<open>order\<close> is the order in which the
  job's variables are visited.
\<close>

definition assignment :: "string \<Rightarrow> string \<Rightarrow> string" where
  "assignment k v = k @ CHR ''='' # v"

definition job_environ :: "string list \<Rightarrow> string list \<Rightarrow> DispatchPayload \<Rightarrow> string list" where
  "job_environ os_environ order p =
     (if order = [] then os_environ
      else os_environ @ map (\<lambda>k. assignment k (get_or [] (env_of p) k)) order)"

fun getenv :: "string list \<Rightarrow> string \<Rightarrow> string option" where
  "getenv [] name = None"
| "getenv (e # es) name =
     (case getenv es name of
        Some v \<Rightarrow> Some v
      | None \<Rightarrow> if HasPrefix e (name @ ''='') then Some (drop (length name + 1) e) else None)"

definition prepareCommand :: "string \<Rightarrow> string list" where
  "prepareCommand cmdStr = [''sh'', ''-c'', cmdStr]"

subsection \<open>One job\<close>

definition error_message :: "Time \<Rightarrow> Context \<Rightarrow> DispatchPayload \<Rightarrow> string option \<Rightarrow> string" where
  "error_message now c p execErr =
     (case execErr of
        None \<Rightarrow> []
      | Some e \<Rightarrow>
          (case ctx_Err now c of
             Some DeadlineExceeded \<Rightarrow> ''walltime exceeded ('' @ Itoa (pWalltimeSeconds p) @ ''s)''
           | Some Canceled \<Rightarrow> ''cancelled''
           | None \<Rightarrow> e))"

text \<open>The reported request carries two instants the master does not read.\<close>

record JobReport = ReportResultRequest +
  rrStartTime :: int
  rrEndTime :: int

datatype phase = Acknowledging | Executing Context Time | Reporting JobReport | Finished

record Run =
  runPayload :: DispatchPayload
  runPhase :: phase

record Worker =
  wkName :: string
  wkRuns :: "Run list"
  wkCancelFuncs :: "string \<rightharpoonup> nat"

definition set_phase :: "nat \<Rightarrow> phase \<Rightarrow> Worker \<Rightarrow> Worker" where
  "set_phase i ph w = w\<lparr>wkRuns := (wkRuns w)[i := (wkRuns w ! i)\<lparr>runPhase := ph\<rparr>]\<rparr>"

text \<open>
  Calling the cancel function of a run: it ends the context of a command in execution and
  has no effect once the command is over.
\<close>

definition call_cancel :: "Time \<Rightarrow> nat \<Rightarrow> Worker \<Rightarrow> Worker" where
  "call_cancel now i w =
     (case runPhase (wkRuns w ! i) of
        Executing c started \<Rightarrow> set_phase i (Executing (ctx_cancel now c) started) w
      | _ \<Rightarrow> w)"

text \<open>One message of the subscription.\<close>

definition on_payload :: "Time \<Rightarrow> DispatchPayload \<Rightarrow> Worker \<Rightarrow> Worker" where
  "on_payload now p w =
     (if TargetNode p \<noteq> wkName w then w
      else if Action p = ''cancel''
      then (case wkCancelFuncs w (JobID p) of Some i \<Rightarrow> call_cancel now i w | None \<Rightarrow> w)
      else if Action p = ''execute'' \<or> Action p = []
      then w\<lparr>wkRuns := wkRuns w @ [\<lparr>runPayload = p, runPhase = Acknowledging\<rparr>]\<rparr>
      else w)"

definition receive :: "Time \<Rightarrow> string \<Rightarrow> Worker \<Rightarrow> Worker" where
  "receive now msg w = (case Unmarshal_payload msg of None \<Rightarrow> w | Some p \<Rightarrow> on_payload now p w)"

text \<open>The goroutine of run \<open>i\<close>: after the acknowledgement, after the command, after the report.\<close>

definition start_run :: "Time \<Rightarrow> nat \<Rightarrow> Worker \<Rightarrow> Worker" where
  "start_run now i w =
     (let p = runPayload (wkRuns w ! i)
      in (set_phase i (Executing (job_context now p) now) w)\<lparr>wkCancelFuncs := (wkCancelFuncs w)(JobID p \<mapsto> i)\<rparr>)"

definition run_report :: "string \<Rightarrow> DispatchPayload \<Rightarrow> Time \<Rightarrow> Time \<Rightarrow> Context \<Rightarrow> string option \<Rightarrow> string \<Rightarrow> JobReport" where
  "run_report name p started ended c execErr stdout =
     \<lparr>rrJobId = JobID p, rrWorkerNode = name, rrSuccess = (execErr = None), rrOutput = stdout,
      rrError = error_message ended c p execErr, rrStartTime = time_Unix started, rrEndTime = time_Unix ended\<rparr>"

definition end_run :: "Time \<Rightarrow> string option \<Rightarrow> string \<Rightarrow> nat \<Rightarrow> Worker \<Rightarrow> Worker" where
  "end_run now execErr stdout i w =
     (case runPhase (wkRuns w ! i) of
        Executing c started \<Rightarrow>
          set_phase i (Reporting (run_report (wkName w) (runPayload (wkRuns w ! i)) started now c execErr stdout)) w
      | _ \<Rightarrow> w)"

definition cleanup_run :: "nat \<Rightarrow> Worker \<Rightarrow> Worker" where
  "cleanup_run i w =
     (set_phase i Finished w)\<lparr>wkCancelFuncs := (wkCancelFuncs w)(JobID (runPayload (wkRuns w ! i)) := None)\<rparr>"

subsection \<open>Reachable workers\<close>

text \<open>
  Any interleaving of incoming messages and the goroutines' steps. With the flag set, an
  order to execute a job only arrives while no run of that job is unfinished.
\<close>

definition idle :: "string \<Rightarrow> Worker \<Rightarrow> bool" where
  "idle jid w \<longleftrightarrow> (\<forall>r\<in>set (wkRuns w). JobID (runPayload r) = jid \<longrightarrow> runPhase r = Finished)"

definition calm :: "string \<Rightarrow> Worker \<Rightarrow> bool" where
  "calm msg w \<longleftrightarrow>
     (case Unmarshal_payload msg of
        None \<Rightarrow> True
      | Some p \<Rightarrow> Action p = ''cancel'' \<or> idle (JobID p) w)"

inductive worker_reach :: "bool \<Rightarrow> string \<Rightarrow> Worker \<Rightarrow> bool" for calmly name where
  begin_worker: "worker_reach calmly name \<lparr>wkName = name, wkRuns = [], wkCancelFuncs = Map.empty\<rparr>"
| message: "worker_reach calmly name w \<Longrightarrow> calmly \<longrightarrow> calm msg w \<Longrightarrow> worker_reach calmly name (receive now msg w)"
| start: "worker_reach calmly name w \<Longrightarrow> i < length (wkRuns w) \<Longrightarrow> runPhase (wkRuns w ! i) = Acknowledging \<Longrightarrow>
    worker_reach calmly name (start_run now i w)"
| command_ends: "worker_reach calmly name w \<Longrightarrow> i < length (wkRuns w) \<Longrightarrow> worker_reach calmly name (end_run now execErr stdout i w)"
| reported: "worker_reach calmly name w \<Longrightarrow> i < length (wkRuns w) \<Longrightarrow> runPhase (wkRuns w ! i) = Reporting r \<Longrightarrow>
    worker_reach calmly name (cleanup_run i w)"

lemma set_phase_sel [simp]:
  "wkName (set_phase i ph w) = wkName w" "wkCancelFuncs (set_phase i ph w) = wkCancelFuncs w"
  "length (wkRuns (set_phase i ph w)) = length (wkRuns w)"
  "k < length (wkRuns w) \<Longrightarrow> runPayload (wkRuns (set_phase i ph w) ! k) = runPayload (wkRuns w ! k)"
  "k < length (wkRuns w) \<Longrightarrow> runPhase (wkRuns (set_phase i ph w) ! k) = (if k = i then ph else runPhase (wkRuns w ! k))"
  by (cases "i < length (wkRuns w)"; auto simp: set_phase_def nth_list_update)+

lemma call_cancel_sel [simp]:
  "wkName (call_cancel now i w) = wkName w" "wkCancelFuncs (call_cancel now i w) = wkCancelFuncs w"
  "length (wkRuns (call_cancel now i w)) = length (wkRuns w)"
  "k < length (wkRuns w) \<Longrightarrow> runPayload (wkRuns (call_cancel now i w) ! k) = runPayload (wkRuns w ! k)"
  by (simp_all add: call_cancel_def split: phase.split)

text \<open>The cancel functions are those of commands not yet cleaned up, under their own job.\<close>

definition live :: "phase \<Rightarrow> bool" where
  "live ph = (case ph of Executing _ _ \<Rightarrow> True | Reporting _ \<Rightarrow> True | _ \<Rightarrow> False)"

definition run_at :: "Worker \<Rightarrow> nat \<Rightarrow> string \<Rightarrow> phase \<Rightarrow> bool" where
  "run_at w i jid ph \<longleftrightarrow> i < length (wkRuns w) \<and> JobID (runPayload (wkRuns w ! i)) = jid \<and> runPhase (wkRuns w ! i) = ph"

definition funcs_ok :: "Worker \<Rightarrow> bool" where
  "funcs_ok w \<longleftrightarrow> (\<forall>jid i. wkCancelFuncs w jid = Some i \<longrightarrow> (\<exists>ph. run_at w i jid ph \<and> live ph))"

definition exclusive :: "Worker \<Rightarrow> bool" where
  "exclusive w \<longleftrightarrow>
     (\<forall>i k jid ph ph'. run_at w i jid ph \<longrightarrow> run_at w k jid ph' \<longrightarrow> ph \<noteq> Finished \<longrightarrow> ph' \<noteq> Finished \<longrightarrow> i = k) \<and>
     (\<forall>i jid ph. run_at w i jid ph \<longrightarrow> live ph \<longrightarrow> wkCancelFuncs w jid = Some i)"

lemma live_cases: "live ph \<longleftrightarrow> (\<exists>c t. ph = Executing c t) \<or> (\<exists>r. ph = Reporting r)"
  by (simp add: live_def split: phase.split)

lemma run_at_set_phase:
  "run_at (set_phase i ph w) k jid ph' \<longleftrightarrow> (if k = i then ph' = ph \<and> (\<exists>old. run_at w i jid old) else run_at w k jid ph')"
  by (auto simp: run_at_def)

lemma run_at_funcs [simp]: "run_at (w\<lparr>wkCancelFuncs := f\<rparr>) k jid ph = run_at w k jid ph"
  by (simp add: run_at_def)

text \<open>What the steps do to the runs, seen through their job and phase.\<close>

lemma run_at_call_cancel:
  "run_at (call_cancel now i w) k jid ph \<longleftrightarrow>
     (if k = i then \<exists>old. run_at w i jid old \<and> ph = (case old of Executing c t \<Rightarrow> Executing (ctx_cancel now c) t | _ \<Rightarrow> old)
      else run_at w k jid ph)"
  by (auto simp: call_cancel_def run_at_set_phase run_at_def split: phase.split)

lemma run_at_append:
  "run_at (w\<lparr>wkRuns := wkRuns w @ [\<lparr>runPayload = p, runPhase = Acknowledging\<rparr>]\<rparr>) k jid ph \<longleftrightarrow>
     run_at w k jid ph \<or> (k = length (wkRuns w) \<and> jid = JobID p \<and> ph = Acknowledging)"
  by (auto simp: run_at_def nth_append)

lemma idle_run: "idle jid w \<Longrightarrow> run_at w k jid ph \<Longrightarrow> ph = Finished"
  by (auto simp: idle_def run_at_def)

lemma funcs_ok_frame:
  assumes "funcs_ok w" "wkCancelFuncs w' = wkCancelFuncs w"
    "\<And>i jid ph. run_at w i jid ph \<Longrightarrow> live ph \<Longrightarrow> \<exists>ph'. run_at w' i jid ph' \<and> live ph'"
  shows "funcs_ok w'"
  using assms unfolding funcs_ok_def by metis

lemma exclusive_frame:
  assumes "exclusive w" "wkCancelFuncs w' = wkCancelFuncs w"
    "\<And>i jid ph'. run_at w' i jid ph' \<Longrightarrow> \<exists>ph. run_at w i jid ph \<and> (live ph' \<longrightarrow> live ph) \<and> (ph' \<noteq> Finished \<longrightarrow> ph \<noteq> Finished)"
  shows "exclusive w'"
  using assms unfolding exclusive_def by (smt (verit, best))

lemma live_simps [simp]: "live (Executing c t)" "live (Reporting r)" "\<not> live Acknowledging" "\<not> live Finished"
  by (simp_all add: live_def)

lemma call_cancel_view:
  "run_at w k jid ph \<Longrightarrow> \<exists>ph'. run_at (call_cancel now i w) k jid ph' \<and> live ph' = live ph \<and> (ph' = Finished) = (ph = Finished)"
  "run_at (call_cancel now i w) k jid ph' \<Longrightarrow> \<exists>ph. run_at w k jid ph \<and> live ph' = live ph \<and> (ph' = Finished) = (ph = Finished)"
proof -
  have c: "live (case ph of Executing c t \<Rightarrow> Executing (ctx_cancel now c) t | _ \<Rightarrow> ph) = live ph"
    "(case ph of Executing c t \<Rightarrow> Executing (ctx_cancel now c) t | _ \<Rightarrow> ph) = Finished \<longleftrightarrow> ph = Finished" for ph
    by (simp_all split: phase.split)
  show "run_at w k jid ph \<Longrightarrow> \<exists>ph'. run_at (call_cancel now i w) k jid ph' \<and> live ph' = live ph \<and> (ph' = Finished) = (ph = Finished)"
    unfolding run_at_call_cancel using c by (cases "k = i") (simp_all, blast+)
  show "run_at (call_cancel now i w) k jid ph' \<Longrightarrow> \<exists>ph. run_at w k jid ph \<and> live ph' = live ph \<and> (ph' = Finished) = (ph = Finished)"
    unfolding run_at_call_cancel using c by (cases "k = i") (simp_all, blast+)
qed

lemma call_cancel_ok: "funcs_ok w \<Longrightarrow> funcs_ok (call_cancel now i w)"
  by (rule funcs_ok_frame) (simp_all, metis call_cancel_view(1))

lemma call_cancel_exclusive: "exclusive w \<Longrightarrow> exclusive (call_cancel now i w)"
  by (rule exclusive_frame) (simp_all, metis call_cancel_view(2))

lemma append_ok: "funcs_ok w \<Longrightarrow> funcs_ok (w\<lparr>wkRuns := wkRuns w @ [\<lparr>runPayload = p, runPhase = Acknowledging\<rparr>]\<rparr>)"
  by (rule funcs_ok_frame) (auto simp: run_at_append)

lemma receive_ok: "funcs_ok w \<Longrightarrow> funcs_ok (receive now msg w)"
  by (simp add: receive_def on_payload_def call_cancel_ok append_ok split: option.split)

lemma receive_exclusive:
  assumes "exclusive w" "calm msg w"
  shows "exclusive (receive now msg w)"
proof (cases "Unmarshal_payload msg")
  case (Some p)
  have "exclusive (w\<lparr>wkRuns := wkRuns w @ [\<lparr>runPayload = p, runPhase = Acknowledging\<rparr>]\<rparr>)" if "idle (JobID p) w"
    using assms(1) idle_run [OF that] unfolding exclusive_def run_at_append by auto
  then show ?thesis using assms Some by (auto simp: receive_def on_payload_def calm_def call_cancel_exclusive split: option.split)
qed (simp add: receive_def on_payload_def assms)

lemma start_ok:
  assumes "funcs_ok w" "run_at w i jid Acknowledging"
  shows "funcs_ok (start_run now i w)"
  unfolding funcs_ok_def
proof (intro allI impI)
  fix j k assume k: "wkCancelFuncs (start_run now i w) j = Some k"
  have jid: "JobID (runPayload (wkRuns w ! i)) = jid" using assms(2) by (simp add: run_at_def)
  show "\<exists>ph. run_at (start_run now i w) k j ph \<and> live ph"
  proof (cases "j = jid")
    case True
    then have "k = i" using k by (simp add: start_run_def Let_def jid)
    then show ?thesis using True assms(2) by (auto simp: start_run_def Let_def run_at_set_phase)
  next
    case False
    then have "wkCancelFuncs w j = Some k" using k by (simp add: start_run_def Let_def jid)
    then obtain ph where "run_at w k j ph" "live ph" using assms(1) unfolding funcs_ok_def by blast
    moreover have "k \<noteq> i" using False assms(2) \<open>run_at w k j ph\<close> by (auto simp: run_at_def)
    ultimately show ?thesis by (auto simp: start_run_def Let_def run_at_set_phase)
  qed
qed

lemma start_exclusive:
  assumes "exclusive w" "run_at w i jid Acknowledging"
  shows "exclusive (start_run now i w)"
proof -
  have jid: "JobID (runPayload (wkRuns w ! i)) = jid" using assms(2) by (simp add: run_at_def)
  have only: "k = i" if "run_at w k jid ph" "ph \<noteq> Finished" for k ph
    using assms that unfolding exclusive_def by blast
  have at: "run_at (start_run now i w) k j ph \<longleftrightarrow>
      (if k = i then ph = Executing (job_context now (runPayload (wkRuns w ! i))) now \<and> j = jid else run_at w k j ph)" for k j ph
    using assms(2) by (auto simp: start_run_def Let_def run_at_set_phase) (auto simp: run_at_def)
  show ?thesis
    unfolding exclusive_def
  proof (intro conjI allI impI)
    fix k l j ph ph'
    assume "run_at (start_run now i w) k j ph" "run_at (start_run now i w) l j ph'" "ph \<noteq> Finished" "ph' \<noteq> Finished"
    then show "k = l" using only assms(1) unfolding at exclusive_def by (metis (no_types, lifting))
  next
    fix k j ph assume k: "run_at (start_run now i w) k j ph" "live ph"
    show "wkCancelFuncs (start_run now i w) j = Some k"
    proof (cases "k = i")
      case True
      then show ?thesis using k unfolding at by (simp add: start_run_def Let_def jid)
    next
      case False
      then have "run_at w k j ph" using k unfolding at by simp
      moreover have "j \<noteq> jid" using only [of k ph] False calculation k(2) by (cases ph) auto
      ultimately show ?thesis using assms(1) k(2) by (simp add: start_run_def Let_def jid exclusive_def)
    qed
  qed
qed

lemma end_view:
  "run_at (end_run now e out i w) k jid ph' \<Longrightarrow> \<exists>ph. run_at w k jid ph \<and> live ph' = live ph \<and> (ph' = Finished) = (ph = Finished)"
  "run_at w k jid ph \<Longrightarrow> \<exists>ph'. run_at (end_run now e out i w) k jid ph' \<and> live ph' = live ph \<and> (ph' = Finished) = (ph = Finished)"
  "wkCancelFuncs (end_run now e out i w) = wkCancelFuncs w"
  by (fastforce simp: end_run_def run_at_set_phase run_at_def split: phase.split_asm if_splits)
     (auto simp: end_run_def run_at_set_phase run_at_def split: phase.split)

lemma end_ok: "funcs_ok w \<Longrightarrow> funcs_ok (end_run now e out i w)"
  by (rule funcs_ok_frame) (simp_all add: end_view(3), metis end_view(2))

lemma end_exclusive: "exclusive w \<Longrightarrow> exclusive (end_run now e out i w)"
  by (rule exclusive_frame) (simp_all add: end_view(3), metis end_view(1))

lemma cleanup_at:
  "run_at (cleanup_run i w) k jid ph \<longleftrightarrow> (if k = i then ph = Finished \<and> (\<exists>old. run_at w i jid old) else run_at w k jid ph)"
  by (simp add: cleanup_run_def run_at_set_phase)

lemma cleanup_ok:
  assumes "funcs_ok w" "i < length (wkRuns w)"
  shows "funcs_ok (cleanup_run i w)"
  unfolding funcs_ok_def
proof (intro allI impI)
  fix j k assume k: "wkCancelFuncs (cleanup_run i w) j = Some k"
  then have j: "j \<noteq> JobID (runPayload (wkRuns w ! i))" "wkCancelFuncs w j = Some k"
    by (auto simp: cleanup_run_def split: if_splits)
  then obtain ph where "run_at w k j ph" "live ph" using assms(1) unfolding funcs_ok_def by blast
  then show "\<exists>ph. run_at (cleanup_run i w) k j ph \<and> live ph" using j(1) unfolding cleanup_at by (auto simp: run_at_def)
qed

lemma cleanup_exclusive:
  assumes "exclusive w" "run_at w i jid (Reporting r)"
  shows "exclusive (cleanup_run i w)"
proof -
  have jid: "JobID (runPayload (wkRuns w ! i)) = jid" using assms(2) by (simp add: run_at_def)
  have only: "k = i" if "run_at w k jid ph" "ph \<noteq> Finished" for k ph
    using assms that unfolding exclusive_def by blast
  show ?thesis
    unfolding exclusive_def
  proof (intro conjI allI impI)
    fix k l j ph ph'
    assume "run_at (cleanup_run i w) k j ph" "run_at (cleanup_run i w) l j ph'" "ph \<noteq> Finished" "ph' \<noteq> Finished"
    then show "k = l" using assms(1) unfolding cleanup_at exclusive_def by (auto split: if_splits)
  next
    fix k j ph assume k: "run_at (cleanup_run i w) k j ph" "live ph"
    then have r: "k \<noteq> i" "run_at w k j ph" unfolding cleanup_at by (auto split: if_splits)
    then have "j \<noteq> jid" using only [of k ph] k(2) by (cases ph) auto
    then show "wkCancelFuncs (cleanup_run i w) j = Some k"
      using assms(1) r k(2) by (simp add: cleanup_run_def jid exclusive_def)
  qed
qed

lemma run_at_phase: "i < length (wkRuns w) \<Longrightarrow> run_at w i (JobID (runPayload (wkRuns w ! i))) (runPhase (wkRuns w ! i))"
  by (simp add: run_at_def)

lemma reach_name: "worker_reach calmly name w \<Longrightarrow> wkName w = name"
  by (induction rule: worker_reach.induct)
     (auto simp: receive_def on_payload_def start_run_def end_run_def cleanup_run_def Let_def split: option.split phase.split)

lemma reach_funcs: "worker_reach calmly name w \<Longrightarrow> funcs_ok w"
proof (induction rule: worker_reach.induct)
  case begin_worker
  then show ?case by (simp add: funcs_ok_def)
next
  case (start w i now)
  then show ?case using start_ok run_at_phase [of i w] by fastforce
qed (simp_all add: receive_ok end_ok cleanup_ok)

lemma reach_exclusive: "worker_reach calmly name w \<Longrightarrow> calmly \<Longrightarrow> exclusive w"
proof (induction rule: worker_reach.induct)
  case begin_worker
  then show ?case by (simp add: exclusive_def run_at_def)
next
  case (start w i now)
  then show ?case using start_exclusive run_at_phase [of i w] by fastforce
next
  case (reported w i r)
  then show ?case using cleanup_exclusive run_at_phase [of i w] by fastforce
qed (simp_all add: receive_exclusive end_exclusive)

subsection \<open>Orders and cancellations\<close>

text \<open>What the texts published by a master mean to a worker.\<close>

text \<open>The messages a master sends one after the other are all acted on, in their order.\<close>

lemma receive_all:
  "list_all payload_ok ps \<Longrightarrow> fold (receive now) (map Marshal_payload ps) w = fold (on_payload now \<circ> normal_payload) ps w"
  by (rule dispatch.fold_encoded) (simp_all add: receive_def)

lemma receive_payload:
  assumes "payload_ok p"
  shows "receive now (Marshal_payload p) w =
     (if TargetNode p \<noteq> wkName w then w
      else if Action p = ''cancel''
      then (case wkCancelFuncs w (JobID p) of Some i \<Rightarrow> call_cancel now i w | None \<Rightarrow> w)
      else if Action p = ''execute'' \<or> Action p = []
      then w\<lparr>wkRuns := wkRuns w @ [\<lparr>runPayload = normal_payload p, runPhase = Acknowledging\<rparr>]\<rparr>
      else w)"
  unfolding receive_def on_payload_def dispatch.decode_encode [OF assms] option.case by (simp add: normal_payload_def cong: if_cong)

lemma cancel_payload_ok: "utf8_ok name \<Longrightarrow> utf8_ok jid \<Longrightarrow> payload_ok (cancel_payload name jid)"
  by (simp add: payload_ok_def cancel_payload_def in_i64_def ascii_ok)


definition exec_payload :: "string \<Rightarrow> string \<Rightarrow> DispatchPayload" where
  "exec_payload name jid = \<lparr>TargetNode = name, JobID = jid, pCommand = ''true'', pWalltimeSeconds = 60, Action = ''execute'', pEnvVars = None\<rparr>"

lemma exec_payload_ok: "utf8_ok name \<Longrightarrow> utf8_ok jid \<Longrightarrow> payload_ok (exec_payload name jid)"
  by (simp add: payload_ok_def exec_payload_def in_i64_def ascii_ok)

text \<open>A worker \<open>w1\<close> that was given the job \<open>a\<close>, and later executes it.\<close>

definition new_worker :: "string \<Rightarrow> Worker" where
  "new_worker name = \<lparr>wkName = name, wkRuns = [], wkCancelFuncs = Map.empty\<rparr>"

definition given_a :: "Worker \<Rightarrow> Worker" where
  "given_a w = w\<lparr>wkRuns := wkRuns w @ [\<lparr>runPayload = exec_payload ''w1'' ''a'', runPhase = Acknowledging\<rparr>]\<rparr>"

lemma receive_a: "wkName w = ''w1'' \<Longrightarrow> receive now (Marshal_payload (exec_payload ''w1'' ''a'')) w = given_a w"
  by (subst receive_payload) (simp_all add: exec_payload_ok ascii_ok, simp add: exec_payload_def normal_payload_def env_of_def given_a_def)

lemma calm_a: "calm (Marshal_payload (exec_payload ''w1'' ''a'')) (new_worker ''w1'')"
  by (simp add: calm_def payload_read exec_payload_ok ascii_ok idle_def new_worker_def)

lemma given_reach: "worker_reach calmly ''w1'' (given_a (new_worker ''w1''))"
  using worker_reach.message [OF worker_reach.begin_worker [of calmly "''w1''"], of "Marshal_payload (exec_payload ''w1'' ''a'')" 0]
    calm_a receive_a [of "new_worker ''w1''" 0]
  by (simp add: new_worker_def)

definition running_a :: Worker where
  "running_a = start_run 5 0 (given_a (new_worker ''w1''))"

lemma running_a_eq:
  "running_a = \<lparr>wkName = ''w1'', wkRuns = [\<lparr>runPayload = exec_payload ''w1'' ''a'',
     runPhase = Executing (job_context 5 (exec_payload ''w1'' ''a'')) 5\<rparr>], wkCancelFuncs = [''a'' \<mapsto> 0]\<rparr>"
  by (simp add: running_a_def given_a_def new_worker_def start_run_def set_phase_def Let_def) (simp add: exec_payload_def)

lemma running_reach: "worker_reach calmly ''w1'' running_a"
  unfolding running_a_def by (rule worker_reach.start [OF given_reach]) (simp_all add: given_a_def new_worker_def)

lemma running_at: "0 < length (wkRuns running_a)" "runPhase (wkRuns running_a ! 0) = Executing (job_context 5 (exec_payload ''w1'' ''a'')) 5"
  "''a'' = JobID (runPayload (wkRuns running_a ! 0))" "wkName running_a = ''w1''"
  by (simp_all add: running_a_eq) (simp add: exec_payload_def)

lemma ascii_names: "utf8_ok ''w1''" "utf8_ok ''a''"
  by (simp_all add: ascii_ok)


text \<open>
  A cancellation can come too early. While the worker acknowledges a job (up to three
  posts and their pauses) its cancel function is not registered: the cancel message has no
  effect, and the command is started afterwards with a fresh context.
\<close>

theorem early_cancel_is_lost:
  assumes "worker_reach True name w" "k < length (wkRuns w)" "runPhase (wkRuns w ! k) = Acknowledging"
    "jid = JobID (runPayload (wkRuns w ! k))" "utf8_ok name" "utf8_ok jid"
  shows "receive now (Marshal_payload (cancel_payload name jid)) w = w \<and>
    runPhase (wkRuns (start_run later k w) ! k) = Executing (job_context later (runPayload (wkRuns w ! k))) later"
proof -
  have k: "run_at w k jid Acknowledging" using assms(2-4) by (simp add: run_at_def)
  have "wkCancelFuncs w jid = None"
  proof (rule ccontr)
    assume "wkCancelFuncs w jid \<noteq> None"
    then obtain i ph where i: "run_at w i jid ph" "live ph" using reach_funcs [OF assms(1)] unfolding funcs_ok_def by blast
    then have "ph \<noteq> Finished" by auto
    then have "i = k" using reach_exclusive [OF assms(1) TrueI] k i(1) unfolding exclusive_def by blast
    then show False using i k by (simp add: run_at_def)
  qed
  then have "receive now (Marshal_payload (cancel_payload name jid)) w = w"
    using receive_payload [OF cancel_payload_ok [OF assms(5,6)], of now w] by (simp add: cancel_payload_def)
  then show ?thesis using assms(2) by (simp add: start_run_def Let_def)
qed

theorem early_cancel_is_lost_witness:
  "receive 7 (Marshal_payload (cancel_payload ''w1'' ''a'')) (given_a (new_worker ''w1'')) = given_a (new_worker ''w1'')"
proof -
  have at: "0 < length (wkRuns (given_a (new_worker ''w1'')))" "runPhase (wkRuns (given_a (new_worker ''w1'')) ! 0) = Acknowledging"
    "''a'' = JobID (runPayload (wkRuns (given_a (new_worker ''w1'')) ! 0))"
    by (simp_all add: given_a_def new_worker_def) (simp add: exec_payload_def)
  show ?thesis using early_cancel_is_lost [OF given_reach at ascii_names] by blast
qed

text \<open>
  A clean-up can take the cancel function of another run. When a job is executed twice
  at once (the handshake requeued it), the clean-up of the run that reports first removes
  the entry of the job: the other command goes on, and a cancel message no longer reaches it.
\<close>

theorem stale_cleanup_loses_cancel:
  assumes "worker_reach False name w" "i < length (wkRuns w)" "k < length (wkRuns w)"
    "JobID (runPayload (wkRuns w ! i)) = jid" "JobID (runPayload (wkRuns w ! k)) = jid"
    "runPhase (wkRuns w ! i) = Reporting r" "runPhase (wkRuns w ! k) = Executing c started" "utf8_ok name" "utf8_ok jid"
  shows "worker_reach False name (cleanup_run i w) \<and> runPhase (wkRuns (cleanup_run i w) ! k) = Executing c started \<and>
    receive now (Marshal_payload (cancel_payload name jid)) (cleanup_run i w) = cleanup_run i w"
proof -
  have "wkName (cleanup_run i w) = name" "wkCancelFuncs (cleanup_run i w) jid = None"
    using reach_name [OF assms(1)] assms(4) by (simp_all add: cleanup_run_def)
  then have "receive now (Marshal_payload (cancel_payload name jid)) (cleanup_run i w) = cleanup_run i w"
    using receive_payload [OF cancel_payload_ok [OF assms(8,9)], of now "cleanup_run i w"] by (simp add: cancel_payload_def)
  then show ?thesis
    using assms worker_reach.reported [OF assms(1,2,6)] by (auto simp: cleanup_run_def)
qed

text \<open>The job \<open>a\<close> given twice: the first command has ended and reports, the second is in execution.\<close>

definition twice_a :: Worker where
  "twice_a = end_run 8 None [] 0 (start_run 7 1 (given_a running_a))"

lemma length_start_run [simp]: "length (wkRuns (start_run now i w)) = length (wkRuns w)"
  by (simp add: start_run_def Let_def)

lemma twice_reach: "worker_reach False ''w1'' twice_a"
proof -
  have "worker_reach False ''w1'' (given_a running_a)"
    using worker_reach.message [OF running_reach, of False "Marshal_payload (exec_payload ''w1'' ''a'')" 6]
      receive_a [OF running_at(4), of 6] by simp
  then show ?thesis unfolding twice_a_def
    by (intro worker_reach.command_ends worker_reach.start)
       (simp_all only: length_start_run, simp_all add: given_a_def running_a_eq)
qed

lemma twice_a_at:
  "length (wkRuns twice_a) = 2" "JobID (runPayload (wkRuns twice_a ! 0)) = ''a''" "JobID (runPayload (wkRuns twice_a ! 1)) = ''a''"
  "\<exists>r. runPhase (wkRuns twice_a ! 0) = Reporting r"
  "runPhase (wkRuns twice_a ! 1) = Executing (job_context 7 (exec_payload ''w1'' ''a'')) 7"
  by (simp_all add: twice_a_def end_run_def start_run_def Let_def given_a_def running_a_eq set_phase_def)
     (simp_all add: exec_payload_def)

theorem stale_cleanup_loses_cancel_witness:
  "receive 9 (Marshal_payload (cancel_payload ''w1'' ''a'')) (cleanup_run 0 twice_a) = cleanup_run 0 twice_a \<and>
   runPhase (wkRuns (cleanup_run 0 twice_a) ! 1) = Executing (job_context 7 (exec_payload ''w1'' ''a'')) 7"
proof -
  obtain r where "runPhase (wkRuns twice_a ! 0) = Reporting r" using twice_a_at(4) by blast
  then show ?thesis
    using stale_cleanup_loses_cancel [OF twice_reach _ _ twice_a_at(2,3) _ twice_a_at(5) ascii_names, of r 9] twice_a_at(1) by auto
qed

end
