(* ===== verification/Worker_Loops.thy ===== *)
theory Worker_Loops
  imports Worker
begin

text \<open>
  The loops of \<open>internal/daemon/worker.go\<close>: reporting a result until the master takes it,
  the subscription with its reconnections, the acknowledgement of a job's start, and the
  steps of \<open>StartWorker\<close>. The answers of the network are functions of the attempt.
\<close>

subsection \<open>Reporting\<close>

text \<open>
  \<open>accepted i\<close>: attempt \<open>i\<close> returns no error. \<open>stopped i\<close>: the worker is shutting down when
  attempt \<open>i\<close> has failed; \<open>interrupted i\<close>: it is shut down during the pause after it. The
  result lists the pauses; a loop that never ends has no result.
\<close>

datatype report_end = Delivered | Discarded

definition report_backoff :: "Duration \<Rightarrow> Duration" where
  "report_backoff b = (if b < 60 * Second then i64 (b * 2) else b)"

partial_function (option) report_loop ::
    "(nat \<Rightarrow> bool) \<Rightarrow> (nat \<Rightarrow> bool) \<Rightarrow> (nat \<Rightarrow> bool) \<Rightarrow> nat \<Rightarrow> Duration \<Rightarrow> Duration list \<Rightarrow> (report_end \<times> Duration list) option" where
  "report_loop accepted stopped interrupted i backoff pauses =
     (if accepted i then Some (Delivered, pauses)
      else if stopped i \<or> interrupted i then Some (Discarded, pauses)
      else report_loop accepted stopped interrupted (Suc i) (report_backoff backoff) (pauses @ [backoff]))"

definition reportWithRetry :: "(nat \<Rightarrow> bool) \<Rightarrow> (nat \<Rightarrow> bool) \<Rightarrow> (nat \<Rightarrow> bool) \<Rightarrow> (report_end \<times> Duration list) option" where
  "reportWithRetry accepted stopped interrupted = report_loop accepted stopped interrupted 0 Second []"

text \<open>The pause after \<open>n\<close> failures.\<close>

definition report_pause :: "nat \<Rightarrow> Duration" where
  "report_pause n = 2 ^ min n 6 * Second"

lemma report_backoff_pause: "report_backoff (report_pause n) = report_pause (Suc n)"
proof -
  consider "n < 6" | "6 \<le> n" by linarith
  then show ?thesis
  proof cases
    case 1
    then have "n \<in> {0, 1, 2, 3, 4, 5}" by auto
    then show ?thesis by (auto simp: report_backoff_def report_pause_def Second_def i64_def)
  qed (simp add: report_backoff_def report_pause_def Second_def)
qed

lemma report_loop_run:
  assumes "\<forall>k<n. \<not> accepted (i + k) \<and> \<not> stopped (i + k) \<and> \<not> interrupted (i + k)"
  shows "report_loop accepted stopped interrupted i (report_pause m) ps =
    report_loop accepted stopped interrupted (i + n) (report_pause (m + n)) (ps @ map report_pause [m..<m + n])"
  using assms
proof (induction n)
  case (Suc n)
  then have "report_loop accepted stopped interrupted (i + n) (report_pause (m + n)) qs =
      report_loop accepted stopped interrupted (Suc (i + n)) (report_pause (Suc (m + n))) (qs @ [report_pause (m + n)])" for qs
    by (subst report_loop.simps) (simp add: report_backoff_pause)
  then show ?case using Suc by simp
qed simp

lemma report_loop_ends:
  assumes "report_loop accepted stopped interrupted i b ps = Some r"
  shows "\<exists>n\<ge>i. accepted n \<or> stopped n \<or> interrupted n"
proof (rule report_loop.raw_induct
    [where P = "\<lambda>accepted stopped interrupted i b ps r. \<exists>n\<ge>i. accepted n \<or> stopped n \<or> interrupted n", OF _ assms], goal_cases)
  case (1 f accepted stopped interrupted i b ps r)
  show ?case
  proof (cases "accepted i \<or> stopped i \<or> interrupted i")
    case False
    then have "\<exists>n\<ge>Suc i. accepted n \<or> stopped n \<or> interrupted n" using 1 by simp
    then show ?thesis using Suc_leD by blast
  qed auto
qed

lemma ex_unique: "(\<And>m. A m \<and> B m \<longleftrightarrow> m = n) \<Longrightarrow> (\<exists>m. A m \<and> B m \<and> C m) \<longleftrightarrow> C n"
  by (simp flip: conj_assoc)

lemma report_at:
  assumes "\<forall>k<n. \<not> (accepted k \<or> stopped k \<or> interrupted k)" "accepted n \<or> stopped n \<or> interrupted n"
  shows "reportWithRetry accepted stopped interrupted = Some (if accepted n then Delivered else Discarded, map report_pause [0..<n])"
proof -
  have "report_loop accepted stopped interrupted n b qs = Some (if accepted n then Delivered else Discarded, qs)" for b qs
    using assms(2) by (subst report_loop.simps) auto
  moreover have "Second = report_pause 0" by (simp add: report_pause_def)
  ultimately show ?thesis
    using report_loop_run [of n accepted 0 stopped interrupted 0 "[]"] assms(1) unfolding reportWithRetry_def by simp
qed

lemma report_never:
  assumes "\<forall>n. \<not> (accepted n \<or> stopped n \<or> interrupted n)"
  shows "reportWithRetry accepted stopped interrupted = None"
  using report_loop_ends [of accepted stopped interrupted 0 Second "[]"] assms unfolding reportWithRetry_def
  by (cases "report_loop accepted stopped interrupted 0 Second []") auto

text \<open>
  C32. Reporting. The worker goes on until the master accepts the report or the worker is
  shut down, and returns at the first attempt where one of them happens: delivered exactly
  when the master accepted, discarded otherwise; it returns at all exactly when there is
  such an attempt. The pause after the \<open>n\<close>-th failure is \<open>2\<^sup>n\<close> seconds up to the sixth and 64
  seconds from then on (the change log promises at most 30).
\<close>

theorem report_until_accepted:
  "(reportWithRetry accepted stopped interrupted = Some (r, ps) \<longleftrightarrow>
     (\<exists>n. (\<forall>k<n. \<not> (accepted k \<or> stopped k \<or> interrupted k)) \<and> (accepted n \<or> stopped n \<or> interrupted n) \<and>
        r = (if accepted n then Delivered else Discarded) \<and> ps = map report_pause [0..<n])) \<and>
   (reportWithRetry accepted stopped interrupted = None \<longleftrightarrow> (\<forall>n. \<not> accepted n \<and> \<not> stopped n \<and> \<not> interrupted n))"
proof (cases "\<exists>n. accepted n \<or> stopped n \<or> interrupted n")
  case True
  then obtain n where n: "accepted n \<or> stopped n \<or> interrupted n" "\<forall>k<n. \<not> (accepted k \<or> stopped k \<or> interrupted k)"
    unfolding exists_least_iff [of "\<lambda>n. accepted n \<or> stopped n \<or> interrupted n"] by blast
  have u: "(\<forall>k<m. \<not> (accepted k \<or> stopped k \<or> interrupted k)) \<and> (accepted m \<or> stopped m \<or> interrupted m) \<longleftrightarrow> m = n" for m
    using n by (metis linorder_neqE_nat)
  have "\<not> (\<forall>n. \<not> accepted n \<and> \<not> stopped n \<and> \<not> interrupted n)" using True by blast
  then show ?thesis unfolding report_at [OF n(2,1)] ex_unique [OF u] by auto
next
  case False
  then show ?thesis using report_never [of accepted stopped interrupted] by auto
qed

theorem report_until_accepted_witness:
  "reportWithRetry (\<lambda>i. i = 2) (\<lambda>_. False) (\<lambda>_. False) = Some (Delivered, [Second, 2 * Second])"
proof -
  have "[Second, 2 * Second] = map report_pause [0..<2]" by (simp add: report_pause_def upt_rec)
  then show ?thesis
    using report_until_accepted [of "\<lambda>i. i = 2" "\<lambda>_. False" "\<lambda>_. False" Delivered "[Second, 2 * Second]"] by auto
qed

subsection \<open>The subscription\<close>

text \<open>
  The goroutine of \<open>subscribeWithReconnect\<close> as a machine over what happens to it: dialling
  succeeds or fails, a message arrives, receiving fails, the worker shuts down. It yields
  the messages it forwards and the pauses it makes.
\<close>

datatype link = Dialing Duration | Receiving | LinkClosed

datatype link_event = DialOk | DialFail | Got string | RecvFail | CtxDone

definition dial_backoff :: "Duration \<Rightarrow> Duration" where
  "dial_backoff b = (if b < 30 * Second then i64 (b * 2) else b)"

fun link_step :: "link \<Rightarrow> link_event \<Rightarrow> link \<times> string list \<times> Duration list" where
  "link_step (Dialing b) DialFail = (Dialing (dial_backoff b), [], [b])"
| "link_step (Dialing b) DialOk = (Receiving, [], [])"
| "link_step Receiving (Got msg) = (Receiving, [msg], [])"
| "link_step Receiving RecvFail = (Dialing Second, [], [])"
| "link_step l CtxDone = (LinkClosed, [], [])"
| "link_step l e = (l, [], [])"

fun subscribeWithReconnect :: "link \<Rightarrow> link_event list \<Rightarrow> link \<times> string list \<times> Duration list" where
  "subscribeWithReconnect l [] = (l, [], [])"
| "subscribeWithReconnect l (e # es) =
     (case link_step l e of (l1, out, ws) \<Rightarrow>
        (case subscribeWithReconnect l1 es of (l2, out', ws') \<Rightarrow> (l2, out @ out', ws @ ws')))"

text \<open>The messages of a run, and the number of connection attempts that have failed in a row.\<close>

definition messages :: "link_event list \<Rightarrow> string list" where
  "messages es = concat (map (\<lambda>e. case e of Got m \<Rightarrow> [m] | _ \<Rightarrow> []) es)"

definition dial_pause :: "nat \<Rightarrow> Duration" where
  "dial_pause n = 2 ^ min n 5 * Second"

fun link_sane :: "link \<Rightarrow> link_event list \<Rightarrow> bool" where
  "link_sane l [] = True"
| "link_sane (Dialing b) (e # es) =
     (case e of DialFail \<Rightarrow> link_sane (Dialing (dial_backoff b)) es | DialOk \<Rightarrow> link_sane Receiving es
      | CtxDone \<Rightarrow> es = [] | _ \<Rightarrow> False)"
| "link_sane Receiving (e # es) =
     (case e of Got m \<Rightarrow> link_sane Receiving es | RecvFail \<Rightarrow> link_sane (Dialing Second) es | CtxDone \<Rightarrow> es = [] | _ \<Rightarrow> False)"
| "link_sane LinkClosed (e # es) = False"

lemma dial_backoff_pause: "dial_backoff (dial_pause n) = dial_pause (Suc n)"
proof -
  consider "n < 5" | "5 \<le> n" by linarith
  then show ?thesis
  proof cases
    case 1
    then have "n \<in> {0, 1, 2, 3, 4}" by auto
    then show ?thesis by (auto simp: dial_backoff_def dial_pause_def Second_def i64_def)
  qed (simp add: dial_backoff_def dial_pause_def Second_def)
qed

lemma subscription_run:
  "link_sane l es \<Longrightarrow> (\<forall>b. l = Dialing b \<longrightarrow> (\<exists>n. b = dial_pause n)) \<Longrightarrow>
     \<exists>l' ws. subscribeWithReconnect l es = (l', messages es, ws) \<and> (\<forall>d\<in>set ws. \<exists>n. d = dial_pause n)"
proof (induction es arbitrary: l)
  case (Cons e es)
  have s: "Second = dial_pause 0" by (simp add: dial_pause_def)
  show ?case
  proof (cases l)
    case (Dialing b)
    then obtain n where "b = dial_pause n" using Cons.prems by auto
    then have b: "dial_backoff b = dial_pause (Suc n)" using dial_backoff_pause by simp
    show ?thesis
      using Cons.prems Dialing b \<open>b = _\<close> Cons.IH [of "Dialing (dial_backoff b)"] Cons.IH [of Receiving]
      by (cases e) (fastforce simp: messages_def)+
  next
    case Receiving
    show ?thesis
      using Cons.prems Receiving Cons.IH [of "Dialing Second"] Cons.IH [of Receiving] s
      by (cases e) (fastforce simp: messages_def)+
  qed (use Cons.prems in simp)
qed (simp add: messages_def)

text \<open>
  The subscription forwards exactly the messages it receives, in order, over any
  number of lost connections and failed attempts. The pauses after failed attempts are
  1, 2, 4, 8, 16, 32, 32, ... seconds from the start and from every lost connection on: the
  longest is 32 seconds (the README promises at most 30).
\<close>

theorem subscription_forwards:
  assumes "link_sane (Dialing Second) es"
  shows "(\<exists>l ws. subscribeWithReconnect (Dialing Second) es = (l, messages es, ws) \<and>
      (\<forall>d\<in>set ws. Second \<le> d \<and> d \<le> 32 * Second)) \<and>
    subscribeWithReconnect (Dialing Second) (replicate k DialFail) = (Dialing (dial_pause k), [], map dial_pause [0..<k])"
proof -
  have b: "Second \<le> dial_pause n \<and> dial_pause n \<le> 32 * Second" for n
  proof -
    have "(2::int) ^ min n 5 \<le> 2 ^ 5" by (rule power_increasing) simp_all
    moreover have "(1::int) \<le> 2 ^ min n 5" by simp
    ultimately show ?thesis by (simp add: dial_pause_def)
  qed
  have s: "Second = dial_pause 0" by (simp add: dial_pause_def)
  have r: "subscribeWithReconnect (Dialing (dial_pause m)) (replicate k DialFail) =
      (Dialing (dial_pause (m + k)), [], map dial_pause [m..<m + k])" for m
    by (induction k arbitrary: m) (simp_all add: dial_backoff_pause upt_conv_Cons del: upt_Suc)
  have "\<forall>x. Dialing Second = Dialing x \<longrightarrow> (\<exists>n. x = dial_pause n)" using s by auto
  then obtain l ws where l: "subscribeWithReconnect (Dialing Second) es = (l, messages es, ws)" "\<forall>d\<in>set ws. \<exists>n. d = dial_pause n"
    using subscription_run [OF assms] by blast
  then have "\<forall>d\<in>set ws. Second \<le> d \<and> d \<le> 32 * Second" using b by auto
  then show ?thesis using l(1) r [of 0] s by auto
qed

theorem subscription_forwards_witness:
  "\<exists>l ws. subscribeWithReconnect (Dialing Second) [DialFail, DialOk, Got ''m'', RecvFail, DialFail, DialOk, Got ''n'', CtxDone] = (l, [''m'', ''n''], ws)"
  using subscription_forwards [of "[DialFail, DialOk, Got ''m'', RecvFail, DialFail, DialOk, Got ''n'', CtxDone]" 0]
  by (auto simp: messages_def)

subsection \<open>Acknowledging the start of a job\<close>

text \<open>
  \<open>acknowledgeStart\<close> posts the job's identifier up to three times, half a second apart,
  until it is answered with status 200. \<open>post\<close> is the HTTP client: from the body, the attempt
  and the state of the other side to the status (none when the request fails) and the
  state after it. The result also holds the time slept.
\<close>

definition ack_body :: "string \<Rightarrow> string" where
  "ack_body jobID = print_json (string_map [''job_id'' \<mapsto> jobID])"

fun ack_posts :: "(string \<Rightarrow> nat \<Rightarrow> 's \<Rightarrow> nat option \<times> 's) \<Rightarrow> string \<Rightarrow> nat list \<Rightarrow> 's \<Rightarrow> 's \<times> Duration" where
  "ack_posts post body [] s = (s, 0)"
| "ack_posts post body (i # is) s =
     (case post body i s of (status, s1) \<Rightarrow>
        if status = Some 200 then (s1, 0)
        else case ack_posts post body is s1 of (s2, d) \<Rightarrow> (s2, 500 * Millisecond + d))"

definition acknowledgeStart :: "(string \<Rightarrow> nat \<Rightarrow> 's \<Rightarrow> nat option \<times> 's) \<Rightarrow> string \<Rightarrow> 's \<Rightarrow> 's \<times> Duration" where
  "acknowledgeStart post jobID s = ack_posts post (ack_body jobID) [0..<3] s"

text \<open>The master's endpoint behind a network that may lose a request.\<close>

definition post_to_master :: "(nat \<Rightarrow> bool) \<Rightarrow> string \<Rightarrow> nat \<Rightarrow> 'prg schedulerServer \<Rightarrow> nat option \<times> 'prg schedulerServer" where
  "post_to_master arrives body i srv =
     (if arrives i then case acknowledge_start ''POST'' body srv of (status, srv1) \<Rightarrow> (Some status, srv1) else (None, srv))"

lemma ack_job_id_body:
  assumes "utf8_ok jid" "jid \<noteq> []"
  shows "ack_job_id (ack_body jid) = Some jid"
proof -
  have "string_map [''job_id'' \<mapsto> jid] = JObject [(''job_id'', JString jid)]" by (simp add: string_map_def)
  then have "json_prefix (ack_body jid) = Some (JObject [(''job_id'', JString jid)], [])"
    using json_prefix_print [of "JObject [(''job_id'', JString jid)]" "[]"] assms(1)
    by (simp add: ack_body_def maxNestingDepth_def ascii_ok)
  moreover have "ToUpper ''job_id'' = ''JOB_ID''" by (simp add: ToUpper_def upper_char_def char_of_def bit_simps)
  ultimately show ?thesis using assms(2) by (simp add: ack_job_id_def)
qed

interpretation start_ack: codec ack_body ack_job_id "\<lambda>jid. utf8_ok jid \<and> jid \<noteq> []" "\<lambda>jid. jid"
  by unfold_locales (simp add: ack_job_id_body)

lemma acknowledge_body:
  "utf8_ok jid \<Longrightarrow> jid \<noteq> [] \<Longrightarrow> srv_pending srv jid = Some t \<Longrightarrow>
     acknowledge_start ''POST'' (ack_body jid) srv = (200, srv\<lparr>srv_pending := (srv_pending srv)(jid := None)\<rparr>)"
  "utf8_ok jid \<Longrightarrow> jid \<noteq> [] \<Longrightarrow> srv_pending srv jid = None \<Longrightarrow> acknowledge_start ''POST'' (ack_body jid) srv = (404, srv)"
  by (simp_all add: acknowledge_start_def ack_job_id_body)

subsection \<open>Start-up\<close>

text \<open>
  The addresses and credentials \<open>StartWorker\<close> works with. \<open>env\<close> is the process environment;
  profiling, discovery, joining, loading the certificate and opening the connection
  succeed or fail as the arguments say. On a failure the second component tells whether
  the discovery agent that was started has been shut down.
\<close>

record WorkerLink =
  wlAd :: string
  wlAdvertiseAddr :: string
  wlJoinAddr :: string
  wlGrpcAddr :: string
  wlCAFile :: "string option"
  wlSubEndpoint :: string

datatype start_error = ProfilingFailed | DiscoveryFailed | JoinFailed string | TLSFailed string | ConnectFailed string

definition host_port :: "string \<Rightarrow> int \<Rightarrow> string" where
  "host_port host port = host @ '':'' @ Itoa port"

definition advertise_addr :: "(string \<Rightarrow> string) \<Rightarrow> string \<Rightarrow> string \<Rightarrow> string" where
  "advertise_addr env masterHost localIP =
     (if env ''TASCH_ADVERTISE_ADDR'' = [] \<and> masterHost \<noteq> ''127.0.0.1'' then localIP else env ''TASCH_ADVERTISE_ADDR'')"

definition StartWorker ::
    "Config \<Rightarrow> (string \<Rightarrow> string) \<Rightarrow> string option \<Rightarrow> string \<Rightarrow> (string \<Rightarrow> bool) \<Rightarrow> (string \<Rightarrow> bool) \<Rightarrow> (string \<Rightarrow> bool) \<Rightarrow>
     (string option \<Rightarrow> string \<Rightarrow> bool) \<Rightarrow> (start_error \<times> bool) + WorkerLink" where
  "StartWorker cfg env ad localIP discovered joins loads connects =
     (let masterHost = cfgMasterAddr cfg in
      case ad of
        None \<Rightarrow> Inl (ProfilingFailed, False)
      | Some ad \<Rightarrow>
          let advertise = advertise_addr env masterHost localIP;
              joinAddr = host_port masterHost (portGossip (cfgPorts cfg));
              grpcAddr = (if env ''TASCH_GRPC_ADDR'' = [] then host_port masterHost (portGRPC (cfgPorts cfg))
                          else env ''TASCH_GRPC_ADDR'');
              ca = (if tlsEnabled (cfgTLS cfg) \<and> tlsCAFile (cfgTLS cfg) \<noteq> [] then Some (tlsCAFile (cfgTLS cfg)) else None)
          in if \<not> discovered advertise then Inl (DiscoveryFailed, False)
             else if \<not> joins joinAddr then Inl (JoinFailed joinAddr, True)
             else if (case ca of Some f \<Rightarrow> \<not> loads f | None \<Rightarrow> False) then Inl (TLSFailed (tlsCAFile (cfgTLS cfg)), True)
             else if \<not> connects ca grpcAddr then Inl (ConnectFailed grpcAddr, True)
             else Inr \<lparr>wlAd = ad, wlAdvertiseAddr = advertise, wlJoinAddr = joinAddr, wlGrpcAddr = grpcAddr, wlCAFile = ca,
                       wlSubEndpoint = ''tcp://'' @ host_port masterHost (portZMQ (cfgPorts cfg))\<rparr>)"

text \<open>A worker that does not start leaves no discovery agent behind.\<close>

lemma failed_start_shuts_down:
  "StartWorker cfg env ad localIP discovered joins loads connects = Inl (e, down) \<Longrightarrow>
     down \<longleftrightarrow> (\<exists>a. ad = Some a) \<and> discovered (advertise_addr env (cfgMasterAddr cfg) localIP)"
  by (auto simp: StartWorker_def Let_def split: option.splits if_splits)

end
