(* ===== verification/Worker_Master.thy ===== *)
theory Worker_Master
  imports Worker_Loops Loop_Properties
begin

text \<open>
  Master and worker together: a dispatched job as the worker executes it, and the
  handshake over the master's endpoint.
\<close>

subsection \<open>The environment of a command\<close>

lemma getenv_append: "getenv (xs @ ys) n = (case getenv ys n of Some v \<Rightarrow> Some v | None \<Rightarrow> getenv xs n)"
  by (induction xs) (auto split: option.splits)

lemma HasPrefix_assignment:
  assumes "CHR ''='' \<notin> set k" "CHR ''='' \<notin> set n"
  shows "HasPrefix (assignment k v) (n @ ''='') \<longleftrightarrow> k = n"
proof
  assume "HasPrefix (assignment k v) (n @ ''='')"
  then obtain r where r: "k @ CHR ''='' # v = n @ CHR ''='' # r" by (auto simp: HasPrefix_iff assignment_def)
  have "takeWhile (\<lambda>c. c \<noteq> CHR ''='') (k @ CHR ''='' # v) = k" "takeWhile (\<lambda>c. c \<noteq> CHR ''='') (n @ CHR ''='' # r) = n"
    using assms by (auto simp: takeWhile_append takeWhile_eq_all_conv)
  then show "k = n" unfolding r by simp
qed (simp add: HasPrefix_def assignment_def)

lemma getenv_assignments:
  assumes "CHR ''='' \<notin> set n" "\<forall>k\<in>set ks. CHR ''='' \<notin> set k"
  shows "getenv (map (\<lambda>k. assignment k (f k)) ks) n = (if n \<in> set ks then Some (f n) else None)"
  using assms
proof (induction ks)
  case (Cons k ks)
  then show ?case using HasPrefix_assignment [of k n "f k"] by (auto simp: assignment_def split: option.splits)
qed simp

definition plain_names :: "(string \<rightharpoonup> string) \<Rightarrow> bool" where
  "plain_names m \<longleftrightarrow> (\<forall>k\<in>dom m. CHR ''='' \<notin> set k)"

lemma getenv_job:
  assumes "range_order order (env_of p)" "plain_names (env_of p)" "CHR ''='' \<notin> set n"
  shows "getenv (job_environ base order p) n = (case env_of p n of Some v \<Rightarrow> Some v | None \<Rightarrow> getenv base n)"
proof (cases "order = []")
  case True
  then have "env_of p n = None" using assms(1) by (auto simp: range_order_def)
  then show ?thesis using True by (simp add: job_environ_def)
next
  case False
  have "n \<in> set order \<longleftrightarrow> (\<exists>v. env_of p n = Some v)" using assms(1) by (auto simp: range_order_def)
  then show ?thesis
    using False assms getenv_assignments [of n order "\<lambda>k. get_or [] (env_of p) k"]
    by (auto simp: job_environ_def getenv_append range_order_def plain_names_def split: option.splits)
qed

subsection \<open>A dispatched job\<close>

definition job_env :: "Job \<Rightarrow> string \<rightharpoonup> string" where
  "job_env job = (case EnvVars job of None \<Rightarrow> Map.empty | Some m \<Rightarrow> m)"

definition texts_ok :: "(string \<rightharpoonup> string) \<Rightarrow> bool" where
  "texts_ok m \<longleftrightarrow> finite (dom m) \<and> (\<forall>k v. m k = Some v \<longrightarrow> utf8_ok k \<and> utf8_ok v)"

lemma set_default_ok:
  "texts_ok m \<Longrightarrow> utf8_ok k \<Longrightarrow> utf8_ok v \<Longrightarrow> texts_ok (set_default k v m)"
  "plain_names m \<Longrightarrow> CHR ''='' \<notin> set k \<Longrightarrow> plain_names (set_default k v m)"
  "m n = Some x \<Longrightarrow> set_default k v m n = Some x"
  by (cases "m k"; auto simp: texts_ok_def plain_names_def set_default_def)+

definition ascii :: "string \<Rightarrow> bool" where
  "ascii s \<longleftrightarrow> list_all (\<lambda>c. (of_char c :: nat) < 128) s"

lemma ascii_utf8: "ascii s \<Longrightarrow> utf8_ok s"
  unfolding ascii_def by (rule ascii_ok)

lemma ascii_Join: "ascii sep \<Longrightarrow> list_all ascii xs \<Longrightarrow> ascii (Join xs sep)"
  by (induction xs sep rule: Join.induct) (auto simp: ascii_def)

lemma ascii_Itoa: "ascii (Itoa n)"
proof -
  have "ascii (digits_of m)" for m
    using digits_all [of m] by (auto simp: ascii_def list_all_iff is_digit_def)
  then show ?thesis by (simp add: Itoa_def ascii_def)
qed

lemma ascii_gpuDevices: "ascii (gpuDevices n)"
  unfolding gpuDevices_def by (rule ascii_Join) (simp add: ascii_def, simp add: list_all_iff ascii_Itoa)

lemma devices_ok: "utf8_ok (gpuDevices n)" "utf8_ok (''level_zero:'' @ gpuDevices n)"
  using ascii_gpuDevices [of n] by (auto intro!: ascii_utf8) (simp add: ascii_def)

lemma gpu_env_ok:
  "texts_ok m \<Longrightarrow> texts_ok (gpu_env vendor n m)"
  "plain_names m \<Longrightarrow> plain_names (gpu_env vendor n m)"
  "m k = Some v \<Longrightarrow> gpu_env vendor n m k = Some v"
  unfolding gpu_env_def Let_def using devices_ok [of n] by (simp_all add: set_default_ok ascii_ok)

lemma dispatchJob_payload:
  "last (srv_sent (dispatchJob now members srv job n)) =
     \<lparr>TargetNode = n, JobID = ID job, pCommand = Command job, pWalltimeSeconds = WalltimeSeconds job, Action = ''execute'',
      pEnvVars = Some (if 0 < GPUsRequired job then gpu_env (node_vendor n members) (GPUsRequired job) (job_env job) else job_env job)\<rparr>"
  by (simp add: dispatchJob_def Let_def job_env_def)

definition job_texts_ok :: "Job \<Rightarrow> bool" where
  "job_texts_ok job \<longleftrightarrow> utf8_ok (ID job) \<and> utf8_ok (Command job) \<and> in_i64 (WalltimeSeconds job) \<and>
     texts_ok (job_env job) \<and> plain_names (job_env job)"

text \<open>A payload that executes the job: its command, wall time and variables.\<close>

definition runs_job :: "DispatchPayload \<Rightarrow> Job \<Rightarrow> bool" where
  "runs_job q job \<longleftrightarrow> JobID q = ID job \<and> prepareCommand (pCommand q) = [''sh'', ''-c'', Command job] \<and>
     pWalltimeSeconds q = WalltimeSeconds job \<and>
     (\<forall>order base k. range_order order (env_of q) \<and> CHR ''='' \<notin> set k \<longrightarrow>
        (case job_env job k of
           Some v \<Rightarrow> getenv (job_environ base order q) k = Some v
         | None \<Rightarrow> GPUsRequired job \<le> 0 \<longrightarrow> getenv (job_environ base order q) k = getenv base k))"

lemma dispatched_payload:
  assumes "job_texts_ok job" "utf8_ok n" and p_def: "p = last (srv_sent (dispatchJob now members srv job n))"
  shows "payload_ok p" "TargetNode p = n" "Action p = ''execute''" "runs_job (normal_payload p) job"
proof -
  note p = p_def [unfolded dispatchJob_payload]
  have e: "texts_ok (env_of p)" "plain_names (env_of p)" "job_env job k = Some v \<Longrightarrow> env_of p k = Some v"
    "GPUsRequired job \<le> 0 \<Longrightarrow> env_of p = job_env job" for k v
    using assms(1) by (auto simp: p env_of_def job_texts_ok_def gpu_env_ok)
  have sel: "TargetNode p = n" "JobID p = ID job" "pCommand p = Command job" "pWalltimeSeconds p = WalltimeSeconds job"
    "Action p = ''execute''" "pEnvVars p = Some (env_of p)"
    by (simp_all add: p env_of_def)
  show "payload_ok p" using assms(1,2) e(1) by (simp add: payload_ok_def sel job_texts_ok_def texts_ok_def ascii_ok)
  have q: "env_of (normal_payload p) = env_of p" by (auto simp: normal_payload_def env_of_def)
  have g: "getenv (job_environ base order (normal_payload p)) k = (case env_of p k of Some v \<Rightarrow> Some v | None \<Rightarrow> getenv base k)"
    if "range_order order (env_of (normal_payload p))" "CHR ''='' \<notin> set k" for order base k
    using getenv_job [OF that(1)] e(2) that(2) unfolding q by blast
  have "case job_env job k of
      Some v \<Rightarrow> getenv (job_environ base order (normal_payload p)) k = Some v
    | None \<Rightarrow> GPUsRequired job \<le> 0 \<longrightarrow> getenv (job_environ base order (normal_payload p)) k = getenv base k"
    if "range_order order (env_of (normal_payload p))" "CHR ''='' \<notin> set k" for order base k
    using g [OF that, of base] e(3,4) by (auto split: option.split)
  then show "runs_job (normal_payload p) job"
    unfolding runs_job_def prepareCommand_def by (simp add: normal_payload_def sel)
qed (simp_all add: assms(3) dispatchJob_payload)

lemma dispatched_message:
  assumes "job_texts_ok job" "utf8_ok n"
  shows "\<exists>q. runs_job q job \<and> (\<forall>later w. receive later (Marshal_payload (last (srv_sent (dispatchJob now members srv job n)))) w =
    (if n \<noteq> wkName w then w else w\<lparr>wkRuns := wkRuns w @ [\<lparr>runPayload = q, runPhase = Acknowledging\<rparr>]\<rparr>))"
proof -
  note p = dispatched_payload [OF assms refl, of now members srv]
  show ?thesis using p(4) receive_payload [OF p(1), unfolded p(2,3)] by auto
qed

lemma receive_dispatched:
  assumes "job_texts_ok job" "utf8_ok n" "msg = Marshal_payload (last (srv_sent (dispatchJob now members srv job n)))"
  obtains q where "runs_job q job"
    "receive later msg w = (if n \<noteq> wkName w then w else w\<lparr>wkRuns := wkRuns w @ [\<lparr>runPayload = q, runPhase = Acknowledging\<rparr>]\<rparr>)"
  using dispatched_message [OF assms(1,2), of now members srv] that unfolding assms(3) by blast

text \<open>
  From dispatch to command: the text the master publishes for a job starts exactly one
  run on the worker it names and nothing on any other worker. The run executes the job's
  command under the job's wall time, and in its environment every variable of the job has
  the job's value, whatever the worker's own environment and the device list say; for a
  job without GPUs every other variable is inherited.
\<close>

theorem dispatched_command_runs:
  assumes "job_texts_ok job" "utf8_ok n" "msg = Marshal_payload (last (srv_sent (dispatchJob now members srv job n)))"
  shows "(wkName w \<noteq> n \<longrightarrow> receive later msg w = w) \<and>
    (wkName w = n \<longrightarrow>
       (\<exists>q. receive later msg w = w\<lparr>wkRuns := wkRuns w @ [\<lparr>runPayload = q, runPhase = Acknowledging\<rparr>]\<rparr> \<and> runs_job q job))"
  by (rule receive_dispatched [OF assms, of later w]) auto

definition ex_env_job :: Job where
  "ex_env_job = (ex_job ''a'' [])\<lparr>EnvVars := Some [''RANK'' \<mapsto> ''3'']\<rparr>"

theorem dispatched_command_runs_witness:
  "\<exists>q. receive 8 (Marshal_payload (last (srv_sent (dispatchJob 7 [] (ex_server NewGlobalScheduler) ex_env_job ''w1'')))) (new_worker ''w1'') =
     (new_worker ''w1'')\<lparr>wkRuns := [\<lparr>runPayload = q, runPhase = Acknowledging\<rparr>]\<rparr> \<and> runs_job q ex_env_job"
proof -
  have "job_texts_ok ex_env_job"
    by (simp add: job_texts_ok_def ex_env_job_def ex_job_def zero_job_def job_env_def texts_ok_def plain_names_def ascii_ok in_i64_def)
  then show ?thesis
    using dispatched_command_runs [of ex_env_job "''w1''" _ 7 "[]" "ex_server NewGlobalScheduler" "new_worker ''w1''" 8] ascii_names
    by (simp add: new_worker_def)
qed

subsection \<open>The handshake\<close>

text \<open>
  The handshake from end to end: the body the worker posts is read by the master as
  the job's identifier, so that a job waiting for its acknowledgement stops waiting, and
  nothing else at the master changes, when at least one of the three posts arrives; when
  none arrives nothing changes. The worker spends at most a second and a half on pauses.
\<close>

theorem acknowledgement_arrives:
  assumes "utf8_ok jid" "jid \<noteq> []" "srv_pending srv jid = Some t"
  shows "acknowledgeStart (post_to_master arrives) jid srv =
    (if arrives 0 \<or> arrives 1 \<or> arrives 2
     then (srv\<lparr>srv_pending := (srv_pending srv)(jid := None)\<rparr>, (if arrives 0 then 0 else if arrives 1 then 1 else 2) * 500 * Millisecond)
     else (srv, 3 * 500 * Millisecond))"
proof -
  have "[0..<3] = [0, 1, 2::nat]" by code_simp
  then show ?thesis
    using acknowledge_body(1) [OF assms] by (simp add: acknowledgeStart_def post_to_master_def numeral_2_eq_2)
qed

theorem acknowledgement_arrives_witness:
  "srv_pending (fst (acknowledgeStart (post_to_master (\<lambda>i. i = 1)) ''a'' ((ex_server ex_running)\<lparr>srv_pending := [''a'' \<mapsto> 7]\<rparr>))) ''a'' = None"
  using acknowledgement_arrives [of "''a''" "(ex_server ex_running)\<lparr>srv_pending := [''a'' \<mapsto> 7]\<rparr>" 7 "\<lambda>i. i = 1"] ascii_names by simp

end
