(* ===== verification/Lifecycle.thy ===== *)
theory Lifecycle
  imports Worker_Master Result_Properties
begin

text \<open>
  The whole way of a job: accepted by the master, placed by a tick, executed by the worker
  the message names, acknowledged, reported, and read back by a client.
\<close>

subsection \<open>The result of a single job\<close>

lemma reported_parts:
  "srv_pending (reported now srv req job) = srv_pending srv"
  "srv_tracker (reported now srv req job) =
     (if WorkerNode job \<noteq> [] then Release (srv_tracker srv) (WorkerNode job) (GPUsRequired job) (CPUsRequired job) (MemoryRequiredMB job)
      else srv_tracker srv)"
  by (simp_all add: reported_def track_outcome_def Let_def)

lemma report_single:
  fixes now :: Time and ok :: bool
  assumes inv: "gs_inv (srv_queue srv)" and t: "table (srv_queue srv) (rrJobId req) = Some j" and g: "GroupID j = []"
  defines "srv' \<equiv> ReportResult now ok srv req"
  shows "gs_inv (srv_queue srv')"
    "table (srv_queue srv') = (table (srv_queue srv))(rrJobId req \<mapsto> finished now (rrSuccess req) (rrOutput req) (rrError req) j)"
    "waiting (srv_queue srv') = waiting (srv_queue srv)" "srv_pending srv' = srv_pending srv"
    "srv_tracker srv' = (if WorkerNode j \<noteq> []
       then Release (srv_tracker srv) (WorkerNode j) (GPUsRequired j) (CPUsRequired j) (MemoryRequiredMB j) else srv_tracker srv)"
    "srv_timers srv' = srv_timers srv @ (if \<not> rrSuccess req \<and> RetryCount j < MaxRetries j
       then [(now + max 0 (retry_backoff (i64 (RetryCount j + 1))), rrJobId req)] else [])"
proof -
  let ?q = "MarkCompleted now (srv_queue srv) (rrJobId req) (rrSuccess req) (rrOutput req) (rrError req)"
  obtain job where job: "GetJob ?q (rrJobId req) = (Some job, True)"
    "noidx job = finished now (rrSuccess req) (rrOutput req) (rrError req) j"
    using report_job [OF inv t] by blast
  have sel: "GroupID job = []" "RetryCount job = RetryCount j" "MaxRetries job = MaxRetries j" "WorkerNode job = WorkerNode j"
    using same_noidx_fields [OF job(2)] g by simp_all
  have amounts: "GPUsRequired job = GPUsRequired j" "CPUsRequired job = CPUsRequired j" "MemoryRequiredMB job = MemoryRequiredMB j"
    using arg_cong [OF job(2), of GPUsRequired] arg_cong [OF job(2), of CPUsRequired] arg_cong [OF job(2), of MemoryRequiredMB]
    by (simp_all add: noidx_def finished_def)
  obtain m1 m2 m3 where r: "srv' =
     (let srv3 = reported now srv req job
      in if will_retry req job
         then srv_log now (rrJobId req) ''WARN'' m1
           (srv3\<lparr>srv_timers := srv_timers srv3 @ [(now + max 0 (retry_backoff (i64 (RetryCount job + 1))), rrJobId req)]\<rparr>)
         else let srv4 = (case srv_store srv3 of
                Some s \<Rightarrow> if dead_letter req job
                  then srv_log now (rrJobId req) ''ERROR'' m2
                         (srv3\<lparr>srv_store := Some (unless_error s (SaveDeadLetter ok s job))\<rparr>)
                  else srv3
              | None \<Rightarrow> srv3);
              srv5 = (if GroupID job \<noteq> [] then handleGroupCompletion now (GroupID job) (rrJobId req) (rrSuccess req) srv4 else srv4);
              srv6 = srv_log now (rrJobId req) ''INFO'' m3 srv5
           in if rrError req \<noteq> [] then srv_log now (rrJobId req) ''ERROR'' (rrError req) srv6 else srv6)"
    unfolding srv'_def using ReportResult_known [OF job(1), of ok] by blast
  have f: "srv_queue srv' = ?q" "srv_pending srv' = srv_pending srv" "srv_tracker srv' = srv_tracker (reported now srv req job)"
    "srv_timers srv' = srv_timers srv @ (if will_retry req job
       then [(now + max 0 (retry_backoff (i64 (RetryCount job + 1))), rrJobId req)] else [])"
    by (auto simp: r Let_def sel reported_parts split: option.split)
  note m = MarkCompleted_spec [OF inv t refl, of now "rrSuccess req" "rrOutput req" "rrError req"]
  show "gs_inv (srv_queue srv')"
    "table (srv_queue srv') = (table (srv_queue srv))(rrJobId req \<mapsto> finished now (rrSuccess req) (rrOutput req) (rrError req) j)"
    "waiting (srv_queue srv') = waiting (srv_queue srv)" "srv_pending srv' = srv_pending srv"
    "srv_tracker srv' = (if WorkerNode j \<noteq> []
       then Release (srv_tracker srv) (WorkerNode j) (GPUsRequired j) (CPUsRequired j) (MemoryRequiredMB j) else srv_tracker srv)"
    "srv_timers srv' = srv_timers srv @ (if \<not> rrSuccess req \<and> RetryCount j < MaxRetries j
       then [(now + max 0 (retry_backoff (i64 (RetryCount j + 1))), rrJobId req)] else [])"
    using m f by (simp_all add: reported_parts sel amounts will_retry_def)
qed

subsection \<open>The run on the worker\<close>

text \<open>A worker that receives a message, starts the run it adds, and whose command ends.\<close>

definition executed :: "Time \<Rightarrow> Time \<Rightarrow> Time \<Rightarrow> string option \<Rightarrow> string \<Rightarrow> string \<Rightarrow> Worker \<Rightarrow> phase" where
  "executed t2 t3 t4 execErr out msg w =
     (let i = length (wkRuns w) in runPhase (wkRuns (end_run t4 execErr out i (start_run t3 i (receive t2 msg w))) ! i))"

lemma executed_run:
  assumes "receive t2 msg w = w\<lparr>wkRuns := wkRuns w @ [\<lparr>runPayload = q, runPhase = Acknowledging\<rparr>]\<rparr>"
  shows "executed t2 t3 t4 execErr out msg w = Reporting (run_report (wkName w) q t3 t4 (job_context t3 q) execErr out)"
  using assms by (simp add: executed_def Let_def end_run_def start_run_def set_phase_def nth_append list_update_append)

text \<open>What a command that ends at \<open>t4\<close> reports as its error: its own, unless its wall time is over.\<close>

definition outcome_text :: "int \<Rightarrow> Time \<Rightarrow> Time \<Rightarrow> string option \<Rightarrow> string" where
  "outcome_text walltime t3 t4 execErr =
     (case execErr of
        None \<Rightarrow> []
      | Some e \<Rightarrow> if 0 < walltime \<and> t3 + walltime * Second \<le> t4 then ''walltime exceeded ('' @ Itoa walltime @ ''s)'' else e)"

lemma error_message_outcome:
  assumes "pWalltimeSeconds q = sint (x :: 32 word)"
  shows "error_message t4 (job_context t3 q) q execErr = outcome_text (sint x) t3 t4 execErr"
proof -
  have "in_i64 (sint x * Second)"
    using sint_greater_eq [of x] sint_lt [of x] by (simp add: in_i64_def Second_def)
  then show ?thesis
    using assms by (simp add: error_message_def job_context_def ctx_Err_def outcome_text_def time_Add_def split: option.split)
qed

subsection \<open>From submission to result\<close>

lemma SubmitJob_frame:
  assumes "SubmitJob now uuid srv req = (r, srv')"
  shows "srv_eval srv' = srv_eval srv" "srv_cb srv' = srv_cb srv" "srv_tracker srv' = srv_tracker srv"
    "srv_timers srv' = srv_timers srv" "srv_cfg srv' = srv_cfg srv"
proof -
  have f: "srv_eval (snd (submit_job j srv)) = srv_eval srv" "srv_cb (snd (submit_job j srv)) = srv_cb srv"
    "srv_tracker (snd (submit_job j srv)) = srv_tracker srv" "srv_timers (snd (submit_job j srv)) = srv_timers srv"
    "srv_cfg (snd (submit_job j srv)) = srv_cfg srv" for j
    by (auto simp: submit_job_def Let_def split: sum.split prod.split)
  have "srv_eval srv' = srv_eval srv \<and> srv_cb srv' = srv_cb srv \<and> srv_tracker srv' = srv_tracker srv \<and>
      srv_timers srv' = srv_timers srv \<and> srv_cfg srv' = srv_cfg srv"
  proof (cases "srv_draining srv")
    case True
    then show ?thesis using assms SubmitJob_draining [OF True, of now uuid req] by simp
  next
    case False
    obtain msg where "(r, srv') =
      (let r = submit_job (submission now uuid srv req) srv
       in case fst r of
         Some e \<Rightarrow> (Inl (ResourceExhausted (''queue full: '' @ sched_error_text e)), snd r)
       | None \<Rightarrow> (Inr (take 8 uuid, ''QUEUED''), srv_log now (take 8 uuid) ''INFO'' msg (snd r)))"
      using SubmitJob_eq [OF False, of now uuid req] assms by auto
    then show ?thesis using f by (auto simp: Let_def split: option.splits)
  qed
  then show "srv_eval srv' = srv_eval srv" "srv_cb srv' = srv_cb srv" "srv_tracker srv' = srv_tracker srv"
    "srv_timers srv' = srv_timers srv" "srv_cfg srv' = srv_cfg srv" by simp_all
qed

lemma suits_noidx:
  assumes "noidx j = noidx k"
  shows "suits env now cb m j = suits env now cb m k" "canDispatchResources gt m j = canDispatchResources gt m k"
  unfolding suits_def canDispatchResources_def noidx_eqD [OF assms] by (rule refl)+

lemma job_texts_noidx: "noidx j = noidx k \<Longrightarrow> job_texts_ok j = job_texts_ok k"
  by (simp add: job_texts_ok_def job_env_def noidx_eqD [of j k])

text \<open>After the tick the accepted job is the running one, and the message is that of its dispatch.\<close>

definition queued_submission :: "Time \<Rightarrow> string \<Rightarrow> 'prg schedulerServer \<Rightarrow> SubmitJobRequest \<Rightarrow> Job" where
  "queued_submission now uuid srv req = (submission now uuid srv req)\<lparr>State := StateQueued\<rparr>"

lemma queued_submission_sel:
  "suits env now cb m (queued_submission t uuid srv req) = suits env now cb m (submission t uuid srv req)"
  "canDispatchResources gt m (queued_submission t uuid srv req) = canDispatchResources gt m (submission t uuid srv req)"
  "job_texts_ok (queued_submission t uuid srv req) = job_texts_ok (submission t uuid srv req)"
  "GroupID (queued_submission t uuid srv req) = []" "RetryCount (queued_submission t uuid srv req) = 0"
  "ID (queued_submission t uuid srv req) = take 8 uuid" "Command (queued_submission t uuid srv req) = sjCommand req"
  "WalltimeSeconds (queued_submission t uuid srv req) = sint (sjWalltimeSeconds req)"
  "MaxRetries (queued_submission t uuid srv req) = cfgMaxRetries (srv_cfg srv)"
  by (simp_all add: queued_submission_def suits_def canDispatchResources_def job_texts_ok_def job_env_def)
    (simp_all add: submission_def zero_job_def)

lemma submission_dispatched:
  assumes inv: "gs_inv (srv_queue srv)" and c: "cache_ok env (srv_eval srv)" and fresh: "jobs (srv_queue srv) (take 8 uuid) = None"
    and sub: "SubmitJob t0 uuid srv req = (Inr (jid, status), srv1)"
    and head: "map_option ID (Peek (srv_queue srv1)) = Some jid" "PendingGroups order (srv_queue srv1) = []"
    and m: "m \<in> set members" "suits env t1 (srv_cb srv) m (submission t0 uuid srv req)"
      "canDispatchResources (srv_tracker srv) m (submission t0 uuid srv req)"
    and names: "\<forall>m\<in>set members. Name m \<noteq> []"
  obtains n j s srv2 where "srv2 = dispatchJob t1 members s j n" "dispatch_tick env t1 members order srv1 = Some srv2"
    "n \<in> Name ` set members" "noidx j = noidx (queued_submission t0 uuid srv req)" "gs_inv (srv_queue srv2)"
    "waiting (srv_queue srv2) = waiting (srv_queue srv)" "srv_timers srv2 = srv_timers srv"
    "srv_tracker srv2 = Allocate (srv_tracker srv) n (GPUsRequired j) (CPUsRequired j) (MemoryRequiredMB j)"
    "srv_pending srv2 jid \<noteq> None"
    "table (srv_queue srv2) jid = Some ((noidx j)\<lparr>State := StateRunning, WorkerNode := n, StartTime := t1\<rparr>)"
proof -
  let ?j = "queued_submission t0 uuid srv req"
  note f = SubmitJob_frame [OF sub]
  have t: "table (srv_queue srv1) jid = Some (noidx ?j)" and jid: "jid = take 8 uuid"
    using SubmitJob_accepted [OF inv fresh sub] by (simp_all add: queued_submission_def)
  have inv1: "gs_inv (srv_queue srv1)" using qsteps_inv [OF SubmitJob_steps [OF fresh] inv, of t0 req] sub by simp
  have w1: "waiting (srv_queue srv1) = add_mset jid (waiting (srv_queue srv))" by (rule SubmitJob_accepted(3) [OF inv fresh sub])
  obtain jh where jh: "Peek (srv_queue srv1) = Some jh" "ID jh = jid" using head(1) by auto
  have nj: "noidx jh = noidx ?j" using Peek_table [OF inv1 jh(1)] t jh(2) by simp
  have su: "suits env t1 (srv_cb srv1) m jh" "canDispatchResources (srv_tracker srv1) m jh" "GroupID jh = []"
    using m(2,3) f(2,3) noidx_eqD(14) [OF nj] by (simp_all add: suits_noidx [OF nj] queued_submission_sel)
  obtain n j s1 q where d: "dispatch_tick env t1 members order srv1 = Some (dispatchJob t1 members (s1\<lparr>srv_queue := q\<rparr>) j n)"
    "core_eq srv1 s1" "n \<in> Name ` set members" "noidx jh = noidx j" "gs_inv q" "table q = table (srv_queue srv1)"
    "waiting (srv_queue srv1) = add_mset (ID j) (waiting q)" "ID j \<notin># waiting q"
    using tick_dispatches_head [OF inv1 _ head(2) jh(1) su(3) m(1) su(1,2) names] c f(1) by metis
  have id: "ID j = jid" using noidx_eqD(1) [OF d(4)] jh(2) by simp
  have tq: "table q (ID j) = Some (noidx j)" using d(4,6) t nj id by simp
  note mr = MarkRunning_spec [OF d(5) tq d(8) refl, of t1 n]
  note ce = core_eq_sel [OF d(2)]
  show thesis
    by (rule that [OF refl d(1,3)]) (use d(4,7) nj mr id w1 ce f in simp_all)
qed

lemma GetJobStatus_table:
  assumes "gs_inv (srv_queue srv)" "table (srv_queue srv) jid = Some (noidx j)"
  shows "GetJobStatus srv jid = status_of j"
proof -
  obtain k where "GetJob (srv_queue srv) jid = (Some k, True)" "noidx j = noidx k"
    using GetJob_table [OF assms(1), of jid] assms(2) by auto
  then show ?thesis by (simp add: GetJobStatus_def status_of_def noidx_eqD [of j k])
qed

text \<open>The report of a run of a single job's first attempt, at the master that dispatched it.\<close>

lemma run_result:
  fixes t3 t4 t5 :: Time and ok :: bool and execErr :: "string option" and out :: string
  assumes inv: "gs_inv (srv_queue s)" and t: "table (srv_queue s) (ID j) = Some ((noidx j)\<lparr>State := StateRunning, WorkerNode := n, StartTime := t1\<rparr>)"
    and q: "runs_job q j" "WalltimeSeconds j = sint (x :: 32 word)" and j: "GroupID j = []" "RetryCount j = 0" and n: "n \<noteq> []"
    and tr: "counters_ok gt" "srv_tracker s = Allocate gt n (GPUsRequired j) (CPUsRequired j) (MemoryRequiredMB j)"
  defines "srv4 \<equiv> ReportResult t5 ok s (ReportResultRequest.truncate (run_report n q t3 t4 (job_context t3 q) execErr out))"
  shows "GetJobStatus srv4 (ID j) = status_of (j\<lparr>State := (if execErr = None then StateCompleted else StateFailed), WorkerNode := n,
      StartTime := t1, EndTime := t5, Output := out, Error := outcome_text (sint x) t3 t4 execErr\<rparr>)"
    "srv_pending srv4 = srv_pending s" "same_use gt (srv_tracker srv4)" "waiting (srv_queue srv4) = waiting (srv_queue s)"
    "srv_timers srv4 = srv_timers s @ (if execErr \<noteq> None \<and> 0 < MaxRetries j then [(t5 + 10 * Second, ID j)] else [])"
proof -
  let ?e = "outcome_text (sint x) t3 t4 execErr" and ?req = "ReportResultRequest.truncate (run_report n q t3 t4 (job_context t3 q) execErr out)"
  let ?k = "j\<lparr>State := StateRunning, WorkerNode := n, StartTime := t1\<rparr>"
  have rq: "rrJobId ?req = ID j" "rrSuccess ?req = (execErr = None)" "rrOutput ?req = out" "rrError ?req = ?e"
    using q error_message_outcome [of q x t4 t3 execErr]
    by (simp_all add: run_report_def ReportResultRequest.truncate_def runs_job_def)
  have k: "table (srv_queue s) (rrJobId ?req) = Some (noidx ?k)" "GroupID (noidx ?k) = []" using t rq(1) j(1) by (simp_all add: noidx_def)
  note rep = report_single [OF inv k, of t5 ok, folded srv4_def, unfolded rq]
  let ?f = "finished t5 (execErr = None) out ?e ?k"
  have f: "noidx ?f = finished t5 (execErr = None) out ?e (noidx ?k)" "StateRunning \<noteq> StateCancelled" by (simp_all add: finished_def noidx_def state_defs)
  have "GetJobStatus srv4 (ID j) = status_of ?f" by (rule GetJobStatus_table [OF rep(1)]) (simp add: rep(2) f(1))
  then show "GetJobStatus srv4 (ID j) = status_of (j\<lparr>State := (if execErr = None then StateCompleted else StateFailed), WorkerNode := n,
      StartTime := t1, EndTime := t5, Output := out, Error := ?e\<rparr>)" using f(2) by (simp add: finished_def status_of_def)
  show "same_use gt (srv_tracker srv4)"
    using rep(5) n release_undoes_allocate [OF tr(1), of n "GPUsRequired j" "CPUsRequired j" "MemoryRequiredMB j"] tr(2) by (simp add: noidx_def)
  have "retry_backoff 1 = 10 * Second" using retry_backoff_exact [of 1] by simp
  then show "srv_timers srv4 = srv_timers s @ (if execErr \<noteq> None \<and> 0 < MaxRetries j then [(t5 + 10 * Second, ID j)] else [])"
    using rep(6) j(2) by (auto simp: noidx_def in_i64_def Second_def)
  show "srv_pending srv4 = srv_pending s" "waiting (srv_queue srv4) = waiting (srv_queue s)" using rep by simp_all
qed

text \<open>
  C3. From submission to result. Suppose a submission is accepted and its job is at the head
  of the queue, no gang is pending, and some member suits the job and has the resources.
  Then the next tick publishes the job's message for one member: every other worker ignores
  it, and that worker runs the command, acknowledges it and, when the command ends, reports
  it. After the report a client that asks for the job reads the command's output, its worker
  and its outcome (the wall-time error when the command was cut off), the master waits for no
  acknowledgement, the resources in use are those from before the submission, the queue is
  as before, and exactly a failure with retries allowed has started a timer of ten seconds.
\<close>

theorem job_lifecycle:
  assumes inv: "gs_inv (srv_queue srv)" and c: "cache_ok env (srv_eval srv)" and counters: "counters_ok (srv_tracker srv)"
    and fresh: "jobs (srv_queue srv) (take 8 uuid) = None" "uuid \<noteq> []"
    and sub: "SubmitJob t0 uuid srv req = (Inr (jid, status), srv1)"
    and head: "map_option ID (Peek (srv_queue srv1)) = Some jid" "PendingGroups order (srv_queue srv1) = []"
    and m: "m \<in> set members" "suits env t1 (srv_cb srv) m (submission t0 uuid srv req)"
      "canDispatchResources (srv_tracker srv) m (submission t0 uuid srv req)"
    and texts: "job_texts_ok (submission t0 uuid srv req)" "\<forall>m\<in>set members. Name m \<noteq> [] \<and> utf8_ok (Name m)"
  shows "\<exists>srv2 n. dispatch_tick env t1 members order srv1 = Some srv2 \<and> n \<in> Name ` set members \<and>
    (let msg = Marshal_payload (last (srv_sent srv2)); srv3 = snd (acknowledge_start ''POST'' (ack_body jid) srv2) in
     (\<forall>w. wkName w \<noteq> n \<longrightarrow> receive t2 msg w = w) \<and>
     (\<forall>w. wkName w = n \<longrightarrow> (\<exists>r. executed t2 t3 t4 execErr out msg w = Reporting r \<and>
        (let srv4 = ReportResult t5 ok srv3 (ReportResultRequest.truncate r); st = GetJobStatus srv4 jid in
          stState st = (if execErr = None then StateCompleted else StateFailed) \<and> stCommand st = sjCommand req \<and>
          stWorkerNode st = n \<and> stOutput st = out \<and>
          stError st = outcome_text (sint (sjWalltimeSeconds req)) t3 t4 execErr \<and>
          srv_pending srv4 jid = None \<and> same_use (srv_tracker srv) (srv_tracker srv4) \<and>
          waiting (srv_queue srv4) = waiting (srv_queue srv) \<and>
          srv_timers srv4 = srv_timers srv @
            (if execErr \<noteq> None \<and> 0 < cfgMaxRetries (srv_cfg srv) then [(t5 + 10 * Second, jid)] else [])))))"
proof -
  let ?j = "queued_submission t0 uuid srv req"
  have names: "\<forall>m\<in>set members. Name m \<noteq> []" using texts(2) by simp
  obtain n j s srv2 where d: "srv2 = dispatchJob t1 members s j n" "dispatch_tick env t1 members order srv1 = Some srv2"
    "n \<in> Name ` set members" "noidx j = noidx ?j" "gs_inv (srv_queue srv2)"
    "waiting (srv_queue srv2) = waiting (srv_queue srv)" "srv_timers srv2 = srv_timers srv"
    "srv_tracker srv2 = Allocate (srv_tracker srv) n (GPUsRequired j) (CPUsRequired j) (MemoryRequiredMB j)"
    "srv_pending srv2 jid \<noteq> None"
    "table (srv_queue srv2) jid = Some ((noidx j)\<lparr>State := StateRunning, WorkerNode := n, StartTime := t1\<rparr>)"
    by (rule submission_dispatched [OF inv c fresh(1) sub head m names])
  have n: "n \<noteq> []" "utf8_ok n" using d(3) texts(2) by auto
  have jid: "jid = take 8 uuid" by (rule SubmitJob_accepted(1) [OF inv fresh(1) sub])
  have tj: "job_texts_ok j" using texts(1) job_texts_noidx [OF d(4)] by (simp add: queued_submission_sel)
  have sel: "ID j = jid" "Command j = sjCommand req" "WalltimeSeconds j = sint (sjWalltimeSeconds req)" "GroupID j = []"
    "RetryCount j = 0" "MaxRetries j = cfgMaxRetries (srv_cfg srv)"
    using noidx_eqD [OF d(4)] jid by (simp_all add: queued_submission_sel)
  let ?msg = "Marshal_payload (last (srv_sent srv2))"
  obtain q where q: "runs_job q j"
    "\<And>w. receive t2 ?msg w = (if n \<noteq> wkName w then w else w\<lparr>wkRuns := wkRuns w @ [\<lparr>runPayload = q, runPhase = Acknowledging\<rparr>]\<rparr>)"
    using dispatched_message [OF tj n(2), of t1 members s, folded d(1)] by blast
  have ack: "snd (acknowledge_start ''POST'' (ack_body jid) srv2) = srv2\<lparr>srv_pending := (srv_pending srv2)(jid := None)\<rparr>"
    using acknowledge_body(1) [of jid srv2] d(9) tj fresh(2) sel(1) jid by (auto simp: job_texts_ok_def)
  let ?s3 = "srv2\<lparr>srv_pending := (srv_pending srv2)(jid := None)\<rparr>"
  have "gs_inv (srv_queue ?s3)" "table (srv_queue ?s3) (ID j) = Some ((noidx j)\<lparr>State := StateRunning, WorkerNode := n, StartTime := t1\<rparr>)"
    "srv_tracker ?s3 = Allocate (srv_tracker srv) n (GPUsRequired j) (CPUsRequired j) (MemoryRequiredMB j)"
    using d sel(1) by simp_all
  note rr = run_result [OF this(1,2) q(1) sel(3-5) n(1) counters this(3), unfolded sel(1,6), of t5 ok t3 t4 execErr out]
  show ?thesis
    unfolding Let_def using d(2,3,6,7) rr sel(2) q(2) executed_run
    by (intro exI [of _ srv2] exI [of _ n]) (simp add: status_of_def ack)
qed

lemma Peek_single:
  assumes "gs_inv gs" "waiting gs = {#jid#}"
  shows "map_option ID (Peek gs) = Some jid"
proof -
  obtain r q where d: "Dequeue gs = (r, q)" by fastforce
  obtain j where j: "waiting gs = add_mset (ID j) (waiting q)" "map_option noidx (Peek gs) = Some (noidx j)"
    using Dequeue_spec [OF assms(1) _ d] assms(2) by auto
  then have "ID j = jid" using assms(2) by simp
  moreover obtain p where "Peek gs = Some p" "noidx p = noidx j" using j(2) by auto
  ultimately show ?thesis using noidx_eqD(1) [of p j] by simp
qed

lemma ex_submission:
  "suits ex_env t newCircuitBreaker (ex_member n) (submission t0 uuid srv ex_request)"
  "canDispatchResources newGPUTracker (ex_member n) (submission t0 uuid srv ex_request)"
  "utf8_ok (take 8 uuid) \<Longrightarrow> job_texts_ok (submission t0 uuid srv ex_request)"
proof -
  have "parseCELRequirement ''true'' = (0, 0)" by code_simp
  then show "canDispatchResources newGPUTracker (ex_member n) (submission t0 uuid srv ex_request)"
    by (simp add: canDispatchResources_def Let_def submission_def ex_request_def)
  show "suits ex_env t newCircuitBreaker (ex_member n) (submission t0 uuid srv ex_request)"
    using ex_matches ex_not_blocked by (simp add: suits_def submission_def ex_request_def)
  show "utf8_ok (take 8 uuid) \<Longrightarrow> job_texts_ok (submission t0 uuid srv ex_request)"
    by (simp add: job_texts_ok_def submission_def ex_request_def job_env_def zero_job_def texts_ok_def plain_names_def in_i64_def ascii_ok)
qed

theorem job_lifecycle_witness:
  "\<exists>srv2 n r. dispatch_tick ex_env 6 ex_members [] ex_master = Some srv2 \<and>
     executed 7 8 9 None ''done'' (Marshal_payload (last (srv_sent srv2))) (new_worker n) = Reporting r \<and>
     stState (GetJobStatus (ReportResult 10 True (snd (acknowledge_start ''POST'' (ack_body ''abcdefgh'') srv2))
       (ReportResultRequest.truncate r)) ''abcdefgh'') = StateCompleted"
proof -
  have inv: "gs_inv (srv_queue ex_started)" using master_reach_queue [OF ex_started_sel(3)] reach_inv by blast
  have q: "jobs (srv_queue ex_started) (take 8 ''abcdefgh-1'') = None" "waiting (srv_queue ex_started) = {#}"
    by (simp_all add: ex_started_sel New_empty waiting_def NewGlobalScheduler_eq)
  note r = ex_master_accepted
  have s: "srv_eval ex_started = NewEvaluator" "srv_tracker ex_started = newGPUTracker" "srv_cb ex_started = newCircuitBreaker"
    by (simp_all add: ex_started_def StartMaster_def Let_def split: prod.split)
  have h: "map_option ID (Peek (srv_queue ex_master)) = Some ''abcdefgh''" "PendingGroups [] (srv_queue ex_master) = []"
    using Peek_single [OF _ SubmitJob_accepted(3) [OF inv q(1) r, unfolded q(2)]] qsteps_inv [OF SubmitJob_steps [OF q(1)] inv, of 5 ex_request]
    by (simp_all add: ex_master_def PendingGroups_def)
  have o: "cache_ok ex_env (srv_eval ex_started)" "counters_ok (srv_tracker ex_started)"
    by (simp_all add: s cache_ok_new counters_ok_def newGPUTracker_def used_defs)
  have m: "ex_member ''1'' \<in> set ex_members" "\<forall>m\<in>set ex_members. Name m \<noteq> [] \<and> utf8_ok (Name m)"
    by (simp_all add: ex_members_def ascii_ok)
  have u: "utf8_ok (take 8 ''abcdefgh-1'')" by (simp add: ascii_ok)
  have suit: "suits ex_env 6 (srv_cb ex_started) (ex_member ''1'') (submission 5 ''abcdefgh-1'' ex_started ex_request)"
    "canDispatchResources (srv_tracker ex_started) (ex_member ''1'') (submission 5 ''abcdefgh-1'' ex_started ex_request)"
    unfolding s by (rule ex_submission)+
  have ne: "''abcdefgh-1'' \<noteq> []" by simp
  note l = job_lifecycle [OF inv o(1,2) q(1) ne r h m(1) suit ex_submission(3) [OF u] m(2), of 7 8 9 None "''done''" 10 True, unfolded Let_def]
  obtain srv2 n where t: "dispatch_tick ex_env 6 ex_members [] ex_master = Some srv2"
    and w: "\<forall>w. wkName w = n \<longrightarrow> (\<exists>r. executed 7 8 9 None ''done'' (Marshal_payload (last (srv_sent srv2))) w = Reporting r \<and>
      stState (GetJobStatus (ReportResult 10 True (snd (acknowledge_start ''POST'' (ack_body ''abcdefgh'') srv2))
        (ReportResultRequest.truncate r)) ''abcdefgh'') = StateCompleted)"
    using l unfolding if_P [OF refl] by blast
  have "wkName (new_worker n) = n" by (simp add: new_worker_def)
  then show ?thesis using t w by blast
qed

end
