(* ===== verification/Gang.thy ===== *)
theory Gang
  imports Lifecycle
begin

text \<open>
  The whole way of a distributed job: the ranks and the group an accepted submission makes,
  the members a tick finds for them, and the environment in which each rank runs.
\<close>

subsection \<open>The submission\<close>

text \<open>The parameters of a distributed submission with their defaults, its ranks and its group.\<close>

definition gang_size :: "SubmitDistributedJobRequest \<Rightarrow> int" where
  "gang_size req = (if sint (sdNumNodes req) < 1 then 1 else sint (sdNumNodes req))"

definition gang_user :: "SubmitDistributedJobRequest \<Rightarrow> string" where
  "gang_user req = (if sdUser req = [] then ''anonymous'' else sdUser req)"

definition gang_port :: "SubmitDistributedJobRequest \<Rightarrow> int" where
  "gang_port req = (if sint (sdMasterPort req) = 0 then 29500 else sint (sdMasterPort req))"

definition gang_priority :: "SubmitDistributedJobRequest \<Rightarrow> int" where
  "gang_priority req = (if sint (sdPriority req) = 0 then 10 else sint (sdPriority req))"

definition gang_id :: "string \<Rightarrow> string" where
  "gang_id uuid = ''dj-'' @ take 8 uuid"

definition gang_rank :: "Time \<Rightarrow> string \<Rightarrow> SubmitDistributedJobRequest \<Rightarrow> nat \<Rightarrow> Job" where
  "gang_rank now uuid req =
     rank_job now (gang_id uuid) (gang_size req) (gang_port req) (sint (sdGpusPerNode req)) (gang_priority req) (gang_user req) req"

definition gang_group :: "Time \<Rightarrow> string \<Rightarrow> SubmitDistributedJobRequest \<Rightarrow> JobGroup" where
  "gang_group now uuid req =
     \<lparr>gGroupID = gang_id uuid, gJobIDs = map (rank_id (gang_id uuid)) [0..<nat (gang_size req)], gNumNodes = gang_size req,
      gGPUsPerNode = sint (sdGpusPerNode req), gMasterPort = gang_port req, gState = ''PENDING'', gCreatedAt = now\<rparr>"

lemma gang_size_bounds: "1 \<le> gang_size req" "nat (gang_size req) \<le> nat (2 ^ 31)"
  using sint_range_size [of "sdNumNodes req"] by (auto simp: gang_size_def word_size)

lemma gang_rank_sel [simp]:
  "ID (gang_rank now uuid req i) = rank_id (gang_id uuid) i" "User (gang_rank now uuid req i) = gang_user req"
  "Command (gang_rank now uuid req i) = sdCommand req" "Requirement (gang_rank now uuid req i) = sdCelRequirement req"
  "GPUsRequired (gang_rank now uuid req i) = sint (sdGpusPerNode req)"
  "CPUsRequired (gang_rank now uuid req i) = fst (parseCELRequirement (sdCelRequirement req))"
  "MemoryRequiredMB (gang_rank now uuid req i) = snd (parseCELRequirement (sdCelRequirement req))"
  "EnvVars (gang_rank now uuid req i) =
     Some (rank_env (int i) (gang_size req) (gang_port req) (sint (sdGpusPerNode req)) (sdEnvVars req))"
  by (simp_all add: gang_rank_def rank_job_def split: prod.split)

lemma SubmitDistributedJob_draining:
  "srv_draining srv \<Longrightarrow> SubmitDistributedJob now uuid srv req = (Inl (Unavailable ''master is draining''), srv)"
  by (simp add: SubmitDistributedJob_def)

lemma SubmitDistributedJob_eq:
  assumes "\<not> srv_draining srv"
  shows "SubmitDistributedJob now uuid srv req =
    (case submit_ranks now (gang_id uuid) (gang_size req) (gang_rank now uuid req) [0..<nat (gang_size req)] [] srv of
       (Inl e, srv1) \<Rightarrow> (Inl (ResourceExhausted (''queue full: '' @ sched_error_text e)), srv1)
     | (Inr jobIDs, srv1) \<Rightarrow>
         (Inr (gang_id uuid, jobIDs, ''QUEUED''),
          srv1\<lparr>srv_queue := RegisterGroup (srv_queue srv1) ((gang_group now uuid req)\<lparr>gJobIDs := jobIDs\<rparr>)\<rparr>))"
  unfolding SubmitDistributedJob_def Let_def if_not_P [OF assms] gang_rank_def gang_group_def gang_id_def gang_size_def gang_user_def
    gang_port_def gang_priority_def JobGroup.update_convs by (rule refl)

lemma submit_ranks_table:
  assumes "gs_inv (srv_queue srv)" "distinct (map (\<lambda>r. ID (mk r)) ranks)" "\<forall>r\<in>set ranks. jobs (srv_queue srv) (ID (mk r)) = None"
    "submit_ranks now gid n mk ranks ids srv = (Inr ids', srv')"
  shows "ids' = ids @ map (\<lambda>r. ID (mk r)) ranks \<and> gs_inv (srv_queue srv') \<and> groups (srv_queue srv') = groups (srv_queue srv) \<and>
    (\<forall>r\<in>set ranks. table (srv_queue srv') (ID (mk r)) = Some (noidx ((mk r)\<lparr>State := StateQueued\<rparr>))) \<and>
    (\<forall>jid. jid \<notin> set (map (\<lambda>r. ID (mk r)) ranks) \<longrightarrow> table (srv_queue srv') jid = table (srv_queue srv) jid) \<and>
    srv_eval srv' = srv_eval srv \<and> srv_cb srv' = srv_cb srv \<and> srv_tracker srv' = srv_tracker srv \<and> srv_sent srv' = srv_sent srv"
  using assms
proof (induction ranks arbitrary: srv ids)
  case (Cons i ranks)
  obtain e s1 where s1: "submit_job (mk i) srv = (e, s1)" by fastforce
  have q1: "srv_queue s1 = exec (OpEnqueue (mk i)) (srv_queue srv)" using submit_job_exec [of "mk i" srv] s1 by simp
  have fresh: "jobs (srv_queue srv) (ID (mk i)) = None" using Cons.prems(3) by simp
  have e: "e = None" using Cons.prems(4) s1 by (cases e) auto
  have f1: "srv_eval s1 = srv_eval srv" "srv_cb s1 = srv_cb srv" "srv_tracker s1 = srv_tracker srv" "srv_sent s1 = srv_sent srv"
    using s1 by (auto simp: submit_job_def Let_def split: sum.splits prod.splits)
  have room: "\<not> (0 < MaxQueueSize (srv_queue srv) \<and> MaxQueueSize (srv_queue srv) \<le> int (size (waiting (srv_queue srv))))"
    using submit_full(1) [OF _ Cons.prems(1), of "mk i"] s1 e by auto
  note sp = exec_Enqueue_spec(1,4) [OF Cons.prems(1) fresh room, folded q1]
  have inv1: "gs_inv (srv_queue s1)" unfolding q1 using exec_inv [OF Cons.prems(1)] fresh by (simp del: exec.simps)
  have fr: "\<forall>k\<in>set ranks. jobs (srv_queue s1) (ID (mk k)) = None" unfolding q1 by (rule rank_fresh [OF Cons.prems(1-3)])
  obtain msg where "submit_ranks now gid n mk ranks (ids @ [ID (mk i)]) (srv_log now (ID (mk i)) ''INFO'' msg s1) = (Inr ids', srv')"
    using Cons.prems(4) s1 e by simp
  note ih = Cons.IH [OF _ _ _ this, unfolded srv_log_sel, OF inv1 _ fr]
  show ?case using ih Cons.prems(2) sp f1 by auto
qed simp

text \<open>What an accepted submission leaves.\<close>

lemma gang_accepted:
  assumes inv: "gs_inv (srv_queue srv)" and fresh: "\<forall>rank. jobs (srv_queue srv) (rank_id (gang_id uuid) rank) = None"
    and r: "SubmitDistributedJob now uuid srv req = (Inr (gid, ids, st), srv')"
  shows "gid = gang_id uuid" "ids = gJobIDs (gang_group now uuid req)" "gs_inv (srv_queue srv')"
    "groups (srv_queue srv') = (groups (srv_queue srv))(gang_id uuid \<mapsto> gang_group now uuid req)"
    "\<And>i. i < nat (gang_size req) \<Longrightarrow> table (srv_queue srv') (rank_id (gang_id uuid) i) =
       Some (noidx ((gang_rank now uuid req i)\<lparr>State := StateQueued\<rparr>))"
    "srv_eval srv' = srv_eval srv" "srv_cb srv' = srv_cb srv" "srv_tracker srv' = srv_tracker srv" "srv_sent srv' = srv_sent srv"
proof -
  have live: "\<not> srv_draining srv" using r SubmitDistributedJob_draining [of srv now uuid req] by auto
  obtain s1 where s1: "submit_ranks now (gang_id uuid) (gang_size req) (gang_rank now uuid req) [0..<nat (gang_size req)] [] srv = (Inr ids, s1)"
    "gid = gang_id uuid" "srv' = s1\<lparr>srv_queue := RegisterGroup (srv_queue s1) ((gang_group now uuid req)\<lparr>gJobIDs := ids\<rparr>)\<rparr>"
    using r unfolding SubmitDistributedJob_eq [OF live] by (auto split: prod.splits sum.splits)
  have d: "distinct (map (\<lambda>i. ID (gang_rank now uuid req i)) [0..<nat (gang_size req)])"
    using rank_ids_distinct [OF gang_size_bounds(2)] by simp
  note t = submit_ranks_table [OF inv d _ s1(1)]
  have ids: "ids = gJobIDs (gang_group now uuid req)" using t fresh by (simp add: gang_group_def)
  show "gid = gang_id uuid" "ids = gJobIDs (gang_group now uuid req)" using s1(2) ids by simp_all
  have g: "(gang_group now uuid req)\<lparr>gJobIDs := ids\<rparr> = gang_group now uuid req" unfolding ids by simp
  show "gs_inv (srv_queue srv')" using t fresh unfolding s1(3) by (simp add: RegisterGroup_def)
  show "groups (srv_queue srv') = (groups (srv_queue srv))(gang_id uuid \<mapsto> gang_group now uuid req)"
    using t fresh unfolding s1(3) g by (simp add: RegisterGroup_def) (simp add: gang_group_def)
  show "table (srv_queue srv') (rank_id (gang_id uuid) i) = Some (noidx ((gang_rank now uuid req i)\<lparr>State := StateQueued\<rparr>))"
    if "i < nat (gang_size req)" for i using t fresh that unfolding s1(3) by (simp add: RegisterGroup_def)
  show "srv_eval srv' = srv_eval srv" "srv_cb srv' = srv_cb srv" "srv_tracker srv' = srv_tracker srv" "srv_sent srv' = srv_sent srv"
    using t fresh unfolding s1(3) by simp_all
qed

subsection \<open>Members for the ranks\<close>

lemma match_rank_found:
  assumes "settled env now cb0 srv" "m \<in> set ms" "Name m \<notin> set used" "suits env now cb0 m job" "canDispatchResources (srv_tracker srv) m job"
  shows "fst (match_rank env now used ms srv job) \<noteq> None"
  using assms
proof (induction ms arbitrary: srv)
  case (Cons n ms)
  obtain ok s1 where t: "try_member env now srv n job = (ok, s1)" by fastforce
  note s = try_member_spec [OF t Cons.prems(1)]
  show ?case
  proof (cases "Name n \<in> set used \<or> \<not> ok")
    case True
    then have "n \<noteq> m" using Cons.prems(3) t try_member_suits [OF Cons.prems(1,4,5)] by auto
    then show ?thesis using Cons.IH [OF Cons.prems(1)] Cons.IH [OF s(2)] Cons.prems True t core_eq_sel(3) [OF s(1)] by auto
  qed (use t in auto)
qed simp

lemma one_member_less:
  assumes "distinct (map Name ms)"
  shows "length (filter (\<lambda>m. P m \<and> Name m \<notin> set used) ms) \<le> Suc (length (filter (\<lambda>m. P m \<and> Name m \<notin> set (x # used)) ms))"
proof -
  let ?A = "{m \<in> set ms. P m \<and> Name m \<notin> set used}" and ?B = "{m \<in> set ms. P m \<and> Name m \<notin> set (x # used)}"
  have d: "distinct ms" using assms distinct_map by blast
  have "?A \<subseteq> ?B \<union> {m \<in> set ms. Name m = x}" by auto
  then have "card ?A \<le> card ?B + card {m \<in> set ms. Name m = x}"
    by (intro order_trans [OF card_mono card_Un_le]) auto
  moreover have "card {m \<in> set ms. Name m = x} \<le> 1"
  proof (rule card_le_Suc0_iff_eq [THEN iffD2, unfolded One_nat_def [symmetric]])
    show "\<forall>a\<in>{m \<in> set ms. Name m = x}. \<forall>b\<in>{m \<in> set ms. Name m = x}. a = b"
      using assms by (auto simp: distinct_map inj_on_def)
  qed simp
  ultimately show ?thesis using d by (simp add: distinct_card [symmetric])
qed

lemma match_group_found:
  assumes "distinct (map Name members)" "settled env now cb0 srv"
    "\<And>j m. j \<in> set js \<Longrightarrow> good m \<Longrightarrow> suits env now cb0 m j \<and> canDispatchResources (srv_tracker srv) m j"
    "length js \<le> length (filter (\<lambda>m. good m \<and> Name m \<notin> set used) members)"
  shows "fst (match_group env now members used acc srv js) \<noteq> None"
  using assms(2-4)
proof (induction js arbitrary: srv used acc)
  case (Cons j js)
  have "filter (\<lambda>m. good m \<and> Name m \<notin> set used) members \<noteq> []" using Cons.prems(3) by auto
  then obtain m where m: "m \<in> set members" "good m" "Name m \<notin> set used" by (auto simp: filter_empty_conv)
  obtain r s1 where r: "match_rank env now used members srv j = (r, s1)" by fastforce
  have "r \<noteq> None" using match_rank_found [OF Cons.prems(1) m(1,3), of j] Cons.prems(2) [of j m] m(2) r by simp
  then obtain mm where mm: "r = Some mm" by auto
  note s = match_rank_spec [OF r Cons.prems(1)]
  have "fst (match_group env now members (Name mm # used) (acc @ [mm]) s1 js) \<noteq> None"
  proof (rule Cons.IH)
    show "length js \<le> length (filter (\<lambda>m. good m \<and> Name m \<notin> set (Name mm # used)) members)"
      using one_member_less [OF assms(1), of good used "Name mm"] Cons.prems(3) by simp
    show "suits env now cb0 m j \<and> canDispatchResources (srv_tracker s1) m j" if "j \<in> set js" "good m" for j m
      using Cons.prems(2) that core_eq_sel(3) [of srv s1] s by simp
  qed (use s in blast)
  then show ?case using r mm by simp
qed simp

subsection \<open>The messages of a gang\<close>

definition rank_payload :: "Node list \<Rightarrow> string \<Rightarrow> Job \<times> Node \<Rightarrow> DispatchPayload" where
  "rank_payload members addr jm =
     (let job = fst jm; n = Name (snd jm); env0 = (job_env job)(''MASTER_ADDR'' \<mapsto> addr)
      in \<lparr>TargetNode = n, JobID = ID job, pCommand = Command job, pWalltimeSeconds = WalltimeSeconds job, Action = ''execute'',
          pEnvVars = Some (if 0 < GPUsRequired job then gpu_env (node_vendor n members) (GPUsRequired job) env0 else env0)\<rparr>)"

lemma dispatch_ranks_sent:
  "dispatch_ranks now members addr srv i jms = Some srv' \<Longrightarrow> srv_sent srv' = srv_sent srv @ map (rank_payload members addr) jms"
proof (induction jms arbitrary: srv i)
  case (Cons jm jms)
  obtain job m where jm: "jm = (job, m)" by fastforce
  obtain e where e: "EnvVars job = Some e" using Cons.prems jm by (auto split: option.splits)
  show ?case using Cons jm e by (fastforce simp: Let_def dispatchJob_def rank_payload_def job_env_def)
qed simp

lemma gang_queued_ranks:
  assumes inv: "gs_inv gs"
    and t: "\<And>i. i < nat (gang_size req) \<Longrightarrow> table gs (rank_id (gang_id uuid) i) = Some (noidx ((gang_rank now uuid req i)\<lparr>State := StateQueued\<rparr>))"
  shows "length (queued_ranks gs (gang_group now uuid req)) = nat (gang_size req)"
    "\<And>i. i < nat (gang_size req) \<Longrightarrow>
       noidx (queued_ranks gs (gang_group now uuid req) ! i) = noidx ((gang_rank now uuid req i)\<lparr>State := StateQueued\<rparr>)"
proof -
  let ?js = "queued_ranks gs (gang_group now uuid req)" and ?n = "nat (gang_size req)"
  have "\<forall>jid\<in>set (gJobIDs (gang_group now uuid req)). is_queued gs jid"
    using t by (auto simp: gang_group_def is_queued_def noidx_def)
  then have ids: "map ID ?js = map (rank_id (gang_id uuid)) [0..<?n]"
    unfolding queued_ranks_ids [OF inv] by (simp add: filter_id_conv) (simp add: gang_group_def)
  show len: "length ?js = ?n" using arg_cong [OF ids, of length] by simp
  show "noidx (?js ! i) = noidx ((gang_rank now uuid req i)\<lparr>State := StateQueued\<rparr>)" if i: "i < ?n" for i
  proof -
    have "ID (?js ! i) = rank_id (gang_id uuid) i" using arg_cong [OF ids, of "\<lambda>xs. xs ! i"] i len by simp
    moreover have "?js ! i \<in> set ?js" using i len by simp
    ultimately show ?thesis using queued_ranks_job(1) [OF inv] t [OF i] by fastforce
  qed
qed

text \<open>The variables by which the processes of a gang find each other.\<close>

definition rendezvous :: "SubmitDistributedJobRequest \<Rightarrow> string \<Rightarrow> nat \<Rightarrow> DispatchPayload \<Rightarrow> bool" where
  "rendezvous req addr i p \<longleftrightarrow>
     env_of p ''RANK'' = Some (Itoa (int i)) \<and> env_of p ''WORLD_SIZE'' = Some (Itoa (gang_size req)) \<and>
     env_of p ''MASTER_ADDR'' = Some addr \<and> env_of p ''MASTER_PORT'' = Some (Itoa (gang_port req)) \<and>
     env_of p ''LOCAL_RANK'' = Some ''0'' \<and> env_of p ''NPROC_PER_NODE'' = Some (Itoa (sint (sdGpusPerNode req)))"

lemma rank_payload_rendezvous:
  assumes "noidx job = noidx ((gang_rank now uuid req i)\<lparr>State := StateQueued\<rparr>)"
  shows "rendezvous req addr i (rank_payload members addr (job, m))" "JobID (rank_payload members addr (job, m)) = rank_id (gang_id uuid) i"
    "pCommand (rank_payload members addr (job, m)) = sdCommand req" "TargetNode (rank_payload members addr (job, m)) = Name m"
proof -
  have j: "ID job = rank_id (gang_id uuid) i" "Command job = sdCommand req"
    "EnvVars job = Some (rank_env (int i) (gang_size req) (gang_port req) (sint (sdGpusPerNode req)) (sdEnvVars req))"
    using noidx_eqD [OF assms] by simp_all
  let ?e = "(rank_env (int i) (gang_size req) (gang_port req) (sint (sdGpusPerNode req)) (sdEnvVars req))(''MASTER_ADDR'' \<mapsto> addr)"
  have e: "env_of (rank_payload members addr (job, m)) k = Some v" if "?e k = Some v" for k v
    using that gpu_env_ok(3) [of ?e k v] by (auto simp: rank_payload_def Let_def env_of_def job_env_def j)
  show "rendezvous req addr i (rank_payload members addr (job, m))"
    unfolding rendezvous_def by (intro conjI e) (simp_all add: rank_env_def)
qed (use noidx_eqD [OF assms] in \<open>simp_all add: rank_payload_def Let_def\<close>)

lemma rank_suits:
  assumes "noidx j = noidx ((gang_rank now uuid req i)\<lparr>State := StateQueued\<rparr>)"
  shows "suits env t cb m j = suits env t cb m (gang_rank now uuid req 0)"
    "canDispatchResources gt m j = canDispatchResources gt m (gang_rank now uuid req 0)"
  using noidx_eqD [OF assms] by (simp_all add: suits_def canDispatchResources_def)

lemma single_phases_appends:
  assumes "gs_inv (srv_queue srv)" "cache_ok env (srv_eval srv)"
  shows "\<exists>rest. srv_sent (single_phases env now members srv) = srv_sent srv @ rest"
proof -
  have "tick_ok False env now members (srv_cb srv) (srv_queue srv) (srv_sent srv) (single_phases env now members srv)"
    by (rule single_phases_ok [OF tick_ok_start]) (use assms in \<open>auto simp: demands_def\<close>)
  then show ?thesis by (auto simp: tick_ok_def)
qed

text \<open>The tick of a single pending gang whose ranks have been given members.\<close>

lemma gang_tick:
  assumes inv: "gs_inv (srv_queue srv)" and c: "cache_ok env (srv_eval srv)" and pend: "PendingGroups order (srv_queue srv) = [g]"
    and time: "time_Sub now (gCreatedAt g) \<le> gangTimeout" and size: "int (length (queued_ranks (srv_queue srv) g)) = gNumNodes g"
    and m: "match_group env now members [] [] srv (queued_ranks (srv_queue srv) g) = (Some (m0 # ms), srv1)"
    and envs: "\<forall>j\<in>set (queued_ranks (srv_queue srv) g). EnvVars j \<noteq> None"
  shows "\<exists>srv2 rest. dispatch_tick env now members order srv = Some srv2 \<and>
    srv_sent srv2 = srv_sent srv @ map (rank_payload members (Addr m0)) (zip (queued_ranks (srv_queue srv) g) (m0 # ms)) @ rest"
proof -
  let ?js = "queued_ranks (srv_queue srv) g"
  have set: "settled env now (srv_cb srv) srv" using c by (simp add: settled_def)
  obtain srv2 where d: "dispatch_ranks now members (Addr m0) srv1 0 (zip ?js (m0 # ms)) = Some srv2"
    using dispatch_ranks_total [of "zip ?js (m0 # ms)"] envs by (fastforce dest: set_zip_leftD)
  let ?s = "srv2\<lparr>srv_queue := SetGroupState (srv_queue srv2) (gGroupID g) ''RUNNING''\<rparr>"
  have "tryDispatchGroup env now members srv g = Some ?s" using size m d by (simp add: tryDispatchGroup_def)
  then have p: "gang_phase env now members srv (PendingGroups order (srv_queue srv)) = Some ?s" using time pend by simp
  have ok: "tick_ok False env now members (srv_cb srv) (srv_queue srv) (srv_sent srv) ?s"
    by (rule gang_phase_ok [OF tick_ok_start _ _ p]) (use inv c in \<open>auto simp: demands_def\<close>)
  obtain rest where rest: "srv_sent (single_phases env now members ?s) = srv_sent ?s @ rest"
    using single_phases_appends [of ?s env now members] ok by (auto simp: tick_ok_def settled_def)
  have "srv_sent ?s = srv_sent srv @ map (rank_payload members (Addr m0)) (zip ?js (m0 # ms))"
    using dispatch_ranks_sent [OF d] match_group_spec [OF m set] core_eq_sel(2) [of srv srv1] by simp
  then show ?thesis using p rest by (simp add: dispatch_tick_def)
qed

text \<open>
  C4. The launch of a gang. Suppose a distributed submission is accepted, its gang is the only
  pending one and not yet timed out, the members have different names, and at least as many
  of them as ranks suit the requirement and have the resources of a rank. Then the next tick
  sends each rank, in rank order, to a member of its own, with the command submitted and the
  variables of the rendezvous: its rank, the number of ranks, the port, the processes per
  node, and for all ranks the address of the member that runs rank 0, whatever the
  submitted environment says.
\<close>

theorem gang_launch:
  assumes inv: "gs_inv (srv_queue srv)" and c: "cache_ok env (srv_eval srv)"
    and fresh: "\<forall>rank. jobs (srv_queue srv) (rank_id (gang_id uuid) rank) = None"
    and sub: "SubmitDistributedJob t0 uuid srv req = (Inr (gid, ids, st), srv1)"
    and pend: "PendingGroups order (srv_queue srv1) = [gang_group t0 uuid req]" "time_Sub t1 t0 \<le> gangTimeout"
    and names: "distinct (map Name members)"
    and enough: "gang_size req \<le> int (length (filter (\<lambda>m. suits env t1 (srv_cb srv) m (gang_rank t0 uuid req 0) \<and>
      canDispatchResources (srv_tracker srv) m (gang_rank t0 uuid req 0)) members))"
  shows "\<exists>srv2 new rest m0. dispatch_tick env t1 members order srv1 = Some srv2 \<and> srv_sent srv2 = srv_sent srv @ new @ rest \<and>
    int (length new) = gang_size req \<and> distinct (map TargetNode new) \<and> set (map TargetNode new) \<subseteq> Name ` set members \<and>
    m0 \<in> set members \<and> TargetNode (new ! 0) = Name m0 \<and>
    (\<forall>i<length new. JobID (new ! i) = rank_id gid i \<and> pCommand (new ! i) = sdCommand req \<and> rendezvous req (Addr m0) i (new ! i))"
proof -
  note a = gang_accepted [OF inv fresh sub]
  let ?g = "gang_group t0 uuid req" and ?n = "nat (gang_size req)"
  let ?js = "queued_ranks (srv_queue srv1) ?g"
  note js = gang_queued_ranks [OF a(3) a(5)]
  have set1: "settled env t1 (srv_cb srv) srv1" using c a(6,7) by (simp add: settled_def)
  obtain mo s2 where m: "match_group env t1 members [] [] srv1 ?js = (mo, s2)" by fastforce
  let ?good = "\<lambda>m. suits env t1 (srv_cb srv) m (gang_rank t0 uuid req 0) \<and> canDispatchResources (srv_tracker srv) m (gang_rank t0 uuid req 0)"
  have rank: "\<exists>i<?n. noidx j = noidx ((gang_rank t0 uuid req i)\<lparr>State := StateQueued\<rparr>)" if "j \<in> set ?js" for j
    using that js unfolding in_set_conv_nth by auto
  have good: "suits env t1 (srv_cb srv) m j \<and> canDispatchResources (srv_tracker srv1) m j" if "j \<in> set ?js" "?good m" for j m
    using rank [OF that(1)] rank_suits [of j] that(2) a(8) by metis
  have "mo \<noteq> None"
    using match_group_found [of members env t1 "srv_cb srv" srv1 ?js ?good "[]" "[]", OF names set1 good] m js(1) enough
    by (simp add: nat_le_iff)
  then obtain ms where ms: "mo = Some ms" by auto
  note g = match_group_spec [OF m set1, unfolded ms]
  have ms': "length ms = ?n" "set ms \<subseteq> set members" "distinct (map Name ms)" using g js(1) by auto
  obtain m0 ms0 where m0: "ms = m0 # ms0" using ms'(1) gang_size_bounds(1) [of req] by (cases ms) auto
  have sel: "gCreatedAt ?g = t0" "gNumNodes ?g = gang_size req" by (simp_all add: gang_group_def)
  have c1: "cache_ok env (srv_eval srv1)" using c a(6) by simp
  have size: "int (length ?js) = gNumNodes ?g" using js(1) gang_size_bounds(1) [of req] by (simp add: sel)
  have envs: "\<forall>j\<in>set ?js. EnvVars j \<noteq> None"
  proof
    fix j assume "j \<in> set ?js"
    then obtain i where "noidx j = noidx ((gang_rank t0 uuid req i)\<lparr>State := StateQueued\<rparr>)" using rank by blast
    from noidx_eqD(11) [OF this] show "EnvVars j \<noteq> None" by simp
  qed
  obtain srv2 rest where t: "dispatch_tick env t1 members order srv1 = Some srv2"
    "srv_sent srv2 = srv_sent srv1 @ map (rank_payload members (Addr m0)) (zip ?js ms) @ rest"
    using gang_tick [OF a(3) c1 pend(1) _ size m [unfolded ms m0] envs] pend(2) unfolding sel m0 by blast
  let ?new = "map (rank_payload members (Addr m0)) (zip ?js ms)"
  have new: "length ?new = ?n" "?new ! i = rank_payload members (Addr m0) (?js ! i, ms ! i)" if "i < ?n" for i
    using js(1) ms'(1) that by simp_all
  have tn: "map TargetNode ?new = map Name ms"
    using ms'(1) js(1) by (auto intro!: nth_equalityI simp: rank_payload_def Let_def)
  have nth: "JobID (?new ! i) = rank_id gid i \<and> pCommand (?new ! i) = sdCommand req \<and> rendezvous req (Addr m0) i (?new ! i)"
    if "i < length ?new" for i
    using rank_payload_rendezvous [OF js(2)] that new js(1) ms'(1) a(1) by simp
  have sent: "srv_sent srv2 = srv_sent srv @ ?new @ rest" using t(2) a(9) by simp
  have len: "int (length ?new) = gang_size req" using new(1) [of 0] gang_size_bounds(1) [of req] by simp
  have own: "distinct (map TargetNode ?new)" "set (map TargetNode ?new) \<subseteq> Name ` set members" unfolding tn using ms'(2,3) by auto
  have first: "m0 \<in> set members" "TargetNode (?new ! 0) = Name m0" using ms'(2) arg_cong [OF tn, of hd] m0 js(1) ms'(1) by (cases ?js; simp)+
  show ?thesis using t(1) sent len own first nth by blast
qed

lemma submit_ranks_unlimited:
  assumes "gs_inv (srv_queue srv)" "distinct (map (\<lambda>r. ID (mk r)) ranks)" "\<forall>r\<in>set ranks. jobs (srv_queue srv) (ID (mk r)) = None"
    "MaxQueueSize (srv_queue srv) \<le> 0"
  shows "\<exists>ids' srv'. submit_ranks now gid n mk ranks ids srv = (Inr ids', srv')"
  using assms
proof (induction ranks arbitrary: srv ids)
  case (Cons i ranks)
  obtain e s1 where s1: "submit_job (mk i) srv = (e, s1)" by fastforce
  have q1: "srv_queue s1 = exec (OpEnqueue (mk i)) (srv_queue srv)" using submit_job_exec [of "mk i" srv] s1 by simp
  have fresh: "jobs (srv_queue srv) (ID (mk i)) = None" using Cons.prems(3) by simp
  have e: "e = None" using submit_room [of srv "mk i"] Cons.prems(4) s1 by simp
  have m1: "MaxQueueSize (srv_queue s1) \<le> 0" unfolding q1 using exec_Enqueue_spec(3) [OF Cons.prems(1) fresh] Cons.prems(4) by simp
  have inv1: "gs_inv (srv_queue s1)" unfolding q1 using exec_inv [OF Cons.prems(1)] fresh by (simp del: exec.simps)
  have fr: "\<forall>k\<in>set ranks. jobs (srv_queue s1) (ID (mk k)) = None" unfolding q1 by (rule rank_fresh [OF Cons.prems(1-3)])
  have d: "distinct (map (\<lambda>r. ID (mk r)) ranks)" using Cons.prems(2) by simp
  show ?case using s1 e Cons.IH [of "srv_log t jid l msg s1" for t jid l msg, unfolded srv_log_sel, OF inv1 d fr m1] by simp
qed simp

definition ex_pair :: SubmitDistributedJobRequest where
  "ex_pair = \<lparr>sdCelRequirement = ''true'', sdCommand = ''run'', sdNumNodes = 2, sdGpusPerNode = 0, sdPriority = 0, sdUser = ''ana'',
     sdWalltimeSeconds = 0, sdMasterPort = 0, sdEnvVars = None\<rparr>"

lemma ex_pair_placed:
  "gang_size ex_pair = 2"
  "suits ex_env t newCircuitBreaker (ex_member n) (gang_rank t0 uuid ex_pair 0)"
  "canDispatchResources newGPUTracker (ex_member n) (gang_rank t0 uuid ex_pair 0)"
proof -
  show "gang_size ex_pair = 2" by (simp add: gang_size_def ex_pair_def)
  show "suits ex_env t newCircuitBreaker (ex_member n) (gang_rank t0 uuid ex_pair 0)"
    using ex_matches ex_not_blocked by (simp add: suits_def) (simp add: ex_pair_def)
  have "parseCELRequirement ''true'' = (0, 0)" by code_simp
  then show "canDispatchResources newGPUTracker (ex_member n) (gang_rank t0 uuid ex_pair 0)"
    by (simp add: canDispatchResources_def Let_def) (simp add: ex_pair_def)
qed

theorem gang_launch_witness:
  "\<exists>srv1 srv2 p q rest addr. SubmitDistributedJob 5 ''abcdefgh-1'' (ex_server NewGlobalScheduler) ex_pair =
       (Inr (''dj-abcdefgh'', [''dj-abcdefgh-r0'', ''dj-abcdefgh-r1''], ''QUEUED''), srv1) \<and>
     dispatch_tick ex_env 6 ex_members [''dj-abcdefgh''] srv1 = Some srv2 \<and> srv_sent srv2 = p # q # rest \<and>
     TargetNode p \<noteq> TargetNode q \<and> rendezvous ex_pair addr 0 p \<and> rendezvous ex_pair addr 1 q"
proof -
  let ?srv = "ex_server NewGlobalScheduler" and ?u = "''abcdefgh-1''"
  have q: "gs_inv (srv_queue ?srv)" "cache_ok ex_env (srv_eval ?srv)"
    "\<forall>rank. jobs (srv_queue ?srv) (rank_id (gang_id ?u) rank) = None" "\<not> srv_draining ?srv" "srv_sent ?srv = []"
    by (simp_all add: ex_server_def New_empty cache_ok_new)
  obtain ids s where "submit_ranks 5 (gang_id ?u) (gang_size ex_pair) (gang_rank 5 ?u ex_pair) [0..<nat (gang_size ex_pair)] [] ?srv = (Inr ids, s)"
    using submit_ranks_unlimited [OF q(1), of "gang_rank 5 ?u ex_pair" "[0..<nat (gang_size ex_pair)]"]
      rank_ids_distinct [OF gang_size_bounds(2), of "gang_id ?u" ex_pair] q(3) by (fastforce simp: ex_server_def New_empty)
  then obtain srv1 where r: "SubmitDistributedJob 5 ?u ?srv ex_pair = (Inr (gang_id ?u, ids, ''QUEUED''), srv1)"
    using SubmitDistributedJob_eq [OF q(4), of 5 ?u ex_pair] by simp
  note a = gang_accepted [OF q(1,3) r]
  have gid: "gang_id ?u = ''dj-abcdefgh''" by (simp add: gang_id_def)
  have "Itoa 0 = ''0''" "Itoa 1 = ''1''" by code_simp+
  then have ids: "ids = [''dj-abcdefgh-r0'', ''dj-abcdefgh-r1'']"
    by (simp add: a(2) gang_group_def ex_pair_placed(1) rank_id_def gid upt_rec)
  have p: "PendingGroups [''dj-abcdefgh''] (srv_queue srv1) = [gang_group 5 ?u ex_pair]"
    by (simp add: PendingGroups_def a(4) gid) (simp add: gang_group_def GroupPending_def)
  have late: "time_Sub 6 5 \<le> gangTimeout" by (simp add: gangTimeout_def time_Sub_def Minute_def Second_def)
  have ok: "gang_size ex_pair \<le> int (length (filter (\<lambda>m. suits ex_env 6 (srv_cb ?srv) m (gang_rank 5 ?u ex_pair 0) \<and>
      canDispatchResources (srv_tracker ?srv) m (gang_rank 5 ?u ex_pair 0)) ex_members))"
    using ex_pair_placed by (simp add: ex_members_def ex_server_def)
  obtain srv2 new rest and m0 :: Node where t: "dispatch_tick ex_env 6 ex_members [''dj-abcdefgh''] srv1 = Some srv2" "srv_sent srv2 = [] @ new @ rest"
    "int (length new) = 2" "distinct (map TargetNode new)" "\<forall>i<length new. rendezvous ex_pair (Addr m0) i (new ! i)"
    using gang_launch [OF q(1-3) r p late ex_names(1) ok] unfolding q(5) ex_pair_placed(1) by blast
  from t(3) have "length new = Suc (Suc 0)" by simp
  then obtain x y where new: "new = [x, y]" by (auto simp: length_Suc_conv)
  then have "rendezvous ex_pair (Addr m0) 0 x" "rendezvous ex_pair (Addr m0) 1 y" using t(5) by (auto simp: nth_Cons')
  then show ?thesis using r t new unfolding ids gid by auto
qed

end
