(* ===== verification/Metrics.thy ===== *)
theory Metrics
  imports Gang
begin

text \<open>
  The metrics (\<open>internal/daemon/metrics.go\<close>) and the places of \<open>internal/daemon/master.go\<close>
  that write them. The collectors belong to the Prometheus client; the model keeps what
  the program does to them, the sequence of calls, beside the master's state. A counter's
  value is the sum of what was added to it.
\<close>

subsection \<open>Calls\<close>

datatype metric_call =
    jobsSubmittedTotal string int
  | jobsCompletedTotal string string
  | queueDepth nat
  | runningJobs nat
  | clusterNodes nat
  | dispatchDuration rat
  | jobDuration string string rat
  | groupsPending nat
  | walltimeKillsTotal
  | workerLostTotal

text \<open>Registration; \<open>MustRegister\<close> is the client's, no result is its panic.\<close>

definition collectors :: "string list" where
  "collectors =
     [''tasch_jobs_submitted_total'', ''tasch_jobs_completed_total'', ''tasch_queue_depth'', ''tasch_running_jobs'',
      ''tasch_cluster_nodes'', ''tasch_dispatch_duration_seconds'', ''tasch_job_duration_seconds'', ''tasch_groups_pending'',
      ''tasch_walltime_kills_total'', ''tasch_worker_lost_total'']"

definition initMetrics :: "(string list \<Rightarrow> 'registry \<Rightarrow> 'registry option) \<Rightarrow> 'registry \<Rightarrow> 'registry option" where
  "initMetrics MustRegister registry = MustRegister collectors registry"

definition submit_calls :: "grpc_error + string \<times> string \<Rightarrow> SubmitJobRequest \<Rightarrow> metric_call list" where
  "submit_calls r req =
     (case r of
        Inl _ \<Rightarrow> []
      | Inr _ \<Rightarrow> [jobsSubmittedTotal (if sjUser req = [] then ''anonymous'' else sjUser req) 1])"

definition submit_gang_calls :: "grpc_error + string \<times> string list \<times> string \<Rightarrow> SubmitDistributedJobRequest \<Rightarrow> metric_call list" where
  "submit_gang_calls r req =
     (case r of
        Inl _ \<Rightarrow> []
      | Inr _ \<Rightarrow> [jobsSubmittedTotal (if sdUser req = [] then ''anonymous'' else sdUser req)
                     (if sint (sdNumNodes req) < 1 then 1 else sint (sdNumNodes req))])"

text \<open>The result of a report is counted after the return of a retry.\<close>

definition report_calls :: "Time \<Rightarrow> 'prg schedulerServer \<Rightarrow> ReportResultRequest \<Rightarrow> metric_call list" where
  "report_calls now srv req =
     (case GetJob (MarkCompleted now (srv_queue srv) (rrJobId req) (rrSuccess req) (rrOutput req) (rrError req)) (rrJobId req) of
        (Some job, True) \<Rightarrow>
          if \<not> rrSuccess req \<and> GroupID job = [] \<and> RetryCount job < MaxRetries job then []
          else let resultStatus = (if rrSuccess req then ''COMPLETED'' else ''FAILED''); dur = job_seconds job
               in jobsCompletedTotal (User job) resultStatus #
                  (if 0 < dur then [jobDuration (User job) resultStatus dur] else [])
      | _ \<Rightarrow> [])"

text \<open>The gauges are set at the start of a tick; \<open>job_order\<close> and \<open>order\<close> are the visiting orders of the two tables.\<close>

definition gauge_calls :: "Node list \<Rightarrow> string list \<Rightarrow> string list \<Rightarrow> 'prg schedulerServer \<Rightarrow> metric_call list" where
  "gauge_calls members job_order order srv =
     [queueDepth (QueueLen (srv_queue srv)), runningJobs (length (RunningJobs job_order (srv_queue srv))),
      clusterNodes (length members), groupsPending (length (PendingGroups order (srv_queue srv)))]"

text \<open>Every dispatch observes how long it took: \<open>elapsed\<close>, for the message it sent.\<close>

definition dispatch_calls :: "(DispatchPayload \<Rightarrow> rat) \<Rightarrow> 'prg schedulerServer \<Rightarrow> 'prg schedulerServer \<Rightarrow> metric_call list" where
  "dispatch_calls elapsed srv srv' = map (\<lambda>p. dispatchDuration (elapsed p)) (drop (length (srv_sent srv)) (srv_sent srv'))"

fun walltime_calls :: "Time \<Rightarrow> Job list \<Rightarrow> metric_call list" where
  "walltime_calls now [] = []"
| "walltime_calls now (job # js) =
     (if WalltimeSeconds job \<le> 0 then walltime_calls now js
      else if walltime_deadline job < now then walltimeKillsTotal # walltime_calls now js
      else walltime_calls now js)"

definition leave_calls :: "string list \<Rightarrow> string \<Rightarrow> 'prg schedulerServer \<Rightarrow> metric_call list" where
  "leave_calls order nodeName srv = (if RunningJobsOnNode order (srv_queue srv) nodeName = [] then [] else [workerLostTotal])"

subsection \<open>The metered master\<close>

text \<open>
  The steps of the master with the calls they make. With the flag set, a refused
  distributed submission leaves no rank behind.
\<close>

inductive metered_step :: "bool \<Rightarrow> ('ast, 'prg) celEnv \<Rightarrow> 'prg schedulerServer \<Rightarrow> metric_call list \<Rightarrow> 'prg schedulerServer \<Rightarrow> bool"
  for whole :: bool and env :: "('ast, 'prg) celEnv" where
  submit: "jobs (srv_queue srv) (take 8 uuid) = None \<Longrightarrow> SubmitJob now uuid srv req = (r, srv') \<Longrightarrow>
    metered_step whole env srv (submit_calls r req) srv'"
| submit_gang: "\<forall>rank. jobs (srv_queue srv) (rank_id (gang_id uuid) rank) = None \<Longrightarrow>
    SubmitDistributedJob now uuid srv dreq = (dr, srv') \<Longrightarrow>
    whole \<longrightarrow> (\<exists>x. dr = Inr x) \<or> table (srv_queue srv') = table (srv_queue srv) \<Longrightarrow>
    metered_step whole env srv (submit_gang_calls dr dreq) srv'"
| cancel: "metered_step whole env srv [] (snd (CancelJob now srv jid))"
| report: "metered_step whole env srv (report_calls now srv rreq) (ReportResult now ok srv rreq)"
| retry: "i < length (srv_timers srv) \<Longrightarrow> snd (srv_timers srv ! i) \<notin># waiting (srv_queue srv) \<Longrightarrow>
    metered_step whole env srv [] (fire_retry now i srv)"
| walltime: "metered_step whole env srv (walltime_calls now (RunningJobs order (srv_queue srv))) (walltime_tick now order srv)"
| handshake: "metered_step whole env srv [] (timeout_tick now order srv)"
| acknowledge: "metered_step whole env srv [] (snd (acknowledge_start http_method body srv))"
| leave: "metered_step whole env srv (leave_calls order node srv) (OnLeave now order node srv)"
| decay: "metered_step whole env srv [] (decay_tick ok srv)"
| dispatch: "dispatch_tick env now members order srv = Some srv' \<Longrightarrow>
    metered_step whole env srv (gauge_calls members job_order order srv @ dispatch_calls elapsed srv srv') srv'"
| drain: "metered_step whole env srv [] (srv\<lparr>srv_draining := True\<rparr>)"

inductive metered_run :: "bool \<Rightarrow> ('ast, 'prg) celEnv \<Rightarrow> 'prg schedulerServer \<Rightarrow> metric_call list \<Rightarrow> 'prg schedulerServer \<Rightarrow> bool"
  for whole :: bool and env :: "('ast, 'prg) celEnv" and srv0 :: "'prg schedulerServer" where
  started: "metered_run whole env srv0 [] srv0"
| stepped: "metered_run whole env srv0 cs srv \<Longrightarrow> metered_step whole env srv ds srv' \<Longrightarrow> metered_run whole env srv0 (cs @ ds) srv'"

lemma metered_step_master: "metered_step whole env srv ds srv' \<Longrightarrow> master_step env srv srv'"
proof (induction rule: metered_step.induct)
  case (submit srv uuid now req r srv')
  then show ?case using master_step.submit [of srv uuid env now req] by simp
next
  case (submit_gang srv uuid now dreq dr srv')
  then show ?case using master_step.submit_gang [of srv uuid env now dreq] by (simp add: gang_id_def)
qed (auto intro: master_step.intros)

subsection \<open>Jobs of a user\<close>

definition jobs_of :: "(string \<rightharpoonup> Job) \<Rightarrow> string \<Rightarrow> nat" where
  "jobs_of T u = card {jid. map_option User (T jid) = Some u}"

definition submitted :: "metric_call list \<Rightarrow> string \<Rightarrow> int" where
  "submitted cs u = (\<Sum>c\<leftarrow>cs. case c of jobsSubmittedTotal v n \<Rightarrow> if v = u then n else 0 | _ \<Rightarrow> 0)"

lemma submitted_simps [simp]:
  "submitted [] u = 0" "submitted (cs @ ds) u = submitted cs u + submitted ds u"
  "submitted (jobsSubmittedTotal v n # cs) u = (if v = u then n else 0) + submitted cs u"
  by (simp_all add: submitted_def)

lemma no_submission:
  "submitted (report_calls now srv req) u = 0" "submitted (walltime_calls now js) u = 0"
  "submitted (leave_calls order node srv) u = 0"
  "submitted (gauge_calls members job_order order srv @ dispatch_calls elapsed srv srv') u = 0"
proof -
  show "submitted (walltime_calls now js) u = 0" by (induction js) (simp_all add: submitted_def)
  show "submitted (gauge_calls members job_order order srv @ dispatch_calls elapsed srv srv') u = 0"
    by (simp add: gauge_calls_def dispatch_calls_def submitted_def comp_def)
qed (auto simp: report_calls_def leave_calls_def submitted_def Let_def split: option.split prod.split bool.split)

lemma finite_jobs:
  assumes "gs_inv gs"
  shows "finite (dom (table gs))"
proof -
  have "dom (jobs gs) \<subseteq> (\<lambda>p. ID (mem gs p)) ` {..<next_ptr gs}"
    using assms by (force simp: gs_inv_but_def)
  then show ?thesis unfolding dom_table using finite_surj by blast
qed

lemma jobs_of_static:
  assumes "same_static T T'"
  shows "jobs_of T' u = jobs_of T u"
proof -
  have "map_option User (T' jid) = map_option User (T jid)" for jid
  proof -
    have "map_option static (T' jid) = map_option static (T jid)" using assms by (simp add: same_static_def)
    then have "map_option (User \<circ> static) (T' jid) = map_option (User \<circ> static) (T jid)"
      by (metis option.map_comp)
    moreover have "User \<circ> static = User" by (simp add: fun_eq_iff static_def)
    ultimately show ?thesis by simp
  qed
  then show ?thesis by (simp add: jobs_of_def)
qed

lemma jobs_of_insert:
  assumes "finite (dom T)" "T jid = None"
  shows "jobs_of (T(jid \<mapsto> j)) u = jobs_of T u + (if User j = u then 1 else 0)"
proof -
  let ?S = "{k. map_option User (T k) = Some u}"
  have "?S \<subseteq> dom T" by auto
  then have f: "finite ?S" using assms(1) finite_subset by blast
  have "{k. map_option User ((T(jid \<mapsto> j)) k) = Some u} = (if User j = u then insert jid ?S else ?S)"
    using assms(2) by auto
  then show ?thesis using f assms(2) by (simp add: jobs_of_def)
qed

lemma qsteps_static: "qsteps False f g \<Longrightarrow> gs_inv f \<Longrightarrow> same_static (table f) (table g)"
proof (induction rule: qsteps.induct)
  case (more f g op)
  then show ?case using exec_static [of g op] same_static_trans qsteps_inv by blast
qed simp

lemma submit_job_counts:
  assumes inv: "gs_inv (srv_queue srv)" and fresh: "jobs (srv_queue srv) (ID job) = None"
    and r: "submit_job job srv = (e, srv1)"
  shows "jobs_of (table (srv_queue srv1)) u = jobs_of (table (srv_queue srv)) u + (if e = None \<and> User job = u then 1 else 0)"
proof -
  have q: "srv_queue srv1 = exec (OpEnqueue job) (srv_queue srv)" using submit_job_exec [of job srv] r by simp
  show ?thesis
  proof (cases "0 < MaxQueueSize (srv_queue srv) \<and> MaxQueueSize (srv_queue srv) \<le> int (size (waiting (srv_queue srv)))")
    case True
    then show ?thesis using submit_full(1,2) [OF True inv, of job] q r by simp
  next
    case False
    have "table (srv_queue srv) (ID job) = None" using fresh by (simp add: table_None)
    then show ?thesis
      using submit_room [OF False, of job] r exec_Enqueue_spec(1) [OF inv fresh False] jobs_of_insert [OF finite_jobs [OF inv]]
      by (simp add: q noidx_def del: exec.simps)
  qed
qed

text \<open>How many of \<open>n\<close> new jobs the queue takes.\<close>

definition admitted :: "GlobalScheduler \<Rightarrow> nat \<Rightarrow> nat" where
  "admitted gs n = (if 0 < MaxQueueSize gs then min n (nat (MaxQueueSize gs - int (size (waiting gs)))) else n)"

lemma admitted_step:
  assumes "MaxQueueSize h = MaxQueueSize g" "size (waiting h) = Suc (size (waiting g))"
    "\<not> (0 < MaxQueueSize g \<and> MaxQueueSize g \<le> int (size (waiting g)))"
  shows "admitted g (Suc n) = Suc (admitted h n)"
  using assms by (auto simp: admitted_def)

lemma submit_ranks_counts:
  assumes "gs_inv (srv_queue srv)" "distinct (map (\<lambda>r. ID (mk r)) ranks)" "\<forall>r\<in>set ranks. jobs (srv_queue srv) (ID (mk r)) = None"
    and "\<forall>r. User (mk r) = user" "submit_ranks now gid n mk ranks ids srv = (r, srv')"
  shows "((\<exists>x. r = Inr x) \<longleftrightarrow> admitted (srv_queue srv) (length ranks) = length ranks) \<and>
    groups (srv_queue srv') = groups (srv_queue srv) \<and>
    jobs_of (table (srv_queue srv')) u = jobs_of (table (srv_queue srv)) u + (if u = user then admitted (srv_queue srv) (length ranks) else 0)"
  using assms(1-3,5)
proof (induction ranks arbitrary: srv ids)
  case (Cons i ranks)
  obtain e s1 where s1: "submit_job (mk i) srv = (e, s1)" by fastforce
  have q1: "srv_queue s1 = exec (OpEnqueue (mk i)) (srv_queue srv)" using submit_job_exec [of "mk i" srv] s1 by simp
  have fresh: "jobs (srv_queue srv) (ID (mk i)) = None" using Cons.prems(3) by simp
  note c = submit_job_counts [OF Cons.prems(1) fresh s1]
  show ?case
  proof (cases "0 < MaxQueueSize (srv_queue srv) \<and> MaxQueueSize (srv_queue srv) \<le> int (size (waiting (srv_queue srv)))")
    case False
    have e: "e = None" using submit_room [OF False, of "mk i"] s1 by simp
    note sp = exec_Enqueue_spec(2-4) [OF Cons.prems(1) fresh False, folded q1]
    have a: "admitted (srv_queue srv) (Suc n) = Suc (admitted (srv_queue s1) n)" for n
      by (rule admitted_step [OF sp(2) _ False]) (simp add: sp(1) del: size_waiting)
    have inv1: "gs_inv (srv_queue s1)" unfolding q1 using exec_inv [OF Cons.prems(1)] fresh by (simp del: exec.simps)
    have fr: "\<forall>k\<in>set ranks. jobs (srv_queue s1) (ID (mk k)) = None" unfolding q1 by (rule rank_fresh [OF Cons.prems(1-3)])
    obtain msg where "submit_ranks now gid n mk ranks (ids @ [ID (mk i)]) (srv_log now (ID (mk i)) ''INFO'' msg s1) = (r, srv')"
      using Cons.prems(4) s1 e by simp
    note ih = Cons.IH [OF _ _ _ this, unfolded srv_log_sel, OF inv1 _ fr]
    show ?thesis using ih Cons.prems(2) c [of u] e assms(4) a sp(3) by simp
  next
    case True
    then have "e = Some (QueueFull (MaxQueueSize (srv_queue srv)))" using submit_full(1) [OF True Cons.prems(1), of "mk i"] s1 by simp
    moreover have "admitted (srv_queue srv) (length (i # ranks)) = 0" using True by (simp add: admitted_def)
    moreover have "groups (srv_queue s1) = groups (srv_queue srv)"
      using True by (simp add: q1 Enqueue_def new_job_def)
    ultimately show ?thesis using c [of u] Cons.prems(4) s1 by auto
  qed
qed (auto simp: admitted_def)

lemma SubmitDistributedJob_ranks:
  assumes live: "\<not> srv_draining srv" and r: "SubmitDistributedJob now uuid srv req = (dr, srv')"
  obtains r1 s1 where "submit_ranks now (gang_id uuid) (gang_size req) (gang_rank now uuid req) [0..<nat (gang_size req)] [] srv = (r1, s1)"
    "table (srv_queue srv') = table (srv_queue s1)" "(\<exists>x. r1 = Inr x) \<longleftrightarrow> (\<exists>x. dr = Inr x)"
    "\<nexists>x. dr = Inr x \<Longrightarrow> groups (srv_queue srv') = groups (srv_queue s1)"
proof -
  obtain r1 s1 where s1: "submit_ranks now (gang_id uuid) (gang_size req) (gang_rank now uuid req) [0..<nat (gang_size req)] [] srv = (r1, s1)"
    by fastforce
  note d = r [unfolded SubmitDistributedJob_eq [OF live] s1]
  show thesis by (rule that [OF s1]) (use d in \<open>auto split: sum.splits simp: RegisterGroup_def\<close>)
qed

lemma SubmitDistributedJob_counts:
  assumes inv: "gs_inv (srv_queue srv)" and fresh: "\<forall>rank. jobs (srv_queue srv) (rank_id (gang_id uuid) rank) = None"
    and live: "\<not> srv_draining srv" and r: "SubmitDistributedJob now uuid srv req = (dr, srv')"
  shows "(\<exists>x. dr = Inr x) \<longleftrightarrow> admitted (srv_queue srv) (nat (gang_size req)) = nat (gang_size req)"
    "jobs_of (table (srv_queue srv')) u = jobs_of (table (srv_queue srv)) u +
       (if u = gang_user req then admitted (srv_queue srv) (nat (gang_size req)) else 0)"
    "\<nexists>x. dr = Inr x \<Longrightarrow> groups (srv_queue srv') = groups (srv_queue srv)"
proof -
  obtain r1 s1 where s1: "submit_ranks now (gang_id uuid) (gang_size req) (gang_rank now uuid req) [0..<nat (gang_size req)] [] srv = (r1, s1)"
    "table (srv_queue srv') = table (srv_queue s1)" "(\<exists>x. r1 = Inr x) \<longleftrightarrow> (\<exists>x. dr = Inr x)"
    "\<nexists>x. dr = Inr x \<Longrightarrow> groups (srv_queue srv') = groups (srv_queue s1)"
    using SubmitDistributedJob_ranks [OF live r] by metis
  note c = submit_ranks_counts [OF inv _ _ _ s1(1)]
  show "(\<exists>x. dr = Inr x) \<longleftrightarrow> admitted (srv_queue srv) (nat (gang_size req)) = nat (gang_size req)"
    "jobs_of (table (srv_queue srv')) u = jobs_of (table (srv_queue srv)) u +
       (if u = gang_user req then admitted (srv_queue srv) (nat (gang_size req)) else 0)"
    "\<nexists>x. dr = Inr x \<Longrightarrow> groups (srv_queue srv') = groups (srv_queue srv)"
    using c [of "gang_user req" u] s1(2-4) fresh rank_ids_distinct [OF gang_size_bounds(2), of "gang_id uuid" req] by simp_all
qed

lemma gang_calls_count:
  assumes inv: "gs_inv (srv_queue srv)" and fresh: "\<forall>rank. jobs (srv_queue srv) (rank_id (gang_id uuid) rank) = None"
    and r: "SubmitDistributedJob now uuid srv req = (dr, srv')"
  shows "int (jobs_of (table (srv_queue srv)) u) + submitted (submit_gang_calls dr req) u \<le> int (jobs_of (table (srv_queue srv')) u)"
    "\<exists>x. dr = Inr x \<Longrightarrow>
       int (jobs_of (table (srv_queue srv')) u) = int (jobs_of (table (srv_queue srv)) u) + submitted (submit_gang_calls dr req) u"
proof -
  have calls: "submitted (submit_gang_calls dr req) u = (if (\<exists>x. dr = Inr x) \<and> u = gang_user req then gang_size req else 0)"
    by (auto simp: submit_gang_calls_def gang_size_def gang_user_def split: sum.split)
  show "int (jobs_of (table (srv_queue srv)) u) + submitted (submit_gang_calls dr req) u \<le> int (jobs_of (table (srv_queue srv')) u)"
    "\<exists>x. dr = Inr x \<Longrightarrow>
       int (jobs_of (table (srv_queue srv')) u) = int (jobs_of (table (srv_queue srv)) u) + submitted (submit_gang_calls dr req) u"
    using SubmitDistributedJob_counts [OF inv fresh _ r] SubmitDistributedJob_draining [of srv now uuid req] r gang_size_bounds(1) [of req]
    unfolding calls by (cases "srv_draining srv"; auto)+
qed

lemma SubmitJob_counts:
  assumes inv: "gs_inv (srv_queue srv)" and fresh: "jobs (srv_queue srv) (take 8 uuid) = None"
    and r: "SubmitJob now uuid srv req = (r, srv')"
  shows "int (jobs_of (table (srv_queue srv')) u) = int (jobs_of (table (srv_queue srv)) u) + submitted (submit_calls r req) u"
proof (cases "srv_draining srv")
  case True
  then show ?thesis using r SubmitJob_draining [OF True, of now uuid req] by (auto simp: submit_calls_def)
next
  case False
  let ?j = "submission now uuid srv req"
  obtain e s1 where s1: "submit_job ?j srv = (e, s1)" by fastforce
  have q: "table (srv_queue srv') = table (srv_queue s1)"
    using SubmitJob_result(2) [OF False, of now uuid req] submit_job_exec [of ?j srv] r s1 by simp
  have e: "r = (case e of Some x \<Rightarrow> Inl (ResourceExhausted (''queue full: '' @ sched_error_text x)) | None \<Rightarrow> Inr (take 8 uuid, ''QUEUED''))"
    using SubmitJob_result(1) [OF False, of now uuid req] r s1 by simp
  have "User ?j = (if sjUser req = [] then ''anonymous'' else sjUser req)" by (simp add: submission_def)
  then show ?thesis
    using submit_job_counts [OF inv _ s1, of u] fresh q by (cases e) (simp_all add: e submit_calls_def)
qed

lemma metered_step_counts:
  assumes "metered_step whole env srv ds srv'" "gs_inv (srv_queue srv)" "cache_ok env (srv_eval srv)"
  shows "int (jobs_of (table (srv_queue srv)) u) + submitted ds u \<le> int (jobs_of (table (srv_queue srv')) u) \<and>
    (whole \<longrightarrow> int (jobs_of (table (srv_queue srv')) u) = int (jobs_of (table (srv_queue srv)) u) + submitted ds u)"
proof -
  have quiet: ?thesis if "qsteps False (srv_queue srv) (srv_queue srv')" "submitted ds u = 0"
    using jobs_of_static [OF qsteps_static [OF that(1) assms(2)]] that(2) by simp
  from assms(1) show ?thesis
  proof (cases rule: metered_step.cases)
    case (submit uuid now req r)
    then show ?thesis using SubmitJob_counts [OF assms(2)] by simp
  next
    case (submit_gang uuid now dreq dr)
    note c = gang_calls_count [OF assms(2) submit_gang(2,3), of u]
    show ?thesis
    proof (cases dr)
      case (Inl e)
      then have "submitted ds u = 0" using submit_gang(1) by (simp add: submit_gang_calls_def)
      then show ?thesis using c(1) submit_gang Inl by auto
    qed (use c submit_gang in auto)
  next
    case (dispatch now members order job_order elapsed)
    then show ?thesis using tick_steps [OF dispatch(2) assms(2,3)] by (intro quiet) (simp_all add: no_submission del: submitted_simps)
  qed (rule quiet; simp add: event_steps no_submission qsteps.none)+
qed

text \<open>
  C13. The submission counter accounts for the table: in every run of the master the jobs of a
  user are at least those from before the run plus what was counted for the user, and they
  are exactly these as long as no distributed submission is refused half-way, whatever is
  cancelled, retried, lost or reported meanwhile.
\<close>

theorem submissions_accounted:
  assumes "metered_run whole env srv0 cs srv" "master_reach env srv0"
  shows "int (jobs_of (table (srv_queue srv0)) u) + submitted cs u \<le> int (jobs_of (table (srv_queue srv)) u) \<and>
    (whole \<longrightarrow> int (jobs_of (table (srv_queue srv)) u) = int (jobs_of (table (srv_queue srv0)) u) + submitted cs u)"
proof -
  have "master_reach env srv \<and> ?thesis" using assms(1)
  proof (induction rule: metered_run.induct)
    case (stepped cs srv ds srv')
    note q = master_reach_queue [OF conjunct1 [OF stepped.IH]]
    show ?case
      using metered_step_counts [OF stepped.hyps(2) reach_inv [OF conjunct1 [OF q]] conjunct2 [OF q], of u] stepped.IH
        master_reach.step [OF conjunct1 [OF stepped.IH] metered_step_master [OF stepped.hyps(2)]]
      by auto
  qed (simp add: assms(2))
  then show ?thesis by blast
qed

theorem submissions_accounted_witness:
  "int (jobs_of (table (srv_queue ex_master)) ''anonymous'') = 1 \<and>
   metered_run True ex_env ex_started [jobsSubmittedTotal ''anonymous'' 1] ex_master"
proof -
  have r: "jobs (srv_queue ex_started) (take 8 ''abcdefgh-1'') = None"
    "SubmitJob 5 ''abcdefgh-1'' ex_started ex_request = (Inr (''abcdefgh'', ''QUEUED''), ex_master)"
    by (simp add: ex_started_sel New_empty, rule ex_master_accepted)
  have run: "metered_run True ex_env ex_started [jobsSubmittedTotal ''anonymous'' 1] ex_master"
    using metered_run.stepped [OF metered_run.started metered_step.submit [OF r]] by (simp add: submit_calls_def ex_request_def)
  have "jobs_of (table (srv_queue ex_started)) ''anonymous'' = 0"
    by (simp add: jobs_of_def ex_started_sel New_empty table_def)
  then show ?thesis using submissions_accounted [OF run ex_started_sel(3), of "''anonymous''"] run by simp
qed


definition ex_small :: "string schedulerServer" where
  "ex_small = ex_server (NewGlobalScheduler\<lparr>MaxQueueSize := 1\<rparr>)"


subsection \<open>Gauges and counters of events\<close>

definition running_count :: "GlobalScheduler \<Rightarrow> nat" where
  "running_count gs = card {jid. \<exists>j. table gs jid = Some j \<and> State j = StateRunning}"

lemma length_PendingGroups:
  "length (PendingGroups order gs) = length (filter (\<lambda>k. \<exists>g. groups gs k = Some g \<and> gState g = GroupPending) order)"
  by (induction order) (auto simp: PendingGroups_def split: option.split)

text \<open>
  The gauges a tick sets are the size of the queue, the number of running jobs, of members
  and of pending gangs as the tick finds them.
\<close>

theorem gauges_exact:
  assumes inv: "gs_inv (srv_queue srv)" and o: "range_order job_order (jobs (srv_queue srv))" "range_order order (groups (srv_queue srv))"
  shows "gauge_calls members job_order order srv =
    [queueDepth (size (waiting (srv_queue srv))), runningJobs (running_count (srv_queue srv)), clusterNodes (length members),
     groupsPending (card {gid. \<exists>g. groups (srv_queue srv) gid = Some g \<and> gState g = GroupPending})]"
proof -
  have t: "range_order job_order (table (srv_queue srv))" using o(1) by (simp add: range_order_def dom_table)
  have "length (RunningJobs job_order (srv_queue srv)) = length (map ID (RunningJobs job_order (srv_queue srv)))" by simp
  also have "\<dots> = running_count (srv_queue srv)"
    unfolding RunningJobs_def ListJobs_spec(1) [OF inv] running_count_def using range_order_card [OF t, of "\<lambda>j. State j = StateRunning"]
    by (simp add: StateRunning_def)
  finally show ?thesis
    using range_order_card [OF o(2), of "\<lambda>g. gState g = GroupPending"]
    by (simp add: gauge_calls_def QueueLen_def JobQueue_Len_def length_PendingGroups)
qed

theorem gauges_exact_witness:
  "gauge_calls ex_members [''a''] [] (ex_server ex_running) = [queueDepth 0, runningJobs 1, clusterNodes 2, groupsPending 0]"
proof -
  have "running_count ex_running = 1" by (simp add: running_count_def ex_running_facts)
  then show ?thesis
    using gauges_exact [of "ex_server ex_running" "[''a'']" "[]" ex_members] ex_running_facts ex_running_order
    by (simp add: range_order_def ex_members_def)
qed

text \<open>Every counted kill is one cancel order.\<close>

lemma walltime_calls_expired:
  "\<forall>j\<in>set js. State j = StateRunning \<Longrightarrow> walltime_calls now js = replicate (length (filter (expired now) js)) walltimeKillsTotal"
  by (induction js) (auto simp: expired_def)

lemma kills_counted:
  assumes inv: "gs_inv (srv_queue srv)" and o: "range_order order (jobs (srv_queue srv))"
  shows "walltime_calls now (RunningJobs order (srv_queue srv)) =
    replicate (length (srv_sent (walltime_tick now order srv)) - length (srv_sent srv)) walltimeKillsTotal"
proof -
  let ?js = "RunningJobs order (srv_queue srv)"
  have spec: "\<forall>j\<in>set ?js. table (srv_queue srv) (ID j) = Some (noidx j) \<and> State j = StateRunning"
    using ListJobs_spec(2) [OF inv] by (auto simp: RunningJobs_def StateRunning_def)
  have d: "distinct (map ID ?js)" using o unfolding RunningJobs_def ListJobs_spec(1) [OF inv] by (simp add: range_order_def)
  show ?thesis
    using walltime_loop_spec [OF inv d spec, of now] walltime_calls_expired [of ?js now] spec by (simp add: walltime_tick_def Let_def)
qed

text \<open>
  A final report is counted under the outcome it claims: a cancelled job whose worker reports
  the cancellation counts as failed, although its state stays cancelled.
\<close>

lemma cancelled_counts_as_failed:
  assumes inv: "gs_inv (srv_queue srv)" and t: "table (srv_queue srv) (rrJobId req) = Some j" "State j = StateCancelled" "GroupID j = []"
    and final: "\<not> rrSuccess req" "MaxRetries j \<le> RetryCount j"
  shows "\<exists>ds. report_calls now srv req = jobsCompletedTotal (User j) ''FAILED'' # ds"
    "table (srv_queue (ReportResult now ok srv req)) (rrJobId req) = Some j"
proof -
  let ?q = "MarkCompleted now (srv_queue srv) (rrJobId req) (rrSuccess req) (rrOutput req) (rrError req)"
  obtain job where job: "GetJob ?q (rrJobId req) = (Some job, True)"
    "noidx job = finished now (rrSuccess req) (rrOutput req) (rrError req) j"
    using report_job [OF inv t(1)] by blast
  show "\<exists>ds. report_calls now srv req = jobsCompletedTotal (User j) ''FAILED'' # ds"
    using same_noidx_fields [OF job(2)] final unfolding report_calls_def job(1) by (simp add: Let_def)
  show "table (srv_queue (ReportResult now ok srv req)) (rrJobId req) = Some j"
    using report_single(2) [OF inv t(1,3), of now ok] t(2) by (simp add: finished_def)
qed

end
