(* ===== verification/Go_Text.thy ===== *)
theory Go_Text
  imports Go_Strings
begin

text \<open>
  More of package \<open>strings\<close>, for the texts the program reads from users, files and other
  programs: trimming, splitting, searching from the end, lower case.
\<close>

subsection \<open>White space\<close>

text \<open>The UTF-8 encodings of the runes of \<open>unicode.IsSpace\<close>.\<close>

definition space_runes :: "string list" where
  "space_runes =
     [[CHR 0x09], [CHR 0x0A], [CHR 0x0B], [CHR 0x0C], [CHR 0x0D], [CHR '' ''], [CHR 0xC2, CHR 0x85], [CHR 0xC2, CHR 0xA0],
      [CHR 0xE1, CHR 0x9A, CHR 0x80], [CHR 0xE2, CHR 0x80, CHR 0x80], [CHR 0xE2, CHR 0x80, CHR 0x81],
      [CHR 0xE2, CHR 0x80, CHR 0x82], [CHR 0xE2, CHR 0x80, CHR 0x83], [CHR 0xE2, CHR 0x80, CHR 0x84],
      [CHR 0xE2, CHR 0x80, CHR 0x85], [CHR 0xE2, CHR 0x80, CHR 0x86], [CHR 0xE2, CHR 0x80, CHR 0x87],
      [CHR 0xE2, CHR 0x80, CHR 0x88], [CHR 0xE2, CHR 0x80, CHR 0x89], [CHR 0xE2, CHR 0x80, CHR 0x8A],
      [CHR 0xE2, CHR 0x80, CHR 0xA8], [CHR 0xE2, CHR 0x80, CHR 0xA9], [CHR 0xE2, CHR 0x80, CHR 0xAF],
      [CHR 0xE2, CHR 0x81, CHR 0x9F], [CHR 0xE3, CHR 0x80, CHR 0x80]]"

text \<open>Removing patterns from the front as long as one of them matches.\<close>

function strip_front :: "string list \<Rightarrow> string \<Rightarrow> string" where
  "strip_front ps s =
     (case find (\<lambda>p. p \<noteq> [] \<and> HasPrefix s p) ps of None \<Rightarrow> s | Some p \<Rightarrow> strip_front ps (drop (length p) s))"
  by auto
termination
proof (relation "measure (length \<circ> snd)")
  fix ps s p assume "find (\<lambda>p. p \<noteq> [] \<and> HasPrefix s p) ps = Some (p :: string)"
  then have "p \<noteq> []" "HasPrefix s p" by (auto simp: find_Some_iff)
  then show "((ps, drop (length p) s), ps, s) \<in> measure (length \<circ> snd)" by (auto simp: HasPrefix_iff)
qed simp

declare strip_front.simps [simp del]

definition TrimSpace :: "string \<Rightarrow> string" where
  "TrimSpace s = rev (strip_front (map rev space_runes) (rev (strip_front space_runes s)))"

lemma strip_front_Nil [simp]: "strip_front ps [] = []"
proof -
  have "find (\<lambda>p. p \<noteq> [] \<and> HasPrefix [] p) ps = None" by (auto simp: find_None_iff HasPrefix_iff)
  then show ?thesis by (subst strip_front.simps) (simp only: option.case)
qed

lemma TrimSpace_Nil [simp]: "TrimSpace [] = []"
  by (simp add: TrimSpace_def)

text \<open>A visible character: ASCII, and no white space. It stops the trimming on either side.\<close>

definition visible :: "char \<Rightarrow> bool" where
  "visible c \<longleftrightarrow> 33 \<le> (of_char c :: nat) \<and> (of_char c :: nat) < 128"

lemma strip_front_visible:
  assumes "visible c" "\<forall>p\<in>set ps. \<forall>b\<in>set p. \<not> visible b"
  shows "strip_front ps (c # s) = c # s"
proof -
  have "find (\<lambda>p. p \<noteq> [] \<and> HasPrefix (c # s) p) ps = None"
    using assms by (fastforce simp: find_None_iff HasPrefix_iff Cons_eq_append_conv)
  then show ?thesis by (subst strip_front.simps) (simp only: option.case)
qed

lemma space_not_visible: "p \<in> set space_runes \<Longrightarrow> b \<in> set p \<Longrightarrow> \<not> visible b"
proof -
  have "\<forall>p\<in>set space_runes. \<forall>b\<in>set p. \<not> visible b" by (simp add: space_runes_def visible_def)
  then show "p \<in> set space_runes \<Longrightarrow> b \<in> set p \<Longrightarrow> \<not> visible b" by blast
qed

lemma TrimSpace_visible:
  assumes "s \<noteq> []" "visible (hd s)" "visible (last s)"
  shows "TrimSpace s = s"
proof -
  obtain c r where s: "s = c # r" using assms(1) by (cases s) auto
  obtain d q where q: "rev s = d # q" using assms(1) by (cases "rev s") auto
  have "d = last s" using q by (metis hd_rev list.sel(1))
  then have "strip_front (map rev space_runes) (rev s) = rev s"
    unfolding q using assms(3) space_not_visible by (intro strip_front_visible) auto
  moreover have "strip_front space_runes s = s"
    unfolding s using assms(2) space_not_visible by (intro strip_front_visible) (auto simp: s)
  ultimately show ?thesis by (simp add: TrimSpace_def)
qed

lemma digit_visible: "is_digit c \<Longrightarrow> visible c"
  by (simp add: is_digit_def visible_def)

lemma TrimSpace_Itoa [simp]: "TrimSpace (Itoa n) = Itoa n"
proof (rule TrimSpace_visible)
  have d: "visible (hd (digits_of m))" "visible (last (digits_of m))" for m
    using digits_of_digits [of _ m] digit_visible by (simp_all add: digits_of_ne)
  show "Itoa n \<noteq> []" by (simp add: Itoa_def)
  show "visible (hd (Itoa n))" "visible (last (Itoa n))"
    using d by (simp_all add: Itoa_def) (simp_all add: visible_def)
qed

subsection \<open>Splitting and searching\<close>

text \<open>\<open>Split\<close> at every occurrence of a non-empty separator; \<open>SplitN\<close> with two parts.\<close>

definition cut :: "string \<Rightarrow> string \<Rightarrow> (string \<times> string) option" where
  "cut s sep = (case find (\<lambda>i. HasPrefix (drop i s) sep) [0..<Suc (length s)] of
     None \<Rightarrow> None | Some i \<Rightarrow> Some (take i s, drop (i + length sep) s))"

definition SplitN2 :: "string \<Rightarrow> string \<Rightarrow> string list" where
  "SplitN2 s sep = (case cut s sep of None \<Rightarrow> [s] | Some (a, b) \<Rightarrow> [a, b])"

text \<open>Lines and fields are split at a single character.\<close>

fun Split_char :: "char \<Rightarrow> string \<Rightarrow> string list" where
  "Split_char c [] = [[]]"
| "Split_char c (x # xs) =
     (if x = c then [] # Split_char c xs else (case Split_char c xs of [] \<Rightarrow> [[x]] | l # ls \<Rightarrow> (x # l) # ls))"

definition LastIndex :: "string \<Rightarrow> char \<Rightarrow> int" where
  "LastIndex s c = (if c \<in> set s then int (length s) - 1 - int (length (takeWhile (\<lambda>x. x \<noteq> c) (rev s))) else -1)"

definition lower_char :: "char \<Rightarrow> char" where
  "lower_char c = (let n = (of_char c :: nat) in if 65 \<le> n \<and> n \<le> 90 then char_of (n + 32) else c)"

text \<open>
  \<open>ToLower\<close> as far as a search for ASCII text can tell: the letters, and the two other runes
  whose lower case is an ASCII letter (the dotted capital I and the Kelvin sign). Every
  other rune has a lower case outside ASCII and is kept.
\<close>

function ToLower :: "string \<Rightarrow> string" where
  "ToLower s =
     (case s of
        [] \<Rightarrow> []
      | c # r \<Rightarrow>
          if HasPrefix s [CHR 0xC4, CHR 0xB0] then CHR ''i'' # ToLower (drop 2 s)
          else if HasPrefix s [CHR 0xE2, CHR 0x84, CHR 0xAA] then CHR ''k'' # ToLower (drop 3 s)
          else lower_char c # ToLower r)"
  by auto
termination by (relation "measure length") auto

declare ToLower.simps [simp del]

lemma Split_char_ne [simp]: "Split_char c s \<noteq> []"
  by (induction c s rule: Split_char.induct) (auto split: list.splits)

lemma Join_Split: "Join (Split_char c s) [c] = s"
proof (induction c s rule: Split_char.induct)
  case (2 c x xs)
  obtain l ls where l: "Split_char c xs = l # ls" by (cases "Split_char c xs") auto
  show ?case
  proof (cases "x = c")
    case True
    have "Join ([] # l # ls) [c] = c # Join (l # ls) [c]" by simp
    then show ?thesis using 2 True l by simp
  next
    case False
    have "Join ((x # l) # ls) [c] = x # Join (l # ls) [c]" by (cases ls) simp_all
    then show ?thesis using 2 False l by simp
  qed
qed simp

lemma LastIndex_less: "c \<in> set s \<Longrightarrow> length (takeWhile (\<lambda>x. x \<noteq> c) (rev s)) < length s"
proof -
  assume "c \<in> set s"
  then have "c \<in> set (rev s)" by simp
  then obtain a b where r: "rev s = a @ c # b" "c \<notin> set a" by (meson split_list_first)
  then have "takeWhile (\<lambda>x. x \<noteq> c) (rev s) = a" by (auto simp: takeWhile_append)
  then show ?thesis using arg_cong [OF r(1), of length] by simp
qed

lemma LastIndex_none: "LastIndex s c < 0 \<longleftrightarrow> c \<notin> set s"
  using LastIndex_less [of c s] by (auto simp: LastIndex_def)

lemma Split_char_append: "c \<notin> set l \<Longrightarrow> Split_char c (l @ c # s) = l # Split_char c s"
  by (induction l) auto

lemma Split_char_none: "c \<notin> set l \<Longrightarrow> Split_char c l = [l]"
  by (induction l) auto

lemma Split_Join: "ls \<noteq> [] \<Longrightarrow> \<forall>l\<in>set ls. c \<notin> set l \<Longrightarrow> Split_char c (Join ls [c]) = ls"
proof (induction ls)
  case (Cons l ls)
  then show ?case by (cases ls) (simp_all add: Split_char_none Split_char_append)
qed simp

lemma hd_Join: "ls \<noteq> [] \<Longrightarrow> hd ls \<noteq> [] \<Longrightarrow> hd (Join ls sep) = hd (hd ls) \<and> Join ls sep \<noteq> []"
  by (cases "(ls, sep)" rule: Join.cases) auto

lemma last_Join: "ls \<noteq> [] \<Longrightarrow> last ls \<noteq> [] \<Longrightarrow> last (Join ls sep) = last (last ls) \<and> Join ls sep \<noteq> []"
  by (induction ls sep rule: Join.induct) auto

lemma find_first: "i < n \<Longrightarrow> P i \<Longrightarrow> \<forall>j<i. \<not> P j \<Longrightarrow> find P [0..<n] = Some i"
  by (auto simp: find_Some_iff intro!: exI [of _ i])

text \<open>The first occurrence of a separator of two different characters.\<close>

lemma cut_append:
  assumes "\<not> Contains s [a, b]" "a \<noteq> b"
  shows "cut (s @ a # b # r) [a, b] = Some (s, r)"
proof -
  let ?t = "s @ a # b # r"
  have "\<not> HasPrefix (drop j ?t) [a, b]" if less: "j < length s" for j
  proof
    assume "HasPrefix (drop j ?t) [a, b]"
    then obtain q where "drop j (s @ a # b # r) = [a, b] @ q" unfolding HasPrefix_iff by blast
    then have q: "drop j s @ a # b # r = a # b # q" using less by simp
    obtain x y where xy: "drop j s = x # y" using less by (cases "drop j s") auto
    then obtain y' where "y = b # y'" using q assms(2) by (cases y) auto
    then have "s = take j s @ [a, b] @ y'" using xy q append_take_drop_id [of j s] by simp
    then show False using assms(1) unfolding Contains_iff by blast
  qed
  moreover have "HasPrefix (drop (length s) ?t) [a, b]" by (simp add: HasPrefix_def)
  ultimately have "find (\<lambda>i. HasPrefix (drop i ?t) [a, b]) [0..<Suc (length ?t)] = Some (length s)"
    by (intro find_first) auto
  then show ?thesis unfolding cut_def by (simp del: upt_Suc)
qed

lemma TrimSpace_newline:
  assumes "visible (hd s)" "visible (last s)" "s \<noteq> []"
  shows "TrimSpace (s @ [CHR 0x0A]) = s"
proof -
  obtain c t where s: "s = c # t" using assms(3) by (cases s) auto
  have f: "strip_front space_runes (s @ [CHR 0x0A]) = s @ [CHR 0x0A]"
    unfolding s append_Cons using assms(1) space_not_visible by (intro strip_front_visible) (auto simp: s)
  obtain d q where q: "rev s = d # q" using assms(3) by (cases "rev s") auto
  have "d = last s" using q by (metis hd_rev list.sel(1))
  then have r: "strip_front (map rev space_runes) (rev s) = rev s"
    unfolding q using assms(2) space_not_visible by (intro strip_front_visible) auto
  have "find (\<lambda>p. p \<noteq> [] \<and> HasPrefix (CHR 0x0A # rev s) p) (map rev space_runes) = Some [CHR 0x0A]"
    by (simp add: space_runes_def HasPrefix_def)
  then have "strip_front (map rev space_runes) (CHR 0x0A # rev s) = strip_front (map rev space_runes) (rev s)"
    by (subst strip_front.simps) (simp only: option.case, simp)
  then show ?thesis by (simp add: TrimSpace_def f r)
qed

lemma cut_char:
  assumes "a \<notin> set s"
  shows "cut (s @ a # r) [a] = Some (s, r)"
proof -
  have "\<not> HasPrefix (drop j (s @ a # r)) [a]" if less: "j < length s" for j
  proof
    assume "HasPrefix (drop j (s @ a # r)) [a]"
    then obtain q where "drop j (s @ a # r) = [a] @ q" unfolding HasPrefix_iff by blast
    then have "hd (drop j s) = a" using less by (cases "drop j s") auto
    then show False using assms less by (metis hd_drop_conv_nth nth_mem)
  qed
  moreover have "HasPrefix (drop (length s) (s @ a # r)) [a]" by (simp add: HasPrefix_def)
  ultimately have "find (\<lambda>i. HasPrefix (drop i (s @ a # r)) [a]) [0..<Suc (length (s @ a # r))] = Some (length s)"
    by (intro find_first) auto
  then show ?thesis unfolding cut_def by (simp del: upt_Suc)
qed

lemma cut_char_none: "a \<notin> set s \<Longrightarrow> cut s [a] = None"
proof -
  assume a: "a \<notin> set s"
  have "\<not> HasPrefix (drop j s) [a]" for j
    using a by (metis HasPrefix_iff append_Cons in_set_dropD list.set_intros(1))
  then have "find (\<lambda>i. HasPrefix (drop i s) [a]) [0..<Suc (length s)] = None"
    unfolding find_None_iff by blast
  then show ?thesis unfolding cut_def by (simp only: option.case)
qed

end
