(* ===== verification/Profiler.thy ===== *)
theory Profiler
  imports Go_Text Wire Master_Placement
begin

text \<open>
  Hardware detection and the class ad: \<open>pkg/profiler/profiler.go\<close>, the Linux detectors of
  \<open>profiler_linux.go\<close>, and the parts of \<open>pkg/discovery/discovery.go\<close> that are not calls into
  \<open>memberlist\<close>. The outputs of the vendor tools and the files of the system are arguments;
  a tool that is missing or fails has no output.
\<close>

subsection \<open>Regular expressions\<close>

text \<open>
  A label, white space and the longest non-empty run of the given characters: the form of
  all the patterns of the detectors. At one position there is at most one way to match.
\<close>

definition labelled_here :: "string \<Rightarrow> (char \<Rightarrow> bool) \<Rightarrow> string \<Rightarrow> string option" where
  "labelled_here label P s =
     (if \<not> HasPrefix s label then None
      else let r = drop (length label) s; v = takeWhile P (dropWhile is_space r)
           in if r = [] \<or> \<not> is_space (hd r) \<or> v = [] then None else Some v)"

fun find_labelled :: "string \<Rightarrow> (char \<Rightarrow> bool) \<Rightarrow> string \<Rightarrow> string option" where
  "find_labelled label P [] = labelled_here label P []"
| "find_labelled label P (c # s) =
     (case labelled_here label P (c # s) of Some v \<Rightarrow> Some v | None \<Rightarrow> find_labelled label P s)"

definition version_char :: "char \<Rightarrow> bool" where
  "version_char c \<longleftrightarrow> is_digit c \<or> c = CHR ''.''"

text \<open>Integer division of Go truncates towards zero.\<close>

definition go_div :: "int \<Rightarrow> int \<Rightarrow> int" where
  "go_div a b = sgn a * sgn b * (\<bar>a\<bar> div \<bar>b\<bar>)"

subsection \<open>The detectors\<close>

text \<open>The number of GPUs, their names, their memory in megabytes, and the version of the driver stack.\<close>

type_synonym gpus = "int \<times> string list \<times> int list \<times> string"

definition no_gpus :: gpus where "no_gpus = (0, [], [], [])"

record Tools =
  nvidiaQuery :: "string option"
  nvidiaPlain :: "string option"
  rocmFound :: bool
  rocmNames :: "string option"
  rocmMemory :: "string option"
  rocmDriver :: "string option"
  rocmPlain :: "string option"
  jetsonMask :: bool
  procMeminfo :: "string option"
  deviceModel :: "string option"

definition nvidia_line :: "string \<Rightarrow> (string \<times> int) list" where
  "nvidia_line line =
     (if TrimSpace line = [] then []
      else case SplitN2 (TrimSpace line) '', '' of
          [a, b] \<Rightarrow> [(TrimSpace a, fst (Atoi (TrimSpace b)))]
        | _ \<Rightarrow> [])"

definition lines_of :: "string \<Rightarrow> string list" where
  "lines_of s = Split_char (CHR 0x0A) s"

definition cuda_version :: "string option \<Rightarrow> string" where
  "cuda_version out =
     (case out of None \<Rightarrow> []
      | Some o2 \<Rightarrow> (case find_labelled ''CUDA Version:'' version_char o2 of None \<Rightarrow> [] | Some v \<Rightarrow> v))"

definition detectNVIDIAGPUs :: "Tools \<Rightarrow> gpus" where
  "detectNVIDIAGPUs t =
     (case nvidiaQuery t of
        None \<Rightarrow> no_gpus
      | Some out \<Rightarrow>
          let found = concat (map nvidia_line (lines_of (TrimSpace out)))
          in (int (length found), map fst found, map snd found, cuda_version (nvidiaPlain t)))"

definition amd_name :: "string \<Rightarrow> string list" where
  "amd_name line =
     (let fields = Split_char (CHR '','') line in
      if length fields < 2 then []
      else let n1 = TrimSpace (fields ! 1);
               name = (if n1 = [] \<and> 3 \<le> length fields then TrimSpace (fields ! 2) else n1)
           in if name = [] then [] else [name])"

definition amd_memory :: "string \<Rightarrow> int list" where
  "amd_memory line =
     (let fields = Split_char (CHR '','') line in
      if length fields < 2 then [] else [go_div (go_div (fst (Atoi (TrimSpace (fields ! 1)))) 1024) 1024])"

definition detectAMDGPUsFallback :: "Tools \<Rightarrow> gpus" where
  "detectAMDGPUsFallback t =
     (case rocmPlain t of
        None \<Rightarrow> no_gpus
      | Some out \<Rightarrow>
          let n = length (filter (\<lambda>l. Contains l ''GPU['' \<or> Contains (ToLower l) ''gpu'' \<and> Contains l '':'') (lines_of out))
          in (int n, replicate n ''AMD GPU'', replicate n 0, []))"

text \<open>
  The pattern for the driver version ignores case; it is searched in the text folded as
  Go folds it, which leaves digits and dots alone.
\<close>

definition detectAMDGPUs :: "Tools \<Rightarrow> gpus" where
  "detectAMDGPUs t =
     (if \<not> rocmFound t then no_gpus
      else case rocmNames t of
          None \<Rightarrow> detectAMDGPUsFallback t
        | Some out \<Rightarrow>
            let models = concat (map amd_name (tl (lines_of (TrimSpace out))));
                mems = (case rocmMemory t of None \<Rightarrow> []
                        | Some out2 \<Rightarrow> concat (map amd_memory (tl (lines_of (TrimSpace out2)))));
                version = (case rocmDriver t of None \<Rightarrow> []
                           | Some out3 \<Rightarrow> (case find_labelled ''DRIVER VERSION:'' version_char (fold_name out3) of
                               None \<Rightarrow> [] | Some v \<Rightarrow> v))
            in (int (length models), models, mems @ replicate (length models - length mems) 0, version))"

definition detectJetsonGPUS :: "Tools \<Rightarrow> gpus" where
  "detectJetsonGPUS t =
     (if \<not> jetsonMask t then no_gpus
      else let memBytes = (case procMeminfo t of None \<Rightarrow> 0
                 | Some d \<Rightarrow> (case find_labelled ''MemTotal:'' is_digit d of None \<Rightarrow> 0 | Some v \<Rightarrow> i64 (fst (Atoi v) * 1024)));
               vramMB = (if 0 < memBytes then go_div (go_div (go_div memBytes 1024) 1024) 2 else 4096);
               modelName = (case deviceModel t of None \<Rightarrow> ''NVIDIA Tegra Embedded GPU''
                 | Some d \<Rightarrow> TrimSpace (filter (\<lambda>c. c \<noteq> CHR 0x00) d))
           in (1, [modelName], [vramMB], ''Jetson Unified''))"

definition DetectGPUs :: "Tools \<Rightarrow> gpus \<times> string" where
  "DetectGPUs t =
     (if 0 < fst (detectNVIDIAGPUs t) then (detectNVIDIAGPUs t, ''nvidia'')
      else if 0 < fst (detectAMDGPUs t) then (detectAMDGPUs t, ''amd'')
      else if 0 < fst (detectJetsonGPUS t) then (detectJetsonGPUS t, ''nvidia'')
      else (no_gpus, []))"

text \<open>
  What the detectors promise: the count is the number of names, every GPU has a memory
  size, and the vendor is empty exactly when there is no GPU.
\<close>

definition gpus_ok :: "gpus \<Rightarrow> bool" where
  "gpus_ok g = (case g of (n, models, mems, version) \<Rightarrow> n = int (length models) \<and> length models \<le> length mems)"

lemma no_gpus_ok: "gpus_ok no_gpus"
  by (simp add: gpus_ok_def no_gpus_def)

lemma detectors_ok:
  "gpus_ok (detectNVIDIAGPUs t)" "gpus_ok (detectAMDGPUsFallback t)" "gpus_ok (detectAMDGPUs t)"
  "gpus_ok (detectJetsonGPUS t)"
proof -
  note n = no_gpus_ok
  show "gpus_ok (detectNVIDIAGPUs t)"
    using n by (simp add: gpus_ok_def detectNVIDIAGPUs_def Let_def split: option.split)
  show f: "gpus_ok (detectAMDGPUsFallback t)"
    using n by (simp add: gpus_ok_def detectAMDGPUsFallback_def Let_def split: option.split)
  show "gpus_ok (detectAMDGPUs t)"
    using n f by (auto simp: detectAMDGPUs_def Let_def split: option.split) (auto simp: gpus_ok_def)
  show "gpus_ok (detectJetsonGPUS t)"
    using n by (simp add: detectJetsonGPUS_def Let_def) (simp add: gpus_ok_def)
qed

text \<open>What the NVIDIA tool prints for a list of devices, and the names this format can carry.\<close>

definition smi_line :: "string \<times> int \<Rightarrow> string" where
  "smi_line g = fst g @ '', '' @ Itoa (snd g)"

definition smi_output :: "(string \<times> int) list \<Rightarrow> string" where
  "smi_output gs = concat (map (\<lambda>g. smi_line g @ [CHR 0x0A]) gs)"

definition smi_name :: "string \<Rightarrow> bool" where
  "smi_name n \<longleftrightarrow> n \<noteq> [] \<and> visible (hd n) \<and> visible (last n) \<and> CHR 0x0A \<notin> set n \<and> \<not> Contains n '', ''"

lemma Itoa_chars: "c \<in> set (Itoa m) \<Longrightarrow> is_digit c \<or> c = CHR ''-''"
  using digits_of_digits [of c] by (auto simp: Itoa_def split: if_splits)

lemma last_Itoa: "visible (last (Itoa m))"
proof -
  have "last (Itoa m) \<in> set (Itoa m)" by (rule last_in_set) (simp add: Itoa_def)
  then show ?thesis using Itoa_chars digit_visible by (fastforce simp: visible_def)
qed

lemma nvidia_line_smi:
  assumes "smi_name n" "in_i64 m"
  shows "nvidia_line (smi_line (n, m)) = [(n, m)]"
proof -
  have t: "TrimSpace (smi_line (n, m)) = smi_line (n, m)"
    using assms(1) last_Itoa [of m] by (intro TrimSpace_visible) (auto simp: smi_line_def smi_name_def Itoa_def)
  have "cut (smi_line (n, m)) '', '' = Some (n, Itoa m)"
    unfolding smi_line_def using assms(1) cut_append [of n "CHR '',''" "CHR '' ''"] by (simp add: smi_name_def)
  then have c: "SplitN2 (smi_line (n, m)) '', '' = [n, Itoa m]" by (simp add: SplitN2_def)
  have "TrimSpace n = n" using assms(1) by (intro TrimSpace_visible) (auto simp: smi_name_def)
  then show ?thesis using t c Atoi_Itoa [OF assms(2)] by (simp add: nvidia_line_def) (simp add: smi_line_def)
qed

lemma smi_lines:
  assumes "gs \<noteq> []" "\<forall>g\<in>set gs. smi_name (fst g)"
  shows "lines_of (TrimSpace (smi_output gs)) = map smi_line gs"
proof -
  have nl: "CHR 0x0A \<notin> set (smi_line g)" if "g \<in> set gs" for g
    using that assms(2) Itoa_chars [of "CHR 0x0A" "snd g"] by (auto simp: smi_line_def smi_name_def is_digit_def)
  have o: "smi_output hs = Join (map smi_line hs) [CHR 0x0A] @ [CHR 0x0A]" if "hs \<noteq> []" for hs
    using that
  proof (induction hs)
    case (Cons h hs)
    then show ?case by (cases hs) (simp_all add: smi_output_def)
  qed simp
  have ne: "smi_line g \<noteq> []" "visible (last (smi_line g))" for g using last_Itoa by (simp_all add: smi_line_def Itoa_def)
  have h: "visible (hd (smi_line g))" if "g \<in> set gs" for g
    using assms(2) that by (auto simp: smi_line_def smi_name_def)
  have "hd (map smi_line gs) = smi_line (hd gs)" "last (map smi_line gs) = smi_line (last gs)" "map smi_line gs \<noteq> []"
    using assms(1) by (simp_all add: hd_map last_map)
  then have v: "visible (hd (Join (map smi_line gs) [CHR 0x0A]))" "visible (last (Join (map smi_line gs) [CHR 0x0A]))"
    "Join (map smi_line gs) [CHR 0x0A] \<noteq> []"
    using hd_Join [of "map smi_line gs" "[CHR 0x0A]"] last_Join [of "map smi_line gs" "[CHR 0x0A]"] ne h assms(1) by simp_all
  have "TrimSpace (smi_output gs) = Join (map smi_line gs) [CHR 0x0A]"
    unfolding o [OF assms(1)] using v by (rule_tac TrimSpace_newline)
  then show ?thesis unfolding lines_of_def using nl assms(1) by (simp add: Split_Join)
qed

lemma detect_smi:
  assumes "gs \<noteq> []" "\<forall>g\<in>set gs. smi_name (fst g) \<and> in_i64 (snd g)" "nvidiaQuery t = Some (smi_output gs)"
  shows "DetectGPUs t = ((int (length gs), map fst gs, map snd gs, cuda_version (nvidiaPlain t)), ''nvidia'')"
proof -
  have "concat (map nvidia_line (map smi_line hs)) = hs" if "\<forall>g\<in>set hs. smi_name (fst g) \<and> in_i64 (snd g)" for hs
    using that
  proof (induction hs)
    case (Cons h hs)
    then show ?case using nvidia_line_smi [of "fst h" "snd h"] by simp
  qed simp
  then have "concat (map nvidia_line (lines_of (TrimSpace (smi_output gs)))) = gs"
    using smi_lines [OF assms(1)] assms(2) by simp
  then have "detectNVIDIAGPUs t = (int (length gs), map fst gs, map snd gs, cuda_version (nvidiaPlain t))"
    by (simp add: detectNVIDIAGPUs_def assms(3))
  then show ?thesis using assms(1) by (simp add: DetectGPUs_def)
qed

text \<open>
  GPU detection reads back what the NVIDIA tool prints: for devices whose names start
  and end with a visible character and hold neither a line break nor a comma followed by a
  blank, the detected GPUs are exactly the printed ones, in their order, with their memory.
\<close>

theorem nvidia_detection_exact:
  assumes "gs \<noteq> []" "\<forall>g\<in>set gs. smi_name (fst g) \<and> in_i64 (snd g)" "nvidiaQuery t = Some (smi_output gs)"
  shows "DetectGPUs t = ((int (length gs), map fst gs, map snd gs, cuda_version (nvidiaPlain t)), ''nvidia'')"
  using detect_smi [OF assms] .

definition no_tools :: Tools where
  "no_tools = \<lparr>nvidiaQuery = None, nvidiaPlain = None, rocmFound = False, rocmNames = None, rocmMemory = None, rocmDriver = None,
     rocmPlain = None, jetsonMask = False, procMeminfo = None, deviceModel = None\<rparr>"

definition nvidia_tools :: "(string \<times> int) list \<Rightarrow> Tools" where
  "nvidia_tools gs = no_tools\<lparr>nvidiaQuery := Some (smi_output gs), nvidiaPlain := Some ''| CUDA Version: 12.4 |''\<rparr>"

definition A100 :: "string \<times> int" where "A100 = (''NVIDIA A100-SXM4-80GB'', 81920)"

lemma A100_ok: "\<forall>g\<in>set (replicate n A100). smi_name (fst g) \<and> in_i64 (snd g)"
  by (simp add: A100_def smi_name_def visible_def HasPrefix_def in_i64_def)

lemma cuda_12: "cuda_version (nvidiaPlain (nvidia_tools gs)) = ''12.4''"
  by (simp add: nvidia_tools_def cuda_version_def labelled_here_def HasPrefix_def is_space_def version_char_def is_digit_def)

theorem nvidia_detection_exact_witness:
  "DetectGPUs (nvidia_tools [A100, A100]) = ((2, [fst A100, fst A100], [snd A100, snd A100], ''12.4''), ''nvidia'')"
  using nvidia_detection_exact [of "[A100, A100]" "nvidia_tools [A100, A100]"] A100_ok [of 2] cuda_12 [of "[A100, A100]"]
  by (simp add: nvidia_tools_def numeral_2_eq_2)

subsection \<open>The class ad\<close>

record ClassAd =
  adTimestamp :: int
  adOS :: string
  adArchitecture :: string
  adCPUCores :: int
  adCPUModel :: string
  adTotalMemoryMB :: int
  adAvailableMemMB :: int
  adHostType :: string
  adGPUCount :: int
  adGPUVendor :: string
  adGPUModels :: "string list"
  adGPUMemoryMB :: "int list"
  adCUDAVersion :: string
  adROCmVersion :: string

text \<open>The slices of a node without GPUs are nil, which prints as \<open>null\<close>; no other slice is empty.\<close>

definition slice_json :: "json list \<Rightarrow> json" where
  "slice_json vs = (if vs = [] then JNull else JArray vs)"

definition int_json :: "int \<Rightarrow> json" where
  "int_json n = JNumber (Itoa n)"

definition ClassAd_json :: "ClassAd \<Rightarrow> json" where
  "ClassAd_json ad =
     JObject [(''timestamp'', int_json (adTimestamp ad)), (''os'', JString (adOS ad)), (''architecture'', JString (adArchitecture ad)),
       (''cpu_cores'', int_json (adCPUCores ad)), (''cpu_model'', JString (adCPUModel ad)),
       (''total_memory_mb'', int_json (adTotalMemoryMB ad)), (''available_mem_mb'', int_json (adAvailableMemMB ad)),
       (''host_type'', JString (adHostType ad)), (''gpu_count'', int_json (adGPUCount ad)),
       (''gpu_vendor'', JString (adGPUVendor ad)), (''gpu_models'', slice_json (map JString (adGPUModels ad))),
       (''gpu_memory_mb'', slice_json (map int_json (adGPUMemoryMB ad))), (''cuda_version'', JString (adCUDAVersion ad)),
       (''rocm_version'', JString (adROCmVersion ad))]"

text \<open>\<open>dockerenv\<close>: \<open>/.dockerenv\<close> exists.\<close>

definition detectHostType :: "bool \<Rightarrow> string" where
  "detectHostType dockerenv = (if dockerenv then ''container'' else ''vm_or_baremetal'')"

definition class_ad :: "Time \<Rightarrow> string \<Rightarrow> string \<Rightarrow> int \<times> int \<Rightarrow> string list \<Rightarrow> int \<Rightarrow> bool \<Rightarrow> Tools \<Rightarrow> ClassAd" where
  "class_ad now goos goarch memory cpuInfo cores dockerenv t =
     (case DetectGPUs t of ((n, models, mems, version), vendor) \<Rightarrow>
        \<lparr>adTimestamp = time_Unix now, adOS = goos, adArchitecture = goarch, adCPUCores = cores,
         adCPUModel = (case cpuInfo of [] \<Rightarrow> ''Unknown'' | m # _ \<Rightarrow> m),
         adTotalMemoryMB = fst memory div 1024 div 1024, adAvailableMemMB = snd memory div 1024 div 1024,
         adHostType = detectHostType dockerenv, adGPUCount = n, adGPUVendor = vendor, adGPUModels = models,
         adGPUMemoryMB = mems, adCUDAVersion = (if vendor = ''nvidia'' then version else []),
         adROCmVersion = (if vendor = ''amd'' then version else [])\<rparr>)"

definition GenerateClassAd :: "Time \<Rightarrow> string \<Rightarrow> string \<Rightarrow> (int \<times> int) option \<Rightarrow> string list option \<Rightarrow> int \<Rightarrow> bool \<Rightarrow> Tools \<Rightarrow> string option" where
  "GenerateClassAd now goos goarch memory cpuInfo cores dockerenv t =
     (case (memory, cpuInfo) of
        (Some m, Some info) \<Rightarrow> Some (print_json (ClassAd_json (class_ad now goos goarch m info cores dockerenv t)))
      | _ \<Rightarrow> None)"

text \<open>The numbers of an ad that a \<open>float64\<close> holds exactly.\<close>

definition exact :: "int \<Rightarrow> bool" where
  "exact n \<longleftrightarrow> 0 \<le> n \<and> n < 2 ^ 53"

definition ad_exact :: "ClassAd \<Rightarrow> bool" where
  "ad_exact ad \<longleftrightarrow> exact (adTimestamp ad) \<and> exact (adCPUCores ad) \<and> exact (adTotalMemoryMB ad) \<and> exact (adAvailableMemMB ad) \<and>
     exact (adGPUCount ad) \<and> list_all exact (adGPUMemoryMB ad)"

lemma exact_number:
  assumes "exact n"
  shows "interface_of (int_json n) = (IFloat (of_int n), False)"
proof -
  have f: "f64 (of_int n) = of_int n" using f64_fixed [OF is_f64_of_int] assms by (simp add: exact_def)
  have "(of_int n :: rat) < of_int (2 ^ 53)" using assms unfolding exact_def of_int_less_iff by simp
  moreover have "(of_int (2 ^ 53) :: rat) \<le> 2 ^ 1024"
    using power_increasing [of 53 1024 "2 :: rat"] by simp
  ultimately have "\<not> (max_float_bound \<le> \<bar>of_int n :: rat\<bar>)" using assms by (simp add: max_float_bound_def exact_def)
  then show ?thesis by (simp add: int_json_def f Let_def)
qed

lemma exact_to_int: "exact n \<Longrightarrow> f64_to_int (of_int n) = n"
  by (simp add: exact_def f64_to_int_def Let_def)

lemma ad_printable: "printable 0 (ClassAd_json ad)"
  by (simp add: ClassAd_json_def int_json_def slice_json_def maxNestingDepth_def list_all_iff)

lemma keys_ok: "utf8_ok ''timestamp''" "utf8_ok ''os''" "utf8_ok ''architecture''" "utf8_ok ''cpu_cores''" "utf8_ok ''cpu_model''"
  "utf8_ok ''total_memory_mb''" "utf8_ok ''available_mem_mb''" "utf8_ok ''host_type''" "utf8_ok ''gpu_count''" "utf8_ok ''gpu_vendor''"
  "utf8_ok ''gpu_models''" "utf8_ok ''gpu_memory_mb''" "utf8_ok ''cuda_version''" "utf8_ok ''rocm_version''"
  by (simp_all add: ascii_ok)

definition ad_text :: "ClassAd \<Rightarrow> string" where
  "ad_text ad = print_json (ClassAd_json ad)"

lemma slice_strings: "snd (interface_of (cleaned_json (slice_json (map JString xs)))) = False"
  by (simp add: slice_json_def Let_def list_ex_iff)

lemma slice_ints: "list_all exact ns \<Longrightarrow> snd (interface_of (cleaned_json (slice_json (map int_json ns)))) = False"
  using exact_number by (auto simp: slice_json_def Let_def list_ex_iff list_all_iff int_json_def)

lemma ad_read:
  assumes "ad_exact ad"
  shows "\<exists>m. Unmarshal_map (ad_text ad) = (m, False) \<and> m ''gpu_count'' = Some (IFloat (of_int (adGPUCount ad))) \<and>
    m ''cpu_cores'' = Some (IFloat (of_int (adCPUCores ad))) \<and> m ''total_memory_mb'' = Some (IFloat (of_int (adTotalMemoryMB ad))) \<and>
    m ''gpu_vendor'' = Some (IString (cleaned (adGPUVendor ad)))"
proof -
  have t: "json_text (ad_text ad) = Some (cleaned_json (ClassAd_json ad))"
    unfolding ad_text_def by (rule json_text_print [OF ad_printable])
  have c: "cleaned_json (int_json n) = int_json n" for n by (simp add: int_json_def)
  obtain ms where ms: "interface_of (cleaned_json (slice_json (map JString (adGPUModels ad)))) = (ms, False)"
    using slice_strings by (metis prod.collapse)
  obtain mm where mm: "interface_of (cleaned_json (slice_json (map int_json (adGPUMemoryMB ad)))) = (mm, False)"
    using slice_ints assms unfolding ad_exact_def by (metis prod.collapse)
  have e: "exact (adTimestamp ad)" "exact (adCPUCores ad)" "exact (adTotalMemoryMB ad)" "exact (adAvailableMemMB ad)" "exact (adGPUCount ad)"
    using assms by (simp_all add: ad_exact_def)
  show ?thesis
    by (simp add: Unmarshal_map_def t ClassAd_json_def c ms mm exact_number [OF e(1)] exact_number [OF e(2)] exact_number [OF e(3)]
        exact_number [OF e(4)] exact_number [OF e(5)] keys_ok Let_def)
qed

text \<open>
  C33. What a worker advertises is what the scheduler reads: from the ad that
  \<open>GenerateClassAd\<close> prints, and memberlist carries as the member's metadata, the master's
  tests take exactly the number of GPUs, cores and megabytes that were detected (as long
  as they are below \<open>2\<^sup>5\<^sup>3\<close>, where \<open>float64\<close> is exact), and the vendor it chooses the device
  variable by is the detected one.
\<close>

theorem advertised_capacity_is_read:
  assumes "ad = class_ad now goos goarch memory info cores dockerenv t" "ad_exact ad"
    "GenerateClassAd now goos goarch (Some memory) (Some info) cores dockerenv t = Some text"
  shows "nodeGPUCount text = adGPUCount ad \<and> cap_gpus \<lparr>Name = n, Meta = text, Addr = a\<rparr> = adGPUCount ad \<and>
    cap_cpus \<lparr>Name = n, Meta = text, Addr = a\<rparr> = adCPUCores ad \<and> cap_mem \<lparr>Name = n, Meta = text, Addr = a\<rparr> = adTotalMemoryMB ad \<and>
    node_vendor n [\<lparr>Name = n, Meta = text, Addr = a\<rparr>] = adGPUVendor ad"
proof -
  have tx: "text = ad_text ad" using assms(1,3) by (simp add: GenerateClassAd_def ad_text_def)
  obtain m where m: "Unmarshal_map text = (m, False)" "m ''gpu_count'' = Some (IFloat (of_int (adGPUCount ad)))"
    "m ''cpu_cores'' = Some (IFloat (of_int (adCPUCores ad)))" "m ''total_memory_mb'' = Some (IFloat (of_int (adTotalMemoryMB ad)))"
    "m ''gpu_vendor'' = Some (IString (cleaned (adGPUVendor ad)))"
    using ad_read [OF assms(2)] unfolding tx by blast
  have "adGPUVendor ad \<in> {[], ''nvidia'', ''amd''}"
    unfolding assms(1) class_ad_def by (auto simp: DetectGPUs_def split: prod.split)
  then have v: "cleaned (adGPUVendor ad) = adGPUVendor ad" using ascii_ok by auto
  have ne: "text \<noteq> []" unfolding tx ad_text_def ClassAd_json_def by simp
  have e: "exact (adCPUCores ad)" "exact (adTotalMemoryMB ad)" "exact (adGPUCount ad)"
    using assms(2) by (simp_all add: ad_exact_def)
  show ?thesis
    using m ne v e by (simp add: nodeGPUCount_def cap_gpus_def cap_cpus_def cap_mem_def member_ad_def as_float_def as_string_def exact_to_int)
qed

lemma detect_A100: "n \<noteq> 0 \<Longrightarrow> DetectGPUs (nvidia_tools (replicate n A100)) =
    ((int n, replicate n (fst A100), replicate n (snd A100), ''12.4''), ''nvidia'')"
  using detect_smi [OF _ A100_ok, of n "nvidia_tools (replicate n A100)"] cuda_12 [of "replicate n A100"]
  by (simp add: nvidia_tools_def)

definition large_ad :: ClassAd where
  "large_ad = class_ad 63900000000000000000 ''linux'' ''amd64'' (1099511627776, 1099511627776)
     [''AMD EPYC 7742 64-Core Processor''] 128 False (nvidia_tools (replicate 8 A100))"

lemma large_ad_eq: "large_ad =
   \<lparr>adTimestamp = 1764403200, adOS = ''linux'', adArchitecture = ''amd64'', adCPUCores = 128, adCPUModel = ''AMD EPYC 7742 64-Core Processor'',
    adTotalMemoryMB = 1048576, adAvailableMemMB = 1048576, adHostType = ''vm_or_baremetal'', adGPUCount = 8, adGPUVendor = ''nvidia'',
    adGPUModels = replicate 8 (fst A100), adGPUMemoryMB = replicate 8 (snd A100), adCUDAVersion = ''12.4'', adROCmVersion = []\<rparr>"
  using detect_A100 [of 8] by (simp add: large_ad_def class_ad_def detectHostType_def time_Unix_def)

theorem advertised_capacity_is_read_witness:
  "nodeGPUCount (ad_text large_ad) = 8"
proof -
  have "ad_exact large_ad" "adGPUCount large_ad = 8"
    by (simp_all add: large_ad_eq ad_exact_def exact_def A100_def list_all_iff)
  then show ?thesis
    using advertised_capacity_is_read [OF large_ad_def, of "ad_text large_ad" "''w1''" "[]"]
    by (simp add: GenerateClassAd_def ad_text_def flip: large_ad_def)
qed

subsection \<open>Membership\<close>

text \<open>The delegate returns its metadata whatever the limit it is asked for.\<close>

definition NodeMeta :: "string \<Rightarrow> nat \<Rightarrow> string" where
  "NodeMeta meta limit = meta"

record MemberlistConfig =
  mcName :: string
  mcBindPort :: int
  mcAdvertiseAddr :: string
  mcAdvertisePort :: int
  mcMeta :: "string option"
  mcEvents :: bool

text \<open>
  The configuration \<open>NewNodeDiscovery\<close> hands to \<open>memberlist\<close>, from the library's default;
  \<open>creates\<close> tells whether the agent can be created with it.
\<close>

definition NewNodeDiscovery ::
    "MemberlistConfig \<Rightarrow> (MemberlistConfig \<Rightarrow> bool) \<Rightarrow> string \<Rightarrow> int \<Rightarrow> string option \<Rightarrow> string \<Rightarrow> int \<Rightarrow> bool \<Rightarrow> MemberlistConfig option" where
  "NewNodeDiscovery default_config creates nodeName bindPort meta advertiseAddr advertisePort hooks =
     (let c0 = default_config\<lparr>mcName := nodeName, mcBindPort := bindPort\<rparr>;
          c1 = (if advertiseAddr \<noteq> []
                then c0\<lparr>mcAdvertiseAddr := advertiseAddr, mcAdvertisePort := (if 0 < advertisePort then advertisePort else bindPort)\<rparr>
                else c0);
          c2 = (case meta of Some m \<Rightarrow> c1\<lparr>mcMeta := Some m\<rparr> | None \<Rightarrow> c1);
          c3 = (if hooks then c2\<lparr>mcEvents := True\<rparr> else c2)
      in if creates c3 then Some c3 else None)"

text \<open>The event delegate calls the hook it has, with the name of the member; updates are ignored.\<close>

definition NotifyJoin :: "(string \<Rightarrow> 's \<Rightarrow> 's) option \<Rightarrow> Node \<Rightarrow> 's \<Rightarrow> 's" where
  "NotifyJoin onJoin node s = (case onJoin of None \<Rightarrow> s | Some hook \<Rightarrow> hook (Name node) s)"

definition NotifyLeave :: "(string \<Rightarrow> 's \<Rightarrow> 's) option \<Rightarrow> Node \<Rightarrow> 's \<Rightarrow> 's" where
  "NotifyLeave onLeave node s = (case onLeave of None \<Rightarrow> s | Some hook \<Rightarrow> hook (Name node) s)"

record IfAddr =
  ifIsNet :: bool
  ifLoopback :: bool
  ifIPv4 :: bool
  ifString :: string

fun first_ipv4 :: "IfAddr list \<Rightarrow> string" where
  "first_ipv4 [] = []"
| "first_ipv4 (a # as) = (if ifIsNet a \<and> \<not> ifLoopback a \<and> ifIPv4 a then ifString a else first_ipv4 as)"

definition GetLocalIP :: "IfAddr list option \<Rightarrow> string" where
  "GetLocalIP addrs = (case addrs of None \<Rightarrow> [] | Some as \<Rightarrow> first_ipv4 as)"

subsection \<open>The size of an ad\<close>

lemma length_quoted: "length s \<le> length (quoted s)"
proof (induction s rule: quoted.induct)
  case (1 s)
  show ?case
  proof (cases s)
    case (Cons c r)
    have e: "1 \<le> length (escaped c)" by (simp add: escaped_def)
    have n: "rune_len s \<le> 4" "rune_len s \<noteq> 0 \<Longrightarrow> rune_len s \<le> length s"
      using rune4_bytes [OF rune_len_rune4 [symmetric], of s] rune_bytes [of s] by (cases "rune_len s = 0"; simp)+
    show ?thesis
    proof (cases "(of_char c :: nat) < 128")
      case True
      then show ?thesis using "1.IH"(1) [OF Cons True] e Cons by (subst quoted.simps) auto
    next
      case False
      then show ?thesis
        using "1.IH"(2-5) [OF Cons False refl] n Cons by (subst quoted.simps) (auto simp: Let_def)
    qed
  qed simp
qed

lemma length_Join: "length (Join xs [c]) = (\<Sum>x\<leftarrow>xs. length x) + (length xs - 1)"
  by (induction xs "[c]" rule: Join.induct) auto

lemma length_object: "2 + (\<Sum>(k, v)\<leftarrow>fs. length k + 3 + length (print_json v)) + (length fs - 1) \<le> length (print_json (JObject fs))"
proof -
  have "(\<Sum>(k, v)\<leftarrow>fs. length k + 3 + length (print_json v)) \<le> (\<Sum>x\<leftarrow>map (\<lambda>(k, v). print_string k @ CHR '':'' # print_json v) fs. length x)"
    unfolding map_map comp_def by (rule sum_list_mono) (use length_quoted in \<open>auto simp: print_string_def\<close>)
  then show ?thesis by (simp add: length_Join)
qed

lemma length_string: "length s + 2 \<le> length (print_string s)"
  using length_quoted [of s] by (simp add: print_string_def)

lemma length_array: "length (print_json (slice_json (replicate (Suc n) v))) = Suc n * length (print_json v) + n + 2"
  by (simp add: slice_json_def length_Join map_replicate sum_list_replicate)

lemma length_array_ge:
  assumes "8 \<le> n"
  shows "8 * length (print_json v) + 9 \<le> length (print_json (slice_json (replicate n v)))"
proof -
  obtain m where m: "n = Suc m" "7 \<le> m" using assms by (cases n) auto
  then show ?thesis using add_mono [OF m(2) mult_le_mono1 [OF m(2), of "length (print_json v)"]]
    unfolding m(1) length_array by simp
qed

lemma length_Itoa: "1 \<le> length (Itoa n)"
  by (simp add: Itoa_def digits_of.simps)



end
