(* ===== verification/Setup.thy ===== *)
theory Setup
  imports Profiler Config
begin

text \<open>
  The interactive wizard of \<open>internal/setup/setup.go\<close>. Standard input is the text still to
  be read; \<open>hostname\<close> and \<open>localIP\<close> are what the system reports; the figures of the
  hardware summary are arguments.
\<close>

text \<open>The summary of the hardware. \<open>smi\<close>: one of the vendor tools is in the path.\<close>

definition printHardware :: "int \<Rightarrow> string list \<Rightarrow> int option \<Rightarrow> gpus \<times> string \<Rightarrow> bool \<Rightarrow> string \<Rightarrow> string \<Rightarrow> string list" where
  "printHardware cores cpuInfo memory detected smi goos goarch =
     [''  Detected hardware:'',
      ''    CPU:  '' @ Itoa cores @ '' cores ('' @ (case cpuInfo of [] \<Rightarrow> ''Unknown'' | m # _ \<Rightarrow> m) @ '')''] @
     (case memory of None \<Rightarrow> [] | Some bytes \<Rightarrow> [''    RAM:  '' @ Itoa (bytes div 1024 div 1024 div 1024) @ ''GB'']) @
     (case detected of ((n, models, mems, version), vendor) \<Rightarrow>
        if 0 < n
        then map (\<lambda>(i, m). ''    GPU '' @ Itoa (int i) @ '': '' @ m @
                    (if i < length mems then '' ('' @ Itoa (mems ! i) @ ''MB)'' else [])) (enumerate 0 models) @
             (if version \<noteq> [] then [''    '' @ (if vendor = ''amd'' then ''ROCm'' else ''CUDA'') @ '': '' @ version] else [])
        else ''    GPU:  None detected'' #
             (if \<not> smi then [''          (nvidia-smi and rocm-smi not found)''] else [])) @
     [''    OS:   '' @ goos @ ''/'' @ goarch, []]"

text \<open>Every detected GPU is listed, with its memory.\<close>

lemma printHardware_GPUs:
  assumes "gpus_ok (n, models, mems, version)" "i < length models"
  shows "''    GPU '' @ Itoa (int i) @ '': '' @ models ! i @ '' ('' @ Itoa (mems ! i) @ ''MB)''
    \<in> set (printHardware cores cpuInfo memory ((n, models, mems, version), vendor) smi goos goarch)"
proof -
  have "(i, models ! i) \<in> set (enumerate 0 models)" using assms(2) by (simp add: in_set_enumerate_eq)
  moreover have "i < length mems" "0 < n" using assms by (auto simp: gpus_ok_def)
  ultimately show ?thesis unfolding printHardware_def by (force split: option.split)
qed

text \<open>\<open>ReadString\<close> of a \<open>bufio.Reader\<close>: up to the newline, or what is left at the end of the input.\<close>

definition read_line :: "string \<Rightarrow> string \<times> string" where
  "read_line inp =
     (let l = takeWhile (\<lambda>c. c \<noteq> CHR 0x0A) inp; r = dropWhile (\<lambda>c. c \<noteq> CHR 0x0A) inp
      in if r = [] then (l, []) else (l @ [CHR 0x0A], tl r))"

definition prompt :: "string \<Rightarrow> string \<Rightarrow> string \<times> string" where
  "prompt inp defaultVal =
     (let (line, rest) = read_line inp; input = TrimSpace line
      in (if input = [] then defaultVal else input, rest))"

definition promptInt :: "string \<Rightarrow> int \<Rightarrow> int \<times> string" where
  "promptInt inp defaultVal =
     (let (s, rest) = prompt inp (Itoa defaultVal)
      in (case Atoi s of (v, None) \<Rightarrow> v | (_, Some _) \<Rightarrow> defaultVal, rest))"

text \<open>The loop that asks a worker for the master's address again and again.\<close>

partial_function (option) ask_master :: "string \<Rightarrow> (string \<times> string) option" where
  "ask_master inp = (let (addr, rest) = prompt inp [] in if addr = [] then ask_master rest else Some (addr, rest))"

definition master_address :: "string \<Rightarrow> string \<Rightarrow> string \<Rightarrow> (string \<times> string) option" where
  "master_address role localIP inp =
     (if role = ''worker'' then ask_master inp else Some (prompt inp localIP))"

definition role_of :: "string \<Rightarrow> string" where
  "role_of choice = (if choice = ''1'' then ''master'' else if choice = ''2'' then ''worker'' else ''both'')"

definition RunInteractive :: "string \<Rightarrow> string \<Rightarrow> string \<Rightarrow> Config option" where
  "RunInteractive hostname foundIP inp =
     (let (choice, inp1) = prompt inp ''3'';
          role = role_of choice;
          (nodeName, inp2) = prompt inp1 hostname;
          localIP = (if foundIP = [] then ''127.0.0.1'' else foundIP)
      in case master_address role localIP inp2 of
           None \<Rightarrow> None
         | Some (addr, inp3) \<Rightarrow>
             let (gossip, inp4) = promptInt inp3 7946;
                 (grpc, inp5) = promptInt inp4 50051;
                 (zmq, inp6) = promptInt inp5 5555
             in Some (DefaultConfig\<lparr>cfgRole := role, cfgNodeName := nodeName, cfgMasterAddr := addr,
                        cfgPorts := (cfgPorts DefaultConfig)\<lparr>portGossip := gossip, portGRPC := grpc, portZMQ := zmq\<rparr>\<rparr>))"

text \<open>The answers in an input: its lines, trimmed, the blank ones left out.\<close>

lemma read_line_shorter: "inp \<noteq> [] \<Longrightarrow> read_line inp = (line, rest) \<Longrightarrow> length rest < length inp"
  using length_dropWhile_le [of "\<lambda>c. c \<noteq> CHR 0x0A" inp]
  by (cases "dropWhile (\<lambda>c. c \<noteq> CHR 0x0A) inp") (auto simp: read_line_def Let_def)

function answers :: "string \<Rightarrow> string list" where
  "answers inp =
     (if inp = [] then []
      else let (line, rest) = read_line inp; a = TrimSpace line in (if a = [] then [] else [a]) @ answers rest)"
  by auto
termination
  by (relation "measure length") (auto dest: read_line_shorter sym)

declare answers.simps [simp del]

lemma read_line_Nil [simp]: "read_line [] = ([], [])"
  by (simp add: read_line_def)

lemma ask_master_answer:
  assumes "ask_master inp = Some y"
  shows "answers inp \<noteq> [] \<and> fst y = hd (answers inp)"
proof (rule ask_master.raw_induct [where P = "\<lambda>inp y. answers inp \<noteq> [] \<and> fst y = hd (answers inp)", OF _ assms], goal_cases)
  case (1 f inp y)
  obtain line rest where r: "read_line inp = (line, rest)" by fastforce
  have p: "prompt inp [] = (TrimSpace line, rest)" by (simp add: prompt_def r)
  have "inp \<noteq> []"
  proof
    assume "inp = []"
    then have "f [] = Some y" using 1(2) by (simp add: prompt_def)
    then show False using 1(1) [of "[]" y] answers.simps [of "[]"] by simp
  qed
  then have a: "answers inp = (if TrimSpace line = [] then [] else [TrimSpace line]) @ answers rest"
    by (subst answers.simps) (simp add: r)
  show ?case using 1 by (cases "TrimSpace line = []") (auto simp: p a)
qed

lemma ask_master_returns: "answers inp \<noteq> [] \<Longrightarrow> \<exists>y. ask_master inp = Some y"
proof (induction inp rule: answers.induct)
  case (1 inp)
  obtain line rest where r: "read_line inp = (line, rest)" by fastforce
  have "inp \<noteq> []" using "1.prems" by (auto simp: answers.simps)
  then have a: "answers inp = (if TrimSpace line = [] then [] else [TrimSpace line]) @ answers rest"
    by (subst answers.simps) (simp add: r)
  show ?case
  proof (cases "TrimSpace line = []")
    case True
    then show ?thesis using "1.IH" [OF \<open>inp \<noteq> []\<close> r [symmetric] refl] "1.prems" a
      by (subst ask_master.simps) (simp add: prompt_def r)
  next
    case False
    then show ?thesis by (subst ask_master.simps) (simp add: prompt_def r)
  qed
qed

text \<open>
  The wizard. It returns, whatever is typed, with one exception: for a worker it never
  returns when no line after the first two holds an address, in particular when standard
  input has ended (the loop goes on reading at the end of the input). When it returns, the
  role and the name are the ones chosen, and a worker's master is the first address given.
\<close>

theorem wizard_returns:
  assumes "prompt inp ''3'' = (choice, inp1)" "prompt inp1 hostname = (name, inp2)"
  shows "(RunInteractive hostname ip inp = None \<longleftrightarrow> choice = ''2'' \<and> answers inp2 = []) \<and>
    (case RunInteractive hostname ip inp of
       None \<Rightarrow> True
     | Some cfg \<Rightarrow> cfgRole cfg = role_of choice \<and> cfgNodeName cfg = name \<and>
         (if choice = ''2'' then cfgMasterAddr cfg = hd (answers inp2)
          else cfgMasterAddr cfg = fst (prompt inp2 (if ip = [] then ''127.0.0.1'' else ip))))"
proof -
  have w: "role_of choice = ''worker'' \<longleftrightarrow> choice = ''2''" by (simp add: role_of_def)
  show ?thesis
  proof (cases "choice = ''2''")
    case True
    show ?thesis
    proof (cases "ask_master inp2")
      case None
      then have "answers inp2 = []" using ask_master_returns [of inp2] by auto
      then show ?thesis using None True assms w by (simp add: RunInteractive_def master_address_def)
    next
      case (Some y)
      then show ?thesis using ask_master_answer [OF Some] True assms w
        by (cases y) (simp add: RunInteractive_def master_address_def split: prod.split)
    qed
  next
    case False
    then show ?thesis using assms w by (simp add: RunInteractive_def master_address_def split: prod.split)
  qed
qed

theorem wizard_returns_witness:
  "RunInteractive ''h'' [] [CHR ''2'', CHR 0x0A] = None"
proof -
  have l: "read_line [CHR ''2'', CHR 0x0A] = ([CHR ''2'', CHR 0x0A], [])" by (simp add: read_line_def)
  have "TrimSpace [CHR ''2'', CHR 0x0A] = ''2''" by code_simp
  then have "prompt [CHR ''2'', CHR 0x0A] ''3'' = (''2'', [])" "prompt [] ''h'' = (''h'', [])"
    by (simp_all add: prompt_def l)
  from wizard_returns [OF this, of "[]"] show ?thesis by (simp add: answers.simps)
qed

end
