(* ===== verification/Daemon.thy ===== *)
theory Daemon
  imports Go_Text Config Master_Loops
begin

text \<open>
  Starting and stopping the daemon: \<open>internal/daemon/stop.go\<close> and the \<open>start\<close> command of
  \<open>cmd/tasch/main.go\<close>. The operating system is given by arguments: what the PID file
  holds, whether signals can be sent, when the process is gone.
\<close>

subsection \<open>The PID file\<close>

datatype pid_error = SliceOutOfRange | CannotWrite

text \<open>
  \<open>WritePID\<close> creates the directory \<open>path[:strings.LastIndex(path, "/")]\<close> and writes the number
  of the process; a negative bound is a run-time panic. \<open>writes\<close> tells whether a file at that
  path can be written once its directory has been created.
\<close>

definition WritePID :: "string \<Rightarrow> (string \<Rightarrow> string \<Rightarrow> bool) \<Rightarrow> int \<Rightarrow> pid_error + string" where
  "WritePID path writes pid =
     (let n = LastIndex path (CHR ''/'') in
      if n < 0 then Inl SliceOutOfRange
      else if writes (take (nat n) path) path then Inr (Itoa pid) else Inl CannotWrite)"

subsection \<open>Stopping\<close>

datatype stop_result = NotRunning | InvalidPid | NotFound int | SignalFailed int | Stopped int nat | Killed int

text \<open>
  The process is polled once a second, at most fifteen times; \<open>alive i\<close>: it still answers
  the poll \<open>i + 1\<close> seconds after the request. The file is removed on every branch but the first.
\<close>

fun stop_poll :: "(nat \<Rightarrow> bool) \<Rightarrow> int \<Rightarrow> nat list \<Rightarrow> stop_result" where
  "stop_poll alive pid [] = Killed pid"
| "stop_poll alive pid (i # is) = (if \<not> alive i then Stopped pid (i + 1) else stop_poll alive pid is)"

definition StopDaemon :: "string option \<Rightarrow> (int \<Rightarrow> bool) \<Rightarrow> (int \<Rightarrow> bool) \<Rightarrow> (nat \<Rightarrow> bool) \<Rightarrow> stop_result \<times> bool" where
  "StopDaemon pidFile findable signalled alive =
     (case pidFile of
        None \<Rightarrow> (NotRunning, False)
      | Some data \<Rightarrow>
          (case Atoi (TrimSpace data) of
             (pid, Some e) \<Rightarrow> (InvalidPid, True)
           | (pid, None) \<Rightarrow>
               if \<not> findable pid then (NotFound pid, True)
               else if \<not> signalled pid then (SignalFailed pid, True)
               else (stop_poll alive pid [0..<15], True)))"

lemma stop_poll_killed: "stop_poll alive pid is = Killed pid \<longleftrightarrow> (\<forall>i\<in>set is. alive i)"
  by (induction "is") auto

lemma stop_poll_stopped:
  "stop_poll alive pid [m..<n] = Stopped pid k \<longleftrightarrow> m < k \<and> k \<le> n \<and> \<not> alive (k - 1) \<and> (\<forall>i\<in>{m..<k - 1}. alive i)"
proof (induction "n - m" arbitrary: m)
  case (Suc d)
  then have "m < n" by simp
  then have u: "[m..<n] = m # [Suc m..<n]" by (simp add: upt_conv_Cons)
  show ?case
  proof (cases "alive m")
    case True
    have "{m..<k - 1} = insert m {Suc m..<k - 1}" if "Suc m < k" using that by auto
    then show ?thesis using Suc.hyps(1) [of "Suc m"] Suc.hyps(2) True u
      by (auto simp: not_less_eq less_Suc_eq_le) (metis One_nat_def Suc_lessI diff_Suc_1)+
  next
    case False
    then show ?thesis using u \<open>m < n\<close> by (auto simp: Suc_le_eq)
  qed
qed simp

subsection \<open>The start command\<close>

datatype start_outcome = NoConfig | MayBeRunning string | MasterFailed | WorkerFailed | Running bool bool

text \<open>What is started, by the role of the configuration.\<close>

definition startCmd :: "bool \<Rightarrow> string option \<Rightarrow> bool \<Rightarrow> bool \<Rightarrow> Config \<Rightarrow> start_outcome" where
  "startCmd configExists pidFile masterStarts workerStarts cfg =
     (if \<not> configExists then NoConfig
      else case pidFile of
          Some pidData \<Rightarrow> MayBeRunning pidData
        | None \<Rightarrow>
            let master = (cfgRole cfg = ''master'' \<or> cfgRole cfg = ''both'');
                worker = (cfgRole cfg = ''worker'' \<or> cfgRole cfg = ''both'')
            in if master \<and> \<not> masterStarts then MasterFailed
               else if worker \<and> \<not> workerStarts then WorkerFailed
               else Running master worker)"

text \<open>
  The graceful drain: new jobs are refused, and every two seconds the running jobs are
  looked up until there are none or the timeout is over. \<open>queue_at t\<close> is the scheduler at
  the instant \<open>t\<close>, \<open>order_at t\<close> the order in which its table is visited. The result is the
  instant at which the daemon goes on to shut down.
\<close>

definition running_at :: "(Time \<Rightarrow> GlobalScheduler) \<Rightarrow> (Time \<Rightarrow> string list) \<Rightarrow> Time \<Rightarrow> bool" where
  "running_at queue_at order_at t \<longleftrightarrow> RunningJobs (order_at t) (queue_at t) \<noteq> []"

function drain_loop :: "(Time \<Rightarrow> bool) \<Rightarrow> Time \<Rightarrow> Time \<Rightarrow> Time" where
  "drain_loop running deadline now =
     (if now < deadline then if running now then drain_loop running deadline (now + 2 * Second) else now else now)"
  by auto
termination
  by (relation "measure (\<lambda>(_, deadline, now). nat (deadline - now))") (auto simp: Second_def)

declare drain_loop.simps [simp del]

definition drain :: "(Time \<Rightarrow> GlobalScheduler) \<Rightarrow> (Time \<Rightarrow> string list) \<Rightarrow> Config \<Rightarrow> Time \<Rightarrow> Time" where
  "drain queue_at order_at cfg now =
     drain_loop (running_at queue_at order_at) (time_Add now (i64 (cfgDrainTimeout cfg * Second))) now"

lemma drain_loop_later: "now \<le> drain_loop running deadline now"
proof (induction running deadline now rule: drain_loop.induct)
  case (1 running deadline now)
  have "now \<le> now + 2 * Second" by (simp add: Second_def)
  with 1 show ?case by (subst drain_loop.simps) (auto intro: order_trans)
qed

lemma drain_loop_end:
  "now < deadline + 2 * Second \<Longrightarrow> drain_loop running deadline now < deadline + 2 * Second \<and>
     (deadline \<le> drain_loop running deadline now \<or> \<not> running (drain_loop running deadline now))"
proof (induction running deadline now rule: drain_loop.induct)
  case (1 running deadline now)
  then show ?case by (subst (1 2 3) drain_loop.simps) auto
qed

lemma drain_loop_goes_on:
  "\<forall>k<n. running (now + int k * (2 * Second)) \<and> now + int k * (2 * Second) < deadline \<Longrightarrow>
     drain_loop running deadline now = drain_loop running deadline (now + int n * (2 * Second))"
proof (induction n)
  case (Suc n)
  then have "drain_loop running deadline (now + int n * (2 * Second)) =
      drain_loop running deadline (now + int n * (2 * Second) + 2 * Second)"
    by (subst drain_loop.simps) simp
  then show ?case using Suc by (simp add: algebra_simps)
qed simp

lemma drain_loop_stops: "\<not> running (now + int k * (2 * Second)) \<Longrightarrow> drain_loop running deadline now \<le> now + int k * (2 * Second)"
proof (induction k arbitrary: now)
  case 0
  then show ?case by (subst drain_loop.simps) simp
next
  case (Suc k)
  have n: "now \<le> now + int (Suc k) * (2 * Second)" by (simp add: Second_def)
  have "drain_loop running deadline (now + 2 * Second) \<le> now + int (Suc k) * (2 * Second)"
    using Suc.IH [of "now + 2 * Second"] Suc.prems by (simp add: algebra_simps)
  then show ?case using n by (subst drain_loop.simps) simp
qed

text \<open>
  The drain ends: after at most the configured timeout and one look-up period more,
  and before the timeout only when no job is running.
\<close>

theorem drain_ends:
  assumes "0 \<le> cfgDrainTimeout cfg" "cfgDrainTimeout cfg \<le> 9000000000"
  shows "now \<le> drain queue_at order_at cfg now \<and>
    drain queue_at order_at cfg now < now + (cfgDrainTimeout cfg + 2) * Second \<and>
    (now + cfgDrainTimeout cfg * Second \<le> drain queue_at order_at cfg now \<or>
     RunningJobs (order_at (drain queue_at order_at cfg now)) (queue_at (drain queue_at order_at cfg now)) = [])"
proof -
  have "in_i64 (cfgDrainTimeout cfg * Second)" using assms by (simp add: in_i64_def Second_def)
  then have d: "drain queue_at order_at cfg now =
      drain_loop (running_at queue_at order_at) (now + cfgDrainTimeout cfg * Second) now"
    by (simp add: drain_def time_Add_def)
  have "0 \<le> cfgDrainTimeout cfg * Second" using assms(1) Second_pos by (simp add: Second_def)
  then have "now < now + cfgDrainTimeout cfg * Second + 2 * Second" using Second_pos by linarith
  from drain_loop_end [OF this, of "running_at queue_at order_at"] drain_loop_later show ?thesis
    unfolding d by (auto simp: running_at_def algebra_simps)
qed

lemma Killed_iff:
  assumes "in_i64 pid"
  shows "StopDaemon (Some (Itoa pid)) (\<lambda>_. True) (\<lambda>_. True) alive = (Killed pid, True) \<longleftrightarrow> (\<forall>i<15. alive i)"
  by (auto simp: StopDaemon_def Atoi_Itoa [OF assms] stop_poll_killed)

theorem drain_ends_witness:
  "drain (\<lambda>_. NewGlobalScheduler) (\<lambda>_. []) DefaultConfig 5 < 5 + 62 * Second"
  using drain_ends [of DefaultConfig 5 "\<lambda>_. NewGlobalScheduler" "\<lambda>_. []"] by (simp add: DefaultConfig_def)


text \<open>One job is running all the time: the default configuration would drain for a minute.\<close>

definition busy :: GlobalScheduler where
  "busy = exec (OpRunning 7 ''a'' ''1'') (exec OpDequeue (exec (OpEnqueue (zero_job\<lparr>ID := ''a''\<rparr>)) NewGlobalScheduler))"

lemma busy_runs: "RunningJobs [''a''] busy \<noteq> []"
  by code_simp


text \<open>
  The PID file: writing it panics exactly when its path has no directory, which is when
  \<open>/var/lib/tasch\<close> is missing and the user has no home directory (the daemon crashes after
  it has started); otherwise what is written is read back as the same process when
  stopping, so that a stop request goes to the daemon.
\<close>

theorem pid_file:
  assumes "in_i64 pid"
  shows "(WritePID (PidPath varIsDir home) writes pid = Inl SliceOutOfRange \<longleftrightarrow> \<not> varIsDir \<and> home = None) \<and>
    (WritePID path writes pid = Inr data \<longrightarrow>
       fst (StopDaemon (Some data) findable signalled alive) =
         (if \<not> findable pid then NotFound pid else if \<not> signalled pid then SignalFailed pid else stop_poll alive pid [0..<15]))"
proof -
  have "WritePID (PidPath varIsDir home) writes pid = Inl SliceOutOfRange \<longleftrightarrow> CHR ''/'' \<notin> set (PidPath varIsDir home)"
    by (auto simp: WritePID_def Let_def LastIndex_none)
  moreover have "CHR ''/'' \<notin> set (PidPath varIsDir home) \<longleftrightarrow> \<not> varIsDir \<and> home = None"
    by (auto simp: PidPath_def under_home_def split: option.splits)
  moreover have "data = Itoa pid" if "WritePID path writes pid = Inr data"
    using that by (auto simp: WritePID_def Let_def split: if_splits)
  ultimately show ?thesis by (auto simp: StopDaemon_def Atoi_Itoa [OF assms])
qed

theorem pid_file_witness:
  "WritePID (PidPath False None) (\<lambda>_ _. True) 77 = Inl SliceOutOfRange \<and>
   fst (StopDaemon (Some ''77'') (\<lambda>_. True) (\<lambda>_. True) (\<lambda>i. i < 2)) = Stopped 77 3"
proof -
  have i: "in_i64 77" by (simp add: in_i64_def)
  have w: "WritePID ''/a/b'' (\<lambda>_ _. True) 77 = Inr ''77''" by code_simp
  have "stop_poll (\<lambda>i. i < 2) 77 [0..<15] = Stopped 77 3" by code_simp
  then show ?thesis
    using pid_file [OF i, of False None "\<lambda>_ _. True" "''/a/b''" "''77''" "\<lambda>_. True" "\<lambda>_. True" "\<lambda>i. i < 2"] w by simp
qed

end
