(* ===== verification/Command.thy ===== *)
theory Command
  imports Setup Daemon
begin

text \<open>
  The commands \<open>setup\<close>, \<open>start\<close> and \<open>stop\<close> of \<open>cmd/tasch/main.go\<close> around the wizard, the
  daemon's start and its drain. What the system and YAML do is given by arguments, as in
  the theories of the parts.
\<close>

subsection \<open>Setup\<close>

record SetupFlags =
  suNonInteractive :: bool
  suRole :: string
  suNodeName :: string
  suMasterAddr :: string
  suGossipPort :: int
  suGRPCPort :: int
  suZMQPort :: int

datatype setup_outcome = SetupFailed config_error | WriteFailed | ConfigWritten

text \<open>The configuration the command arrives at. No result: the wizard never returns.\<close>

definition setup_config :: "SetupFlags \<Rightarrow> string \<Rightarrow> string \<Rightarrow> string \<Rightarrow> (config_error + Config) option" where
  "setup_config fl hostname localIP inp =
     (if suNonInteractive fl
      then Some (RunNonInteractive hostname localIP (suRole fl) (suNodeName fl) (suMasterAddr fl)
                   (suGossipPort fl) (suGRPCPort fl) (suZMQPort fl))
      else map_option Inr (RunInteractive hostname localIP inp))"

definition setupCmd :: "SetupFlags \<Rightarrow> string \<Rightarrow> string \<Rightarrow> string \<Rightarrow> (Config \<Rightarrow> bool \<times> string option) \<Rightarrow> string option \<Rightarrow>
    (setup_outcome \<times> string option) option" where
  "setupCmd fl hostname localIP inp save contents =
     (case setup_config fl hostname localIP inp of
        None \<Rightarrow> None
      | Some (Inl e) \<Rightarrow> Some (SetupFailed e, contents)
      | Some (Inr cfg) \<Rightarrow> (case save cfg of (ok, contents') \<Rightarrow> Some (if ok then ConfigWritten else WriteFailed, contents')))"

subsection \<open>Shutdown\<close>

datatype exit_step = SetDraining | DrainedAt Time | CancelWorker | CancelMaster | RemovePID

text \<open>From the signal to the end of the process; \<open>t\<close> is the instant at which the drain ends.\<close>

definition exit_steps :: "bool \<Rightarrow> bool \<Rightarrow> Time \<Rightarrow> exit_step list" where
  "exit_steps master worker t =
     (if master then [SetDraining, DrainedAt t] else []) @ (if worker then [CancelWorker] else []) @
     (if master then [CancelMaster] else []) @ [RemovePID]"

definition stopCmd :: "stop_result \<Rightarrow> nat" where
  "stopCmd r = (case r of Stopped _ _ \<Rightarrow> 0 | Killed _ \<Rightarrow> 0 | _ \<Rightarrow> 1)"

subsection \<open>Setting up and starting\<close>

lemma no_overrides: "ApplyEnvOverrides (\<lambda>_. []) c = c"
  by (simp add: ApplyEnvOverrides_def override_port_def Let_def)

text \<open>The role a setup asks for.\<close>

definition asked_role :: "SetupFlags \<Rightarrow> string \<Rightarrow> string" where
  "asked_role fl inp =
     (if suNonInteractive fl then if suRole fl = [] then ''both'' else suRole fl else role_of (fst (prompt inp ''3'')))"

lemma RunNonInteractive_role:
  "RunNonInteractive hostname localIP role nodeName masterAddr gp rp zp = Inr cfg \<Longrightarrow> cfgRole cfg = (if role = [] then ''both'' else role)"
  unfolding RunNonInteractive_def Let_def
  by (cases "role = []"; cases "nodeName = []"; cases "masterAddr = []"; cases "0 < gp"; cases "0 < rp"; cases "0 < zp";
      cases "role = ''worker''") (auto simp: DefaultConfig_def)

lemma setup_config_role:
  assumes "setup_config fl hostname localIP inp = Some (Inr cfg)"
  shows "cfgRole cfg = asked_role fl inp"
proof (cases "suNonInteractive fl")
  case True
  then show ?thesis using assms RunNonInteractive_role by (auto simp: setup_config_def asked_role_def)
next
  case False
  then show ?thesis using assms
    by (auto simp: setup_config_def RunInteractive_def Let_def asked_role_def split: option.splits prod.splits)
qed

text \<open>
  Setting up and starting. When a setup has written its configuration, and YAML reads back
  the text it wrote for that configuration, a later start without overriding variables works
  with exactly this configuration: the master is started if and only if the role asked for
  is master or both, the worker if and only if it is worker or both. The role is not checked:
  for any other word the daemon runs and starts nothing.
\<close>

theorem setup_then_start:
  assumes yaml: "\<And>cfg bytes. yamlEncode cfg = Some bytes \<Longrightarrow> yamlDecode bytes DefaultConfig = Some cfg"
    and set: "setupCmd fl hostname localIP inp (SaveConfig dir_ok yamlEncode write_ok contents) contents = Some (ConfigWritten, contents')"
  shows "\<exists>cfg. setup_config fl hostname localIP inp = Some (Inr cfg) \<and> loadConfig contents' yamlDecode (\<lambda>_. []) = cfg \<and>
    startCmd True None True True cfg =
      Running (asked_role fl inp \<in> {''master'', ''both''}) (asked_role fl inp \<in> {''worker'', ''both''})"
proof -
  obtain cfg where c: "setup_config fl hostname localIP inp = Some (Inr cfg)"
    "SaveConfig dir_ok yamlEncode write_ok contents cfg = (True, contents')"
    using set by (auto simp: setupCmd_def split: option.splits sum.splits prod.splits if_splits)
  then obtain bytes where "yamlEncode cfg = Some bytes" "contents' = Some bytes"
    by (auto simp: SaveConfig_def split: if_splits option.splits)
  then have "loadConfig contents' yamlDecode (\<lambda>_. []) = cfg"
    using yaml by (simp add: loadConfig_def LoadConfig_def no_overrides)
  then show ?thesis using c(1) setup_config_role [OF c(1)] by (auto simp: startCmd_def Let_def)
qed

text \<open>
  A configuration that cannot be decoded: the file exists, so that the start goes on, and the
  daemon starts as master and worker with the defaults.
\<close>

lemma broken_config_starts_defaults:
  assumes "yamlDecode bytes DefaultConfig = None"
  shows "startCmd True None True True (loadConfig (Some bytes) yamlDecode (\<lambda>_. [])) = Running True True"
  using assms by (simp add: loadConfig_def LoadConfig_def no_overrides startCmd_def Let_def DefaultConfig_def)

text \<open>The master outlives the worker, and the PID file is removed last.\<close>

lemma exit_order:
  "last (exit_steps master worker t) = RemovePID"
  "exit_steps True True t = [SetDraining, DrainedAt t, CancelWorker, CancelMaster, RemovePID]"
  by (simp_all add: exit_steps_def)

definition ex_typo :: SetupFlags where
  "ex_typo = \<lparr>suNonInteractive = True, suRole = ''workr'', suNodeName = ''n'', suMasterAddr = ''m'', suGossipPort = 0, suGRPCPort = 0, suZMQPort = 0\<rparr>"

text \<open>Text of a configuration that names only its role.\<close>

definition ex_saved :: "Config \<Rightarrow> Config" where
  "ex_saved cfg = DefaultConfig\<lparr>cfgRole := cfgRole cfg, cfgNodeName := ''n'', cfgMasterAddr := ''m''\<rparr>"

theorem setup_then_start_witness:
  "\<exists>cfg. setup_config ex_typo ''h'' [] [] = Some (Inr cfg) \<and> startCmd True None True True cfg = Running False False"
proof -
  define enc where "enc = (\<lambda>cfg. if ex_saved cfg = cfg then Some (cfgRole cfg) else None)"
  define dec where "dec = (\<lambda>bytes d. Some (ex_saved (d\<lparr>cfgRole := bytes\<rparr>)))"
  have yaml: "enc cfg = Some bytes \<Longrightarrow> dec bytes DefaultConfig = Some cfg" for cfg bytes
    by (auto simp: enc_def dec_def ex_saved_def split: if_splits)
  have "setupCmd ex_typo ''h'' [] [] (SaveConfig True enc True None) None = Some (ConfigWritten, Some ''workr'')"
    by (simp add: setupCmd_def setup_config_def ex_typo_def RunNonInteractive_def Let_def DefaultConfig_def SaveConfig_def enc_def ex_saved_def)
  from setup_then_start [of enc dec, OF yaml this] show ?thesis by (auto simp: asked_role_def ex_typo_def)
qed

end
