(* ===== verification/Profiler_Platforms.thy ===== *)
theory Profiler_Platforms
  imports Profiler
begin

text \<open>
  GPU detection on the other systems: \<open>profiler_windows.go\<close>, \<open>profiler_darwin.go\<close> and
  \<open>profiler_fallback.go\<close>. As on Linux the outputs of the tools are arguments, and a tool that
  is missing or fails has no output.
\<close>

subsection \<open>Windows\<close>

record winGPU =
  winName :: string
  winAdapterRAM :: iface

definition zero_winGPU :: winGPU where
  "zero_winGPU = \<lparr>winName = [], winAdapterRAM = INil\<rparr>"

text \<open>
  \<open>json.Unmarshal\<close> into the struct: a field of the wrong type is skipped and an error is
  returned at the end; a number that no \<open>float64\<close> holds leaves the interface alone.
\<close>

definition win_field :: "string \<Rightarrow> json \<Rightarrow> winGPU \<Rightarrow> winGPU \<times> bool" where
  "win_field k v g =
     (if k = ''NAME'' then (case string_into v (winName g) of Some s \<Rightarrow> (g\<lparr>winName := s\<rparr>, False) | None \<Rightarrow> (g, True))
      else if k = ''ADAPTERRAM''
      then (case interface_of v of (x, err) \<Rightarrow>
              if err \<and> (case v of JNumber _ \<Rightarrow> True | _ \<Rightarrow> False) then (g, True) else (g\<lparr>winAdapterRAM := x\<rparr>, err))
      else (g, False))"

fun win_fields :: "(string \<times> json) list \<Rightarrow> winGPU \<Rightarrow> winGPU \<times> bool" where
  "win_fields [] g = (g, False)"
| "win_fields ((k, v) # fs) g =
     (case win_field (fold_name k) v g of (g', e) \<Rightarrow> case win_fields fs g' of (g'', e') \<Rightarrow> (g'', e \<or> e'))"

definition win_object :: "json \<Rightarrow> winGPU \<times> bool" where
  "win_object v =
     (case v of
        JObject fs \<Rightarrow> win_fields fs zero_winGPU
      | JNull \<Rightarrow> (zero_winGPU, False)
      | _ \<Rightarrow> (zero_winGPU, True))"

text \<open>
  One controller is printed as an object and counts only when it decodes without an error;
  several are printed as an array, whose elements all count.
\<close>

definition win_gpus :: "string \<Rightarrow> winGPU list" where
  "win_gpus out =
     (let trimmed = TrimSpace out in
      if HasPrefix trimmed [CHR 0x7B]
      then (case json_text trimmed of
              Some v \<Rightarrow> (case win_object v of (g, err) \<Rightarrow> if err then [] else [g])
            | None \<Rightarrow> [])
      else if HasPrefix trimmed [CHR 0x5B]
      then (case json_text trimmed of Some (JArray vs) \<Rightarrow> map (fst \<circ> win_object) vs | _ \<Rightarrow> [])
      else [])"

definition virtual_adapter :: "string \<Rightarrow> bool" where
  "virtual_adapter lowerName \<longleftrightarrow> Contains lowerName ''basic display'' \<or> Contains lowerName ''virtual'' \<or>
     Contains lowerName ''remote'' \<or> Contains lowerName ''citrix''"

definition win_memory :: "iface \<Rightarrow> int" where
  "win_memory ram =
     (let ramBytes = (case ram of IFloat v \<Rightarrow> f64_to_int v | IString s \<Rightarrow> fst (Atoi s) | _ \<Rightarrow> 0);
          ramMB = go_div (go_div ramBytes 1024) 1024
      in if ramMB < 0 then 0 else ramMB)"

definition win_adapter :: "winGPU \<Rightarrow> (string \<times> int) list" where
  "win_adapter gpu =
     (let name = TrimSpace (winName gpu) in
      if virtual_adapter (ToLower name) then [] else [(name, win_memory (winAdapterRAM gpu))])"

definition win_vendor :: "string \<Rightarrow> string" where
  "win_vendor firstLower =
     (if Contains firstLower ''nvidia'' then ''nvidia''
      else if Contains firstLower ''amd'' \<or> Contains firstLower ''radeon'' then ''amd''
      else if Contains firstLower ''intel'' then ''intel''
      else if Contains firstLower ''adreno'' \<or> Contains firstLower ''qualcomm'' then ''qualcomm''
      else ''generic'')"

text \<open>The NVIDIA tool is searched in the path and at its usual place; its output is read as on Linux.\<close>

record WinTools =
  powershell :: "string option"
  winQuery :: "string option"
  winPlain :: "string option"

definition getWindowsCUDAVersion :: "WinTools \<Rightarrow> string" where
  "getWindowsCUDAVersion t = cuda_version (winPlain t)"

definition detectWindowsNVIDIAGPUs :: "WinTools \<Rightarrow> gpus" where
  "detectWindowsNVIDIAGPUs t =
     (case winQuery t of
        None \<Rightarrow> no_gpus
      | Some out \<Rightarrow>
          let found = concat (map nvidia_line (lines_of (TrimSpace out)))
          in (int (length found), map fst found, map snd found, cuda_version (winPlain t)))"

definition Windows_DetectGPUs :: "WinTools \<Rightarrow> gpus \<times> string" where
  "Windows_DetectGPUs t =
     (let found = (case powershell t of None \<Rightarrow> [] | Some out \<Rightarrow> concat (map win_adapter (win_gpus out)))
      in if found \<noteq> []
         then let vendor = win_vendor (ToLower (fst (hd found)))
              in ((int (length found), map fst found, map snd found,
                   if vendor = ''nvidia'' then getWindowsCUDAVersion t else []), vendor)
         else if 0 < fst (detectWindowsNVIDIAGPUs t) then (detectWindowsNVIDIAGPUs t, ''nvidia'')
         else (no_gpus, []))"

subsection \<open>macOS\<close>

record MacTools =
  displays :: "string option"
  memsize :: "string option"

definition chipset_step :: "string \<Rightarrow> string \<Rightarrow> string" where
  "chipset_step model line =
     (if HasPrefix (TrimSpace line) ''Chipset Model:'' then TrimSpace (drop 14 (TrimSpace line)) else model)"

definition mac_memory :: "string option \<Rightarrow> int" where
  "mac_memory out =
     (let vramMB = (case out of
            None \<Rightarrow> 0
          | Some o2 \<Rightarrow> (let bytes = fst (Atoi (TrimSpace o2))
                       in if 0 < bytes then go_div (i64 (go_div (go_div bytes 1024) 1024 * 3)) 4 else 0))
      in if vramMB = 0 then 8192 else vramMB)"

definition mac_vendor :: "string \<Rightarrow> string" where
  "mac_vendor lowerModel =
     (if Contains lowerModel ''nvidia'' then ''nvidia''
      else if Contains lowerModel ''amd'' \<or> Contains lowerModel ''radeon'' then ''amd''
      else if Contains lowerModel ''intel'' then ''intel''
      else ''apple'')"

definition Darwin_DetectGPUs :: "MacTools \<Rightarrow> gpus \<times> string" where
  "Darwin_DetectGPUs t =
     (case displays t of
        None \<Rightarrow> (no_gpus, [])
      | Some out \<Rightarrow>
          let model = foldl chipset_step ''Apple GPU'' (lines_of out)
          in ((1, [model], [mac_memory (memsize t)], ''Metal API''), mac_vendor (ToLower model)))"

subsection \<open>Other systems\<close>

definition Fallback_DetectGPUs :: "gpus \<times> string" where
  "Fallback_DetectGPUs = (no_gpus, [])"

subsection \<open>What every variant promises\<close>

text \<open>
  A detection: the count is the number of names, every GPU has a memory size, and the vendor
  is empty exactly when there is no GPU.
\<close>

definition detection_ok :: "gpus \<times> string \<Rightarrow> bool" where
  "detection_ok d \<longleftrightarrow> (case d of (g, vendor) \<Rightarrow> gpus_ok g \<and> (if vendor = [] then g = no_gpus else 0 < fst g))"

lemma vendor_names: "win_vendor s \<in> {''nvidia'', ''amd'', ''intel'', ''qualcomm'', ''generic''}"
    "mac_vendor s \<in> {''nvidia'', ''amd'', ''intel'', ''apple''}" "win_vendor s \<noteq> []" "mac_vendor s \<noteq> []"
  by (simp_all add: win_vendor_def mac_vendor_def)

lemma Windows_ok: "detection_ok (Windows_DetectGPUs t)"
proof -
  have "gpus_ok (detectWindowsNVIDIAGPUs t)"
    using no_gpus_ok by (simp add: gpus_ok_def detectWindowsNVIDIAGPUs_def Let_def split: option.split)
  then show ?thesis
    using vendor_names(3) no_gpus_ok by (auto simp: Windows_DetectGPUs_def detection_ok_def Let_def gpus_ok_def)
qed

lemma Linux_ok: "detection_ok (DetectGPUs t)" "snd (DetectGPUs t) \<in> {[], ''nvidia'', ''amd''}"
  using detectors_ok [of t] no_gpus_ok by (simp_all add: DetectGPUs_def detection_ok_def)

lemma Darwin_ok: "detection_ok (Darwin_DetectGPUs t)"
  using vendor_names(4) no_gpus_ok by (auto simp: Darwin_DetectGPUs_def detection_ok_def Let_def gpus_ok_def split: option.split)

text \<open>
  GPU detection on every system, whatever the vendor tools print: the count is the
  number of model names, every GPU has a memory size, and there is a vendor exactly when
  there is a GPU. The vendor is one of those the system can have, and on Linux one of the
  two with a device variable of their own.
\<close>

theorem detection_consistent:
  "detection_ok (DetectGPUs linux) \<and> detection_ok (Windows_DetectGPUs win) \<and> detection_ok (Darwin_DetectGPUs mac) \<and>
   detection_ok Fallback_DetectGPUs \<and> snd (DetectGPUs linux) \<in> {[], ''nvidia'', ''amd''} \<and>
   snd (Windows_DetectGPUs win) \<in> {[], ''nvidia'', ''amd'', ''intel'', ''qualcomm'', ''generic''} \<and>
   snd (Darwin_DetectGPUs mac) \<in> {[], ''nvidia'', ''amd'', ''intel'', ''apple''}"
proof -
  have "snd (Windows_DetectGPUs win) \<in> {[], ''nvidia'', ''amd'', ''intel'', ''qualcomm'', ''generic''}"
    using vendor_names(1) by (auto simp: Windows_DetectGPUs_def Let_def)
  moreover have "snd (Darwin_DetectGPUs mac) \<in> {[], ''nvidia'', ''amd'', ''intel'', ''apple''}"
    using vendor_names(2) by (auto simp: Darwin_DetectGPUs_def Let_def split: option.split)
  moreover have "detection_ok Fallback_DetectGPUs" by (simp add: Fallback_DetectGPUs_def detection_ok_def no_gpus_ok)
  ultimately show ?thesis using Linux_ok Windows_ok Darwin_ok by blast
qed

text \<open>
  The tool the Linux detection reads gives the same GPUs on Windows when PowerShell names no
  adapter.
\<close>

lemma Windows_nvidia_as_Linux:
  assumes "powershell w = None" "winQuery w = nvidiaQuery l" "winPlain w = nvidiaPlain l" "0 < fst (detectNVIDIAGPUs l)"
  shows "Windows_DetectGPUs w = DetectGPUs l"
proof -
  have "detectWindowsNVIDIAGPUs w = detectNVIDIAGPUs l"
    by (simp add: detectWindowsNVIDIAGPUs_def detectNVIDIAGPUs_def assms(2,3) split: option.split)
  then show ?thesis using assms(1,4) by (simp add: Windows_DetectGPUs_def DetectGPUs_def)
qed

end
