(* ===== verification/Cli.thy ===== *)
theory Cli
  imports Go_Text Worker_Master Handler_Properties
begin

text \<open>
  The command line, \<open>internal/cli\<close>: how flags become requests and how responses become the
  printed lines. The calls themselves are the master's handlers; formatting an instant is
  an argument.
\<close>

subsection \<open>Flags\<close>

text \<open>\<open>strings.SplitN(e, "=", 2)\<close> of every flag, later ones overwriting earlier ones.\<close>

fun parseEnvFlags :: "string list \<Rightarrow> (string \<rightharpoonup> string) \<Rightarrow> (string \<rightharpoonup> string)" where
  "parseEnvFlags [] m = m"
| "parseEnvFlags (e # es) m =
     (case SplitN2 e ''='' of [k, v] \<Rightarrow> parseEnvFlags es (m(k \<mapsto> v)) | _ \<Rightarrow> parseEnvFlags es m)"

record SubmitFlags =
  sfPriority :: "32 word"
  sfUser :: string
  sfWalltime :: "32 word"
  sfGPUs :: "32 word"
  sfEnv :: "string list"

definition submit_request :: "SubmitFlags \<Rightarrow> string \<Rightarrow> string \<Rightarrow> SubmitJobRequest" where
  "submit_request f expr cmd =
     \<lparr>sjCelRequirement = expr, sjCommand = cmd, sjPriority = sfPriority f, sjUser = sfUser f, sjWalltimeSeconds = sfWalltime f,
      sjGpusRequired = sfGPUs f, sjEnvVars = Some (parseEnvFlags (sfEnv f) Map.empty)\<rparr>"

record TrainFlags =
  tfNodes :: "32 word"
  tfGPUsPerNode :: "32 word"
  tfRequirement :: string
  tfPriority :: "32 word"
  tfUser :: string
  tfWalltime :: "32 word"
  tfMasterPort :: "32 word"
  tfEnv :: "string list"

definition train_request :: "TrainFlags \<Rightarrow> string \<Rightarrow> SubmitDistributedJobRequest" where
  "train_request f cmd =
     \<lparr>sdCelRequirement = tfRequirement f, sdCommand = cmd, sdNumNodes = tfNodes f, sdGpusPerNode = tfGPUsPerNode f,
      sdPriority = tfPriority f, sdUser = tfUser f, sdWalltimeSeconds = tfWalltime f, sdMasterPort = tfMasterPort f,
      sdEnvVars = Some (parseEnvFlags (tfEnv f) Map.empty)\<rparr>"

definition default_train :: TrainFlags where
  "default_train = \<lparr>tfNodes = 2, tfGPUsPerNode = 1, tfRequirement = ''ad.gpu_count >= 1'', tfPriority = 0, tfUser = [],
     tfWalltime = 0, tfMasterPort = 29500, tfEnv = []\<rparr>"

text \<open>The connection of every command: the configured address, without transport security.\<close>

definition GetClient :: "Config \<Rightarrow> string \<times> string option" where
  "GetClient cfg = (GRPCAddr cfg, None)"

subsection \<open>Printed lines\<close>

text \<open>The verb \<open>%-ns\<close> pads by the number of runes; an ill-formed byte counts as one.\<close>

function rune_count :: "string \<Rightarrow> nat" where
  "rune_count s = (case s of [] \<Rightarrow> 0 | c # r \<Rightarrow> Suc (rune_count (drop (max 1 (rune_len s)) s)))"
  by auto
termination by (relation "measure length") auto

declare rune_count.simps [simp del]

definition pad :: "nat \<Rightarrow> string \<Rightarrow> string" where
  "pad n s = s @ replicate (n - rune_count s) (CHR '' '')"

definition rows :: "(nat \<times> string) list \<Rightarrow> string \<Rightarrow> string" where
  "rows cols rest = concat (map (\<lambda>(n, s). pad n s @ '' '') cols) @ rest"

definition shorten :: "nat \<Rightarrow> string \<Rightarrow> string" where
  "shorten n s = (if n < length s then take (n - 3) s @ ''...'' else s)"

definition listJobs :: "JobInfo list \<Rightarrow> string list" where
  "listJobs js =
     (if js = [] then [''No jobs found.'']
      else [rows [(14, ''JOB_ID''), (12, ''STATE''), (10, ''USER''), (15, ''WORKER''), (6, ''PRI''), (12, ''GROUP'')] ''COMMAND'',
            replicate 100 (CHR ''-'')] @
           map (\<lambda>j. rows [(14, jiJobId j), (12, jiState j), (10, jiUser j), (15, jiWorkerNode j), (6, Itoa (sint (jiPriority j))),
                          (12, if jiGroupId j = [] then ''-'' else jiGroupId j)] (shorten 25 (jiCommand j))) js)"

text \<open>What a command prints, or the message it dies with.\<close>

definition submit_lines :: "SubmitFlags \<Rightarrow> grpc_error + string \<times> string \<Rightarrow> grpc_error + string list" where
  "submit_lines f resp =
     (case resp of
        Inl e \<Rightarrow> Inl e
      | Inr (jobId, status) \<Rightarrow>
          Inr ([''Job submitted!'', ''  ID:       '' @ jobId, ''  Status:   '' @ status] @
               (if 0 < sint (sfGPUs f) then [''  GPUs:     '' @ Itoa (sint (sfGPUs f))] else []) @
               (if 0 < sint (sfWalltime f) then [''  Walltime: '' @ Itoa (sint (sfWalltime f)) @ ''s''] else [])))"

definition train_lines :: "TrainFlags \<Rightarrow> grpc_error + string \<times> string list \<times> string \<Rightarrow> grpc_error + string list" where
  "train_lines f resp =
     (case resp of
        Inl e \<Rightarrow> Inl e
      | Inr (groupId, jobIds, status) \<Rightarrow>
          Inr ([''Distributed training job submitted!'', ''  Group ID:       '' @ groupId,
                ''  Nodes:          '' @ Itoa (sint (tfNodes f)), ''  GPUs/node:      '' @ Itoa (sint (tfGPUsPerNode f)),
                ''  Status:         '' @ status, ''  Rank jobs:      '' @ Join jobIds '', '', [], ''Monitor:''] @
               map (\<lambda>(i, jid). ''  tasch jobs logs '' @ jid @ ''    # rank '' @ Itoa (int i)) (enumerate 0 jobIds)))"

definition cancel_line :: "CancelJobResponse \<Rightarrow> string" where
  "cancel_line r = ''Job '' @ cjJobId r @ '': '' @ cjStatus r @ '' '' @ [CHR 0xE2, CHR 0x80, CHR 0x94] @ '' '' @ cjMessage r"

text \<open>\<open>Duration.Round\<close>: to the nearest multiple, halves away from zero, saturating.\<close>

definition duration_Round :: "Duration \<Rightarrow> Duration \<Rightarrow> Duration" where
  "duration_Round d m =
     (let r = \<bar>d\<bar> mod m in
      if m \<le> 0 then d
      else if d < 0
      then (if r + r < m then d + r else if - (2 ^ 63) \<le> d - m + r then d - m + r else - (2 ^ 63))
      else (if r + r < m then d - r else if d + m - r < 2 ^ 63 then d + m - r else 2 ^ 63 - 1))"

definition unix_time :: "int \<Rightarrow> Time" where
  "unix_time u = (u + 62135596800) * 1000000000"

definition status_lines :: "(int \<Rightarrow> string) \<Rightarrow> string \<Rightarrow> GetJobStatusResponse \<Rightarrow> string list" where
  "status_lines rfc3339 arg r =
     (if stState r = ''NOT_FOUND'' then [''Job '' @ arg @ '' not found.'']
      else [''Job '' @ stJobId r, ''  State:   '' @ stState r, ''  Command: '' @ stCommand r] @
        (if stGroupId r \<noteq> [] then [''  Group:   '' @ stGroupId r] else []) @
        (if stWorkerNode r \<noteq> [] then [''  Worker:  '' @ stWorkerNode r] else []) @
        (if 0 < stSubmitTime r then [''  Submit:  '' @ rfc3339 (stSubmitTime r)] else []) @
        (if 0 < stStartTime r then [''  Start:   '' @ rfc3339 (stStartTime r)] else []) @
        (if 0 < stEndTime r
         then [''  End:     '' @ rfc3339 (stEndTime r)] @
              (if 0 < stStartTime r
               then [''  Duration: '' @ duration_String
                       (duration_Round (time_Sub (unix_time (stEndTime r)) (unix_time (stStartTime r))) Millisecond)]
               else [])
         else []) @
        (if stOutput r \<noteq> []
         then [''  Output:'', ''    '' @ Join (Split_char (CHR 0x0A) (TrimSpace (stOutput r))) (CHR 0x0A # ''    '')] else []) @
        (if stError r \<noteq> [] then [''  Error:   '' @ stError r] else []))"

text \<open>The log stream: entries are printed until the stream ends; an error is fatal only when following.\<close>

datatype recv = RecvEntry int string string | RecvEOF | RecvError

datatype logs_end = StreamOpen | StreamDone | StreamFatal

fun logs_loop :: "(int \<Rightarrow> string) \<Rightarrow> bool \<Rightarrow> recv list \<Rightarrow> string list \<times> logs_end" where
  "logs_loop clock follow [] = ([], StreamOpen)"
| "logs_loop clock follow (RecvEOF # es) = ([], StreamDone)"
| "logs_loop clock follow (RecvError # es) = ([], if follow then StreamFatal else StreamDone)"
| "logs_loop clock follow (RecvEntry ts level msg # es) =
     (case logs_loop clock follow es of (ls, e) \<Rightarrow> ((''['' @ clock ts @ ''] ['' @ level @ ''] '' @ msg) # ls, e))"

text \<open>
  \<open>tasch jobs failed\<close>: the dead letters of the master; when it cannot be asked, those of the
  local store; when that cannot be opened, the failed jobs of the master. No result: the command
  does not return.
\<close>

definition dead_jobs_lines :: "Job list \<Rightarrow> string list" where
  "dead_jobs_lines js =
     (if js = [] then [''No dead letter jobs found.'']
      else [''--- Dead Letter Queue ('' @ Itoa (int (length js)) @ '' jobs) ---'',
            rows [(10, ''JOB_ID''), (10, ''USER''), (6, ''TRIES'')] ''ERROR'', replicate 60 (CHR ''-'')] @
           map (\<lambda>j. rows [(10, ID j), (10, User j), (6, Itoa (RetryCount j))] (shorten 30 (Error j))) js)"

definition dead_infos_lines :: "JobInfo list \<Rightarrow> string list" where
  "dead_infos_lines js =
     (if js = [] then [''No dead letter jobs found.'']
      else [''--- Dead Letter Queue ('' @ Itoa (int (length js)) @ '' jobs) ---'',
            rows [(14, ''JOB_ID''), (12, ''STATE''), (10, ''USER''), (15, ''WORKER'')] ''COMMAND'', replicate 70 (CHR ''-'')] @
           map (\<lambda>j. rows [(14, jiJobId j), (12, jiState j), (10, jiUser j), (15, jiWorkerNode j)] (shorten 25 (jiCommand j))) js)"

definition failed_lines ::
    "grpc_error + JobInfo list \<Rightarrow> open_outcome \<Rightarrow> string list \<Rightarrow> grpc_error + JobInfo list \<Rightarrow> (grpc_error + string list) option" where
  "failed_lines dead opened order failedJobs =
     (case dead of
        Inr js \<Rightarrow> Some (Inr (dead_infos_lines js))
      | Inl _ \<Rightarrow>
          (case opened of
             WaitsForLock \<Rightarrow> None
           | Opened s \<Rightarrow> Some (Inr (dead_jobs_lines (LoadDeadLetters order s)))
           | _ \<Rightarrow> Some (case failedJobs of Inl e \<Rightarrow> Inl e | Inr js \<Rightarrow> Inr (listJobs js))))"

text \<open>
  The fallback does not help on the master's own host: while the daemon holds the store's
  lock, a failed call makes the command wait forever.
\<close>

lemma failed_waits_for_daemon: "failed_lines (Inl e) (Store.Open True True open_ok buckets_ok contents) order failedJobs = None"
  by (simp add: failed_lines_def Store.Open_def)

text \<open>
  \<open>tasch nodes\<close>: the members' advertisements, in the order in which the map is ranged over;
  the verb \<open>%v\<close> on a decoded value is the argument \<open>showv\<close>.
\<close>

definition gpu_lines :: "(iface option \<Rightarrow> string) \<Rightarrow> (string \<rightharpoonup> iface) \<Rightarrow> string list" where
  "gpu_lines showv p =
     (case p ''gpu_models'' of
        Some (ISlice models) \<Rightarrow>
          map (\<lambda>(i, m). ''    GPU '' @ Itoa (int i) @ '': '' @ showv (Some m) @
                 (case p ''gpu_memory_mb'' of
                    Some (ISlice mems) \<Rightarrow> if i < length mems then '' ('' @ showv (Some (mems ! i)) @ ''MB)'' else []
                  | _ \<Rightarrow> []))
            (enumerate 0 models)
      | _ \<Rightarrow> []) @
     (let amd = as_string p ''gpu_vendor'' = Some ''amd'';
          ver = (case as_string p (if amd then ''rocm_version'' else ''cuda_version'') of Some v \<Rightarrow> v | None \<Rightarrow> [])
      in if ver \<noteq> [] then [''    '' @ (if amd then ''ROCm'' else ''CUDA'') @ '': '' @ ver] else [])"

definition node_lines :: "(iface option \<Rightarrow> string) \<Rightarrow> string \<Rightarrow> string \<Rightarrow> string list" where
  "node_lines showv nodeID ad =
     (case Unmarshal_map ad of (p, err) \<Rightarrow>
        if err then [''Node: '' @ nodeID, ''  ClassAd: '' @ ad]
        else let gpuCount = f64_to_int (as_float p ''gpu_count'') in
          [''Node: '' @ nodeID,
           ''  OS: '' @ showv (p ''os'') @ '' | Arch: '' @ showv (p ''architecture'') @ '' | Cores: '' @ showv (p ''cpu_cores'') @
             '' | Memory: '' @ showv (p ''total_memory_mb'') @ ''MB | GPUs: '' @ Itoa gpuCount] @
          (if 0 < gpuCount then gpu_lines showv p else []))"

definition nodes_lines :: "(iface option \<Rightarrow> string) \<Rightarrow> string list \<Rightarrow> grpc_error + (string \<rightharpoonup> string) \<Rightarrow> grpc_error + string list" where
  "nodes_lines showv order resp =
     (case resp of
        Inl e \<Rightarrow> Inl e
      | Inr nodes \<Rightarrow>
          Inr (''--- Cluster Nodes ---'' #
               (if order = [] then [''No active workers found.'']
                else concat (map (\<lambda>n. node_lines showv n (get_or [] nodes n)) order))))"

subsection \<open>The environment of a submitted job\<close>

lemma SplitN2_assignment: "CHR ''='' \<notin> set k \<Longrightarrow> SplitN2 (assignment k v) ''='' = [k, v]"
  unfolding SplitN2_def assignment_def by (simp add: cut_char)

lemma SplitN2_no_assignment: "CHR ''='' \<notin> set e \<Longrightarrow> SplitN2 e ''='' = [e]"
  unfolding SplitN2_def by (simp add: cut_char_none)

lemma sint_in_i64: "in_i64 (sint (x :: 32 word))"
  using sint_greater_eq [of x] sint_lt [of x] by (simp add: in_i64_def)

text \<open>
  A variable has the value it would have if the flags were the environment itself: the last
  flag that assigns it decides, and a flag without an equals sign assigns none.
\<close>

lemma split_assignment:
  obtains n v where "e = assignment n v" "CHR ''='' \<notin> set n" | "CHR ''='' \<notin> set e"
  unfolding assignment_def by (metis split_list_first)

lemma parseEnvFlags_lookup:
  assumes "CHR ''='' \<notin> set k"
  shows "parseEnvFlags es m k = (case getenv es k of Some v \<Rightarrow> Some v | None \<Rightarrow> m k)"
proof (induction es arbitrary: m)
  case (Cons e es)
  show ?case
  proof (rule split_assignment [of e])
    fix n v assume e: "e = assignment n v" "CHR ''='' \<notin> set n"
    then have "HasPrefix e (k @ ''='') \<longleftrightarrow> n = k" using HasPrefix_assignment assms by simp
    then show ?thesis using Cons.IH SplitN2_assignment [OF e(2), of v] e(1)
      by (auto simp: assignment_def split: option.split)
  next
    assume e: "CHR ''='' \<notin> set e"
    then have "\<not> HasPrefix e (k @ ''='')" by (auto simp: HasPrefix_iff)
    then show ?thesis using Cons.IH SplitN2_no_assignment [OF e] by (simp split: option.split)
  qed
qed simp

lemma parseEnvFlags_ok:
  assumes "\<forall>e\<in>set es. \<forall>p\<in>set (SplitN2 e ''=''). utf8_ok p" "texts_ok m" "plain_names m"
  shows "texts_ok (parseEnvFlags es m) \<and> plain_names (parseEnvFlags es m)"
  using assms
proof (induction es arbitrary: m)
  case (Cons e es)
  show ?case
  proof (rule split_assignment [of e])
    fix n v assume e: "e = assignment n v" "CHR ''='' \<notin> set n"
    note sp = SplitN2_assignment [OF e(2), of v, folded e(1)]
    have "texts_ok (m(n \<mapsto> v))" "plain_names (m(n \<mapsto> v))"
      using Cons.prems e(2) sp by (auto simp: texts_ok_def plain_names_def)
    then show ?thesis using Cons.IH [of "m(n \<mapsto> v)"] Cons.prems(1) sp by (simp del: fun_upd_apply)
  next
    assume "CHR ''='' \<notin> set e"
    then show ?thesis using Cons.IH [of m] Cons.prems SplitN2_no_assignment [of e] by simp
  qed
qed simp

text \<open>The fields of a submitted job that no scheduler step changes.\<close>

definition as_submitted :: "Job \<Rightarrow> Job \<Rightarrow> bool" where
  "as_submitted job j \<longleftrightarrow> ID job = ID j \<and> Command job = Command j \<and> WalltimeSeconds job = WalltimeSeconds j \<and>
     GPUsRequired job = GPUsRequired j \<and> EnvVars job = EnvVars j"

text \<open>
  C34. From the command line to the command: when \<open>tasch jobs submit\<close> is accepted and the job
  it stored is dispatched, the named worker starts one run and no other worker does anything.
  The run is of the command given, under the wall time given, and its environment is the
  worker's with the \<open>--env\<close> flags appended: for every variable the last flag that assigns it
  decides, and without GPUs a variable that no flag assigns is inherited. A flag without an
  equals sign has no effect.
\<close>

theorem submitted_flags_reach_command:
  assumes "gs_inv (srv_queue srv)" "jobs (srv_queue srv) (take 8 uuid) = None"
    and r: "SubmitJob now uuid srv (submit_request f expr cmd) = (Inr (jid, status), srv1)"
    and j: "table (srv_queue srv1) jid = Some stored" "as_submitted job stored"
    and texts: "utf8_ok (take 8 uuid)" "utf8_ok cmd" "utf8_ok n" "\<forall>e\<in>set (sfEnv f). \<forall>p\<in>set (SplitN2 e ''=''). utf8_ok p"
    and m: "msg = Marshal_payload (last (srv_sent (dispatchJob later members srv2 job n)))"
  shows "if wkName w \<noteq> n then receive arrival msg w = w
   else \<exists>q. receive arrival msg w = w\<lparr>wkRuns := wkRuns w @ [\<lparr>runPayload = q, runPhase = Acknowledging\<rparr>]\<rparr> \<and>
    JobID q = jid \<and> prepareCommand (pCommand q) = [''sh'', ''-c'', cmd] \<and> pWalltimeSeconds q = sint (sfWalltime f) \<and>
    (\<forall>order base k. range_order order (env_of q) \<and> CHR ''='' \<notin> set k \<and> (sint (sfGPUs f) \<le> 0 \<or> getenv (sfEnv f) k \<noteq> None) \<longrightarrow>
       getenv (job_environ base order q) k = getenv (base @ sfEnv f) k)"
proof -
  note a = SubmitJob_accepted [OF assms(1,2) r]
  have job: "ID job = jid" "Command job = cmd" "WalltimeSeconds job = sint (sfWalltime f)" "GPUsRequired job = sint (sfGPUs f)"
    "job_env job = parseEnvFlags (sfEnv f) Map.empty"
    using a j by (auto simp: as_submitted_def submission_def noidx_def submit_request_def job_env_def)
  have "texts_ok Map.empty" "plain_names Map.empty" by (simp_all add: texts_ok_def plain_names_def)
  from parseEnvFlags_ok [OF texts(4) this] have "job_texts_ok job"
    unfolding job_texts_ok_def job using texts(1,2) a(1) sint_in_i64 by simp
  then obtain q where q: "runs_job q job"
    "receive arrival msg w = (if n \<noteq> wkName w then w else w\<lparr>wkRuns := wkRuns w @ [\<lparr>runPayload = q, runPhase = Acknowledging\<rparr>]\<rparr>)"
    using receive_dispatched [OF _ texts(3) m, of arrival w] by blast
  have "getenv (job_environ base order q) k = getenv (base @ sfEnv f) k"
    if "range_order order (env_of q)" "CHR ''='' \<notin> set k" "sint (sfGPUs f) \<le> 0 \<or> getenv (sfEnv f) k \<noteq> None" for order base k
    using q(1) that parseEnvFlags_lookup [OF that(2), of "sfEnv f" Map.empty]
    unfolding runs_job_def job by (fastforce simp: getenv_append split: option.splits)
  then show ?thesis using q job unfolding runs_job_def by auto
qed

definition ex_flags :: SubmitFlags where
  "ex_flags = \<lparr>sfPriority = 0, sfUser = ''ana'', sfWalltime = 60, sfGPUs = 0, sfEnv = [''A=1'', ''junk'', ''A=2'']\<rparr>"

theorem submitted_flags_reach_command_witness:
  "\<exists>q. receive 9 (Marshal_payload (last (srv_sent (dispatchJob 8 [] ex_started
         (submission 5 ''abcdefgh-1'' ex_started (submit_request ex_flags ''true'' ''run'')) ''w1'')))) (new_worker ''w1'') =
       (new_worker ''w1'')\<lparr>wkRuns := [\<lparr>runPayload = q, runPhase = Acknowledging\<rparr>]\<rparr> \<and>
     JobID q = ''abcdefgh'' \<and> prepareCommand (pCommand q) = [''sh'', ''-c'', ''run''] \<and> pWalltimeSeconds q = 60"
proof -
  let ?req = "submit_request ex_flags ''true'' ''run''"
  let ?sub = "submission 5 ''abcdefgh-1'' ex_started ?req"
  obtain srv1 where s: "snd (SubmitJob 5 ''abcdefgh-1'' ex_started ?req) = srv1" by blast
  have inv: "gs_inv (srv_queue ex_started)" using master_reach_queue [OF ex_started_sel(3)] reach_inv by blast
  have q: "jobs (srv_queue ex_started) (take 8 ''abcdefgh-1'') = None" "waiting (srv_queue ex_started) = {#}"
    "MaxQueueSize (srv_queue ex_started) = 10000"
    by (simp_all add: ex_started_sel New_empty waiting_def NewGlobalScheduler_eq)
  have "fst (SubmitJob 5 ''abcdefgh-1'' ex_started ?req) = Inr (''abcdefgh'', ''QUEUED'')"
    using SubmitJob_result(1) [of ex_started 5 "''abcdefgh-1''" ?req] submit_room [of ex_started ?sub] q ex_started_sel(2) by simp
  then have r: "SubmitJob 5 ''abcdefgh-1'' ex_started ?req = (Inr (''abcdefgh'', ''QUEUED''), srv1)" using s by (metis prod.collapse)
  have st: "table (srv_queue srv1) ''abcdefgh'' = Some (noidx (?sub\<lparr>State := StateQueued\<rparr>))"
    using SubmitJob_accepted(2) [OF inv q(1) r] by simp
  have as: "as_submitted ?sub (noidx (?sub\<lparr>State := StateQueued\<rparr>))" by (simp add: as_submitted_def noidx_def)
  have flags: "\<forall>e\<in>set (sfEnv ex_flags). \<forall>p\<in>set (SplitN2 e ''=''). utf8_ok p"
    using SplitN2_assignment [of "''A''" "''1''"] SplitN2_assignment [of "''A''" "''2''"] SplitN2_no_assignment [of "''junk''"]
    by (simp add: ex_flags_def assignment_def ascii_ok)
  have texts: "utf8_ok (take 8 ''abcdefgh-1'')" "utf8_ok ''run''" "utf8_ok ''w1''" by (simp_all add: ascii_ok)
  show ?thesis
    using submitted_flags_reach_command [OF inv q(1) r st as texts flags refl, where w = "new_worker ''w1''" and later = 8
        and members = "[]" and ?srv2.0 = ex_started and arrival = 9]
    by (auto simp: new_worker_def ex_flags_def)
qed

end
