(* ===== verification/Master_Start.thy ===== *)
theory Master_Start
  imports Config
begin

text \<open>
  The resources of the master: \<open>StartMaster\<close> of \<open>internal/daemon/master.go\<close> as the sequence of
  what it opens and, on every error path, closes again; the \<open>Cancel\<close> function of the handle it
  returns; and the shutdown of a master whose loops are still in a tick. What the calls
  into the system answer is the argument \<open>env\<close>.
\<close>

subsection \<open>Starting and stopping\<close>

record StartEnv =
  storeOpens :: bool
  gossipStarts :: bool
  evaluatorOk :: bool
  publisherBinds :: bool
  certLoads :: bool
  portBinds :: bool

datatype action = OpenStore | StartWriter | JoinGossip | NewContext | OpenPublisher | StartHTTP | StartLoops | StartGRPC
  | CancelContext | StopGRPC | ClosePublisher | StopGossip | CloseChannel | WaitWriter | CloseStore

datatype start_error = StoreFails | DiscoveryFails | EvaluatorFails | ZMQFails | TLSFails | ListenFails

definition cleanDB :: "action list" where
  "cleanDB = [CloseChannel, WaitWriter, CloseStore]"

definition grpc_creds :: "Config \<Rightarrow> (string \<times> string) option" where
  "grpc_creds cfg =
     (if tlsEnabled (cfgTLS cfg) \<and> tlsCertFile (cfgTLS cfg) \<noteq> [] \<and> tlsKeyFile (cfgTLS cfg) \<noteq> []
      then Some (tlsCertFile (cfgTLS cfg), tlsKeyFile (cfgTLS cfg)) else None)"

definition tls_banner :: "Config \<Rightarrow> string" where
  "tls_banner cfg = (if tlsEnabled (cfgTLS cfg) then '' [TLS]'' else [])"

definition start_actions :: "StartEnv \<Rightarrow> Config \<Rightarrow> action list \<times> start_error option" where
  "start_actions env cfg =
     (let a0 = [OpenStore, StartWriter]; a1 = a0 @ [JoinGossip]; a2 = a1 @ [NewContext];
          a3 = a2 @ [OpenPublisher, StartHTTP, StartLoops];
          undo = [CancelContext, StopGossip, ClosePublisher] @ cleanDB
      in if \<not> storeOpens env then ([], Some StoreFails)
         else if \<not> gossipStarts env then (a0 @ cleanDB, Some DiscoveryFails)
         else if \<not> evaluatorOk env then (a1 @ [StopGossip] @ cleanDB, Some EvaluatorFails)
         else if \<not> publisherBinds env then (a2 @ [CancelContext, StopGossip] @ cleanDB, Some ZMQFails)
         else if grpc_creds cfg \<noteq> None \<and> \<not> certLoads env then (a3 @ undo, Some TLSFails)
         else if \<not> portBinds env then (a3 @ undo, Some ListenFails)
         else (a3 @ [StartGRPC], None))"

definition cancel_actions :: "action list" where
  "cancel_actions = [CancelContext, StopGRPC, ClosePublisher, StopGossip] @ cleanDB"

text \<open>
  What is held after an action, and when it may be done: a resource is not opened twice nor
  closed unopened, the writer ends only after its channel is closed (waiting for it before
  would not return), and the store is closed after its writer has ended. The loops end with
  their context.
\<close>

datatype resource = Store_file | Channel | Writer | Gossip | Context | Publisher | HTTP | Loops | GRPC

fun act :: "action \<Rightarrow> resource set \<Rightarrow> resource set" where
  "act OpenStore h = insert Store_file h"
| "act StartWriter h = insert Channel (insert Writer h)"
| "act JoinGossip h = insert Gossip h"
| "act NewContext h = insert Context h"
| "act OpenPublisher h = insert Publisher h"
| "act StartHTTP h = insert HTTP h"
| "act StartLoops h = insert Loops h"
| "act StartGRPC h = insert GRPC h"
| "act CancelContext h = h - {Context, Loops}"
| "act StopGRPC h = h - {GRPC}"
| "act ClosePublisher h = h - {Publisher}"
| "act StopGossip h = h - {Gossip}"
| "act CloseChannel h = h - {Channel}"
| "act WaitWriter h = h - {Writer}"
| "act CloseStore h = h - {Store_file}"

fun in_turn :: "action \<Rightarrow> resource set \<Rightarrow> bool" where
  "in_turn OpenStore h = (Store_file \<notin> h)"
| "in_turn StartWriter h = (Store_file \<in> h \<and> Writer \<notin> h)"
| "in_turn JoinGossip h = (Gossip \<notin> h)"
| "in_turn NewContext h = (Context \<notin> h)"
| "in_turn OpenPublisher h = (Context \<in> h \<and> Publisher \<notin> h)"
| "in_turn StartHTTP h = (HTTP \<notin> h)"
| "in_turn StartLoops h = (Context \<in> h \<and> Publisher \<in> h \<and> Channel \<in> h \<and> Loops \<notin> h)"
| "in_turn StartGRPC h = (Channel \<in> h \<and> GRPC \<notin> h)"
| "in_turn CancelContext h = (Context \<in> h)"
| "in_turn StopGRPC h = (GRPC \<in> h)"
| "in_turn ClosePublisher h = (Publisher \<in> h \<and> Loops \<notin> h)"
| "in_turn StopGossip h = (Gossip \<in> h)"
| "in_turn CloseChannel h = (Channel \<in> h \<and> GRPC \<notin> h \<and> Loops \<notin> h \<and> Gossip \<notin> h)"
| "in_turn WaitWriter h = (Writer \<in> h \<and> Channel \<notin> h)"
| "in_turn CloseStore h = (Store_file \<in> h \<and> Writer \<notin> h)"

fun orderly :: "action list \<Rightarrow> resource set \<Rightarrow> bool" where
  "orderly [] h = True"
| "orderly (a # as) h = (in_turn a h \<and> orderly as (act a h))"

fun held :: "action list \<Rightarrow> resource set \<Rightarrow> resource set" where
  "held [] h = h"
| "held (a # as) h = held as (act a h)"


text \<open>TLS that is enabled without a certificate or key is silently off, and announced as on.\<close>

lemma tls_without_certificate:
  "tlsCertFile (cfgTLS cfg) = [] \<or> tlsKeyFile (cfgTLS cfg) = [] \<Longrightarrow> grpc_creds cfg = None"
  "tlsEnabled (cfgTLS cfg) \<Longrightarrow> tls_banner cfg = '' [TLS]''"
  by (auto simp: grpc_creds_def tls_banner_def)

subsection \<open>Shutting down during a tick\<close>

text \<open>
  The loops look at their context only between two ticks, so a tick may still be under way
  while \<open>Cancel\<close> runs. \<open>tickLeft\<close>: the changes of jobs and groups this tick has yet to announce
  on the channel to the writer; sending on a closed channel panics. The steps of the two
  goroutines interleave.
\<close>

record Shutdown =
  cancelLeft :: "action list"
  chanOpen :: bool
  tickLeft :: nat
  panicked :: bool

definition shutting_down :: "nat \<Rightarrow> Shutdown" where
  "shutting_down n = \<lparr>cancelLeft = cancel_actions, chanOpen = True, tickLeft = n, panicked = False\<rparr>"

inductive shutdown_step :: "Shutdown \<Rightarrow> Shutdown \<Rightarrow> bool" where
  cancel: "\<not> panicked s \<Longrightarrow> cancelLeft s = a # as \<Longrightarrow>
    shutdown_step s (s\<lparr>cancelLeft := as, chanOpen := chanOpen s \<and> a \<noteq> CloseChannel\<rparr>)"
| announce: "\<not> panicked s \<Longrightarrow> tickLeft s = Suc n \<Longrightarrow> chanOpen s \<Longrightarrow> shutdown_step s (s\<lparr>tickLeft := n\<rparr>)"
| send_on_closed: "\<not> panicked s \<Longrightarrow> 0 < tickLeft s \<Longrightarrow> \<not> chanOpen s \<Longrightarrow> shutdown_step s (s\<lparr>panicked := True\<rparr>)"

inductive_cases shutdown_stepE: "shutdown_step s s'"

lemma shutdown_idle:
  "shutdown_step\<^sup>*\<^sup>* s s' \<Longrightarrow> tickLeft s = 0 \<Longrightarrow> \<not> panicked s \<Longrightarrow> tickLeft s' = 0 \<and> \<not> panicked s'"
  by (induction rule: rtranclp_induct) (auto elim: shutdown_stepE)

lemma cancel_runs:
  "\<not> panicked s \<Longrightarrow> shutdown_step\<^sup>*\<^sup>* s (s\<lparr>cancelLeft := [], chanOpen := chanOpen s \<and> CloseChannel \<notin> set (cancelLeft s)\<rparr>)"
proof (induction "cancelLeft s" arbitrary: s)
  case Nil
  then show ?case by (cases s) simp
next
  case (Cons a as)
  let ?s = "s\<lparr>cancelLeft := as, chanOpen := chanOpen s \<and> a \<noteq> CloseChannel\<rparr>"
  have "shutdown_step s ?s" by (rule shutdown_step.cancel) (use Cons in auto)
  moreover have "shutdown_step\<^sup>*\<^sup>* ?s (?s\<lparr>cancelLeft := [], chanOpen := chanOpen ?s \<and> CloseChannel \<notin> set (cancelLeft ?s)\<rparr>)"
    by (rule Cons.hyps(1)) (use Cons.prems in simp_all)
  moreover have "set (cancelLeft s) = insert a (set as)" by (simp flip: Cons.hyps(2))
  ultimately show ?case by (simp add: converse_rtranclp_into_rtranclp eq_commute)
qed

text \<open>
  Stopping the master is a race with its loops: when the tick under way still has a
  change to announce, some interleaving closes the channel first and the daemon panics;
  without such a tick no interleaving does.
\<close>

theorem shutdown_races_with_tick:
  "(\<exists>s. shutdown_step\<^sup>*\<^sup>* (shutting_down n) s \<and> panicked s) \<longleftrightarrow> 0 < n"
proof
  assume "\<exists>s. shutdown_step\<^sup>*\<^sup>* (shutting_down n) s \<and> panicked s"
  then show "0 < n" using shutdown_idle [of "shutting_down n"] by (cases n) (auto simp: shutting_down_def)
next
  assume n: "0 < n"
  let ?c = "(shutting_down n)\<lparr>cancelLeft := [], chanOpen := False\<rparr>"
  have "shutdown_step\<^sup>*\<^sup>* (shutting_down n) ?c"
    using cancel_runs [of "shutting_down n"] by (simp add: shutting_down_def cancel_actions_def cleanDB_def)
  moreover have "shutdown_step ?c (?c\<lparr>panicked := True\<rparr>)"
    by (rule shutdown_step.send_on_closed) (use n in \<open>simp_all add: shutting_down_def\<close>)
  ultimately have "shutdown_step\<^sup>*\<^sup>* (shutting_down n) (?c\<lparr>panicked := True\<rparr>)" by (rule rtranclp.rtrancl_into_rtrancl)
  then show "\<exists>s. shutdown_step\<^sup>*\<^sup>* (shutting_down n) s \<and> panicked s" by (intro exI [of _ "?c\<lparr>panicked := True\<rparr>"] conjI) simp_all
qed

end
