(* ===== verification/Sockets.thy ===== *)
theory Sockets
  imports Worker_Loops
begin

text \<open>
  The publisher and subscriber of \<open>pkg/messaging/zeromq.go\<close>: wrappers around the sockets of
  the ZeroMQ library. What the library answers is an argument; what the wrappers do is the
  sequence of calls they make, and the result they hand on.
\<close>

datatype zmq_call = NewPub | NewSub | Listen string | Dial string | Subscribe string | SendMsg string | Recv | CloseSocket

definition NewZMQPublisher :: "string \<Rightarrow> string option \<Rightarrow> (string + unit) \<times> zmq_call list" where
  "NewZMQPublisher endpoint listenErr =
     (case listenErr of
        Some e \<Rightarrow> (Inl (''could not listen on '' @ endpoint @ '': '' @ e), [NewPub, Listen endpoint])
      | None \<Rightarrow> (Inr (), [NewPub, Listen endpoint]))"

definition ZMQPublisher_Send :: "string \<Rightarrow> zmq_call list" where
  "ZMQPublisher_Send msg = [SendMsg msg]"

definition ZMQPublisher_Close :: "zmq_call list" where
  "ZMQPublisher_Close = [CloseSocket]"

definition NewZMQSubscriber :: "string \<Rightarrow> string option \<Rightarrow> string option \<Rightarrow> (string + unit) \<times> zmq_call list" where
  "NewZMQSubscriber endpoint dialErr optErr =
     (case dialErr of
        Some e \<Rightarrow> (Inl (''could not dial '' @ endpoint @ '': '' @ e), [NewSub, Dial endpoint])
      | None \<Rightarrow>
          (case optErr of
             Some e \<Rightarrow> (Inl e, [NewSub, Dial endpoint, Subscribe []])
           | None \<Rightarrow> (Inr (), [NewSub, Dial endpoint, Subscribe []])))"

text \<open>The bytes of a received message are its text; an error is handed on.\<close>

definition ZMQSubscriber_Receive :: "string + string \<Rightarrow> (string + string) \<times> zmq_call list" where
  "ZMQSubscriber_Receive answer = (answer, [Recv])"

definition ZMQSubscriber_Close :: "zmq_call list" where
  "ZMQSubscriber_Close = [CloseSocket]"

subsection \<open>The sockets of a worker\<close>

text \<open>
  The library's answers along a subscription, and the events of the link they are: a
  connection attempt with the errors of its two steps, a call that receives, and the end of
  the context, which a receiving link notices by an error and a dialling one in its pause.
\<close>

datatype answer = Attempt "string option" "string option" | Received "string + string" | Ended

fun link_event_of :: "string \<Rightarrow> answer \<Rightarrow> link_event" where
  "link_event_of endpoint (Attempt d o') = (case fst (NewZMQSubscriber endpoint d o') of Inl _ \<Rightarrow> DialFail | Inr _ \<Rightarrow> DialOk)"
| "link_event_of endpoint (Received r) = (case fst (ZMQSubscriber_Receive r) of Inl _ \<Rightarrow> RecvFail | Inr msg \<Rightarrow> Got msg)"
| "link_event_of endpoint Ended = CtxDone"

fun link_calls :: "string \<Rightarrow> link \<Rightarrow> answer \<Rightarrow> zmq_call list" where
  "link_calls endpoint (Dialing b) (Attempt d o') = snd (NewZMQSubscriber endpoint d o')"
| "link_calls endpoint Receiving (Received (Inr msg)) = snd (ZMQSubscriber_Receive (Inr msg))"
| "link_calls endpoint Receiving (Received (Inl e)) = snd (ZMQSubscriber_Receive (Inl e)) @ ZMQSubscriber_Close"
| "link_calls endpoint Receiving Ended = [Recv] @ ZMQSubscriber_Close"
| "link_calls endpoint l a = []"

fun subscription_calls :: "string \<Rightarrow> link \<Rightarrow> answer list \<Rightarrow> zmq_call list" where
  "subscription_calls endpoint l [] = []"
| "subscription_calls endpoint l (a # as) =
     link_calls endpoint l a @ subscription_calls endpoint (fst (link_step l (link_event_of endpoint a))) as"

definition open_sockets :: "zmq_call list \<Rightarrow> int" where
  "open_sockets cs = int (length (filter (\<lambda>c. c = NewPub \<or> c = NewSub) cs)) - int (length (filter (\<lambda>c. c = CloseSocket) cs))"

lemma open_sockets_append [simp]: "open_sockets (cs @ ds) = open_sockets cs + open_sockets ds"
  by (simp add: open_sockets_def)

lemma open_sockets_one [simp]: "open_sockets [] = 0"
  "open_sockets (c # cs) = (if c = NewPub \<or> c = NewSub then 1 else if c = CloseSocket then -1 else 0) + open_sockets cs"
  by (auto simp: open_sockets_def)

lemma subscriber_opens: "open_sockets (snd (NewZMQSubscriber endpoint d o')) = 1"
  by (simp add: NewZMQSubscriber_def split: option.split)

text \<open>A publisher that was created and closed leaves no socket, whatever it sent.\<close>

lemma publisher_closes:
  "open_sockets (snd (NewZMQPublisher endpoint None) @ concat (map ZMQPublisher_Send msgs) @ ZMQPublisher_Close) = 0"
proof -
  have "open_sockets (concat (map ZMQPublisher_Send msgs)) = 0" by (induction msgs) (simp_all add: ZMQPublisher_Send_def)
  then show ?thesis by (simp add: NewZMQPublisher_def ZMQPublisher_Close_def)
qed

definition failed_attempts :: "string \<Rightarrow> answer list \<Rightarrow> nat" where
  "failed_attempts endpoint as = length (filter (\<lambda>a. link_event_of endpoint a = DialFail) as)"

lemma sockets_run:
  assumes "link_sane l (map (link_event_of endpoint) as)"
  shows "open_sockets (subscription_calls endpoint l as) + (if l = Receiving then 1 else 0) =
    int (failed_attempts endpoint as) +
      (if fst (subscribeWithReconnect l (map (link_event_of endpoint) as)) = Receiving then 1 else 0)"
  using assms
proof (induction as arbitrary: l)
  case (Cons a as)
  obtain l1 out ws where s: "link_step l (link_event_of endpoint a) = (l1, out, ws)" by (metis prod_cases3)
  have e: "fst (subscribeWithReconnect l (map (link_event_of endpoint) (a # as))) =
      fst (subscribeWithReconnect l1 (map (link_event_of endpoint) as))"
    by (simp add: s split: prod.split)
  have f: "failed_attempts endpoint (a # as) = (if link_event_of endpoint a = DialFail then 1 else 0) + failed_attempts endpoint as"
    by (simp add: failed_attempts_def)
  have ih: "link_sane l1 (map (link_event_of endpoint) as) \<Longrightarrow> open_sockets (subscription_calls endpoint l1 as) + (if l1 = Receiving then 1 else 0) =
      int (failed_attempts endpoint as) + (if fst (subscribeWithReconnect l1 (map (link_event_of endpoint) as)) = Receiving then 1 else 0)"
    by (rule Cons.IH)
  show ?case
  proof (cases l)
    case (Dialing b)
    then obtain d o' where a: "a = Attempt d o' \<or> a = Ended"
      using Cons.prems by (cases a) (auto simp: ZMQSubscriber_Receive_def split: sum.splits)
    then show ?thesis
      using Dialing s ih Cons.prems unfolding e f
      by (auto simp: subscriber_opens failed_attempts_def split: sum.splits)
  next
    case Receiving
    then obtain r where a: "a = Received r \<or> a = Ended"
      using Cons.prems by (cases a) (auto split: sum.splits)
    then show ?thesis
      using Receiving s ih Cons.prems unfolding e f
      by (cases r) (auto simp: ZMQSubscriber_Receive_def ZMQSubscriber_Close_def failed_attempts_def)
  qed (use Cons.prems in simp)
qed (simp add: failed_attempts_def)

text \<open>
  Sockets are not given back: every connection attempt creates a socket, and one that fails,
  while dialling or while subscribing, leaves it open. After a run of the subscription as
  many sockets are open as attempts have failed, and one more while the link is up.
\<close>

theorem failed_attempts_leak_sockets:
  assumes "link_sane (Dialing Second) (map (link_event_of endpoint) as)"
  shows "open_sockets (subscription_calls endpoint (Dialing Second) as) =
    int (failed_attempts endpoint as) +
      (if fst (subscribeWithReconnect (Dialing Second) (map (link_event_of endpoint) as)) = Receiving then 1 else 0)"
  using sockets_run [OF assms] by simp

theorem failed_attempts_leak_sockets_witness:
  "open_sockets (subscription_calls ''tcp://m:5555'' (Dialing Second)
     [Attempt (Some ''refused'') None, Attempt (Some ''refused'') None, Attempt None None, Received (Inr ''m''), Ended]) = 2"
  using failed_attempts_leak_sockets [of "''tcp://m:5555''"
      "[Attempt (Some ''refused'') None, Attempt (Some ''refused'') None, Attempt None None, Received (Inr ''m''), Ended]"]
  by (simp add: NewZMQSubscriber_def ZMQSubscriber_Receive_def failed_attempts_def)

end
